(* ===== verification/Prelude.thy ===== *)
theory Prelude
  imports Main "HOL-Library.Word"
begin

text \<open>
  Shared vocabulary of the development: the machine integers of the C++ sources, memory as a list of
  bytes with \<open>mem_read\<close> and \<open>mem_write\<close> (the source's \<open>memcpy\<close>), little-endian fields, and the
  generic lemmas on lists and words that the component theories use.
\<close>

unbundle bit_operations_syntax

type_synonym u8 = "8 word"
type_synonym u16 = "16 word"
type_synonym u32 = "32 word"
type_synonym u64 = "64 word"
type_synonym bytes = "8 word list"

named_theorems mem_simps \<open>reading memory after a memcpy\<close>

section \<open>Memory as a list of bytes\<close>

text \<open>\<open>mem_read m off n\<close>: the \<open>n\<close> bytes at offset \<open>off\<close>; \<open>mem_write m off xs\<close>: \<open>memcpy(m + off, xs)\<close>.\<close>

definition mem_read :: "'a list \<Rightarrow> nat \<Rightarrow> nat \<Rightarrow> 'a list" where
  "mem_read m off n = take n (drop off m)"

definition mem_write :: "'a list \<Rightarrow> nat \<Rightarrow> 'a list \<Rightarrow> 'a list" where
  "mem_write m off xs = take off m @ xs @ drop (off + length xs) m"

lemma length_mem_read [simp]: "off + n \<le> length m \<Longrightarrow> length (mem_read m off n) = n"
  by (simp add: mem_read_def)

lemma length_mem_write [simp]: "off + length xs \<le> length m \<Longrightarrow> length (mem_write m off xs) = length m"
  by (simp add: mem_write_def)

lemma mem_read_0 [simp]: "mem_read m off 0 = []"
  by (simp add: mem_read_def)

lemma mem_read_start: "mem_read m 0 n = take n m"
  by (simp add: mem_read_def)

lemma mem_write_Nil [simp]: "mem_write m off [] = m"
  by (simp add: mem_write_def)

lemma mem_read_write_same [mem_simps]:
  "off + length xs \<le> length m \<Longrightarrow> n = length xs \<Longrightarrow> mem_read (mem_write m off xs) off n = xs"
  by (simp add: mem_read_def mem_write_def)

lemma mem_read_write_before [mem_simps]:
  "off' + n \<le> off \<Longrightarrow> off \<le> length m \<Longrightarrow> mem_read (mem_write m off xs) off' n = mem_read m off' n"
  by (auto simp: mem_read_def mem_write_def drop_take min_def)

lemma mem_read_write_after [mem_simps]:
  assumes "off + length xs \<le> off'" and "off + length xs \<le> length m"
  shows "mem_read (mem_write m off xs) off' n = mem_read m off' n"
proof -
  have "drop off' (mem_write m off xs) = drop off' m"
    using assms by (simp add: mem_write_def)
  then show ?thesis by (simp add: mem_read_def)
qed

lemma mem_read_append:
  "off + a + b \<le> length m \<Longrightarrow> mem_read m off a @ mem_read m (off + a) b = mem_read m off (a + b)"
  by (simp add: mem_read_def take_add add.commute)

lemma take_mem_read: "k \<le> n \<Longrightarrow> take k (mem_read m off n) = mem_read m off k"
  by (simp add: mem_read_def min_def)

lemma drop_mem_read: "drop k (mem_read m off n) = mem_read m (off + k) (n - k)"
  by (simp add: mem_read_def drop_take add.commute)

lemma mem_read_extend_write [mem_simps]:
  assumes "off + n + length xs \<le> length m"
  shows "mem_read (mem_write m (off + n) xs) off (n + length xs) = mem_read m off n @ xs"
proof -
  have "mem_read (mem_write m (off + n) xs) off (n + length xs)
      = mem_read (mem_write m (off + n) xs) off n
        @ mem_read (mem_write m (off + n) xs) (off + n) (length xs)"
    using assms by (simp add: mem_read_append)
  then show ?thesis using assms by (simp add: mem_simps)
qed

lemma mem_read_append_lists:
  "mem_read (xs @ ys) off n = mem_read xs off n @ mem_read ys (off - length xs) (n - (length xs - off))"
  by (simp add: mem_read_def)

lemma mem_read_mem_read: "mem_read (mem_read m a k) off n = mem_read m (a + off) (min n (k - off))"
  by (simp add: mem_read_def drop_take add.commute)

lemma mem_read_nth: "i < n \<Longrightarrow> off + n \<le> length m \<Longrightarrow> mem_read m off n ! i = m ! (off + i)"
  by (simp add: mem_read_def)

lemma mem_write_mem_write_adjacent:
  assumes "off + length xs + length ys \<le> length m"
  shows "mem_write (mem_write m off xs) (off + length xs) ys = mem_write m off (xs @ ys)"
  using assms by (simp add: mem_write_def ac_simps)

section \<open>Little-endian fields\<close>

text \<open>
  The bytes of a \<open>w\<close>-bit integer in memory order on the little-endian targets the sources are
  written for (\<open>memcpy\<close> of integer fields), and the integer read back from them.
\<close>

definition le_bytes :: "nat \<Rightarrow> 'a::len word \<Rightarrow> bytes" where
  "le_bytes n w = map (\<lambda>i. ucast (drop_bit (8 * i) w)) [0..<n]"

fun le_val :: "bytes \<Rightarrow> 'a::len word" where
  "le_val [] = 0"
| "le_val (b # bs) = ucast b OR push_bit 8 (le_val bs)"

lemma length_le_bytes [simp]: "length (le_bytes n w) = n"
  by (simp add: le_bytes_def)

lemma nth_le_bytes [simp]: "i < n \<Longrightarrow> le_bytes n w ! i = ucast (drop_bit (8 * i) w)"
  by (simp add: le_bytes_def)

lemma bit_le_val:
  "bit (le_val bs :: 'a::len word) i \<longleftrightarrow>
     i < LENGTH('a) \<and> i div 8 < length bs \<and> bit (bs ! (i div 8)) (i mod 8)"
proof (induction bs arbitrary: i)
  case Nil
  then show ?case by simp
next
  case (Cons b bs)
  show ?case
  proof (cases "i < 8")
    case True
    then show ?thesis by (auto simp: bit_or_iff bit_push_bit_iff bit_word_ucast_iff)
  next
    case False
    then obtain j where j: "i = j + 8" by (metis add.commute le_Suc_ex not_less)
    moreover have "(j + 8) div 8 = Suc (j div 8)" by simp
    ultimately show ?thesis
      by (auto simp: bit_or_iff bit_push_bit_iff bit_word_ucast_iff Cons.IH possible_bit_word
          dest: bit_imp_le_length)
  qed
qed

lemma le_val_le_bytes:
  assumes "LENGTH('a) \<le> 8 * n"
  shows "le_val (le_bytes n w) = (w :: 'a::len word)"
proof (rule bit_word_eqI)
  fix i
  assume i: "i < LENGTH('a)"
  then have "i div 8 < n" using assms by linarith
  moreover have "8 * (i div 8) + i mod 8 = i" by simp
  moreover have "i mod 8 < LENGTH('a)" using i by (meson le_less_trans mod_less_eq_dividend)
  ultimately show "bit (le_val (le_bytes n w) :: 'a word) i = bit w i"
    using i by (simp add: bit_le_val bit_word_ucast_iff bit_drop_bit_eq del: mult_div_mod_eq)
qed

lemma le_bytes_le_val:
  assumes "length bs = n" and "8 * n \<le> LENGTH('a)"
  shows "le_bytes n (le_val bs :: 'a::len word) = bs"
proof (rule nth_equalityI)
  show "length (le_bytes n (le_val bs :: 'a word)) = length bs" using assms by simp
next
  fix i
  assume "i < length (le_bytes n (le_val bs :: 'a word))"
  then have i: "i < n" by simp
  show "le_bytes n (le_val bs :: 'a word) ! i = bs ! i"
  proof (rule bit_word_eqI)
    fix k
    assume k: "k < LENGTH(8)"
    then have "8 * i + k < LENGTH('a)" using i assms by simp
    moreover have "(8 * i + k) div 8 = i" and "(8 * i + k) mod 8 = k" using k by auto
    ultimately show "bit (le_bytes n (le_val bs :: 'a word) ! i) k = bit (bs ! i) k"
      using i k assms by (simp add: bit_word_ucast_iff bit_drop_bit_eq bit_le_val ac_simps)
  qed
qed

lemma le_val_append:
  assumes "8 * length xs \<ge> LENGTH('a::len)"
  shows "(le_val (xs @ ys) :: 'a word) = le_val xs"
proof (rule bit_word_eqI)
  fix i
  assume "i < LENGTH('a)"
  then have "i div 8 < length xs" using assms by linarith
  then show "bit (le_val (xs @ ys) :: 'a word) i = bit (le_val xs :: 'a word) i"
    by (simp add: bit_le_val nth_append)
qed

section \<open>Powers of two and masks\<close>

text \<open>The sources' power-of-two test \<open>(n & (n - 1)) == 0\<close> and mask \<open>i & (n - 1)\<close>.\<close>

lemma and_mask_mod: "unat (w AND mask k) = unat (w :: 'a::len word) mod 2 ^ k"
proof -
  have "unat (take_bit k w) = take_bit k (unat w)" by (rule unsigned_take_bit_eq)
  then show ?thesis by (simp only: take_bit_eq_mask) (simp add: take_bit_eq_mod flip: take_bit_eq_mask)
qed

lemma word_xor_left_cancel [simp]: "(a :: 'a::len word) XOR b = a XOR c \<longleftrightarrow> b = c"
  by (auto simp: bit_eq_iff bit_xor_iff)

lemma word_xor_right_cancel [simp]: "(b :: 'a::len word) XOR a = c XOR a \<longleftrightarrow> b = c"
  by (auto simp: bit_eq_iff bit_xor_iff)

end
