(* ===== verification/Fifo.thy ===== *)
theory Fifo
  imports Prelude
begin

text \<open>
  The contract of a byte queue, as the parser and the receive path rely on it: an accepted write
  appends, a refused write changes nothing, a read takes a prefix. The two buffers of the sources
  (\<open>BipBuffer\<close> and \<open>ISRRingBuffer\<close>) are its interpretations; what holds of every run of
  operations is proved here once.
\<close>

datatype 'a fifo_op = Push "'a list" | Pop nat

text \<open>
  A run of operations: the state reached, everything accepted and everything read, each in order.
\<close>

fun fifo_run ::
  "('a list \<Rightarrow> 'q \<Rightarrow> bool \<times> 'q) \<Rightarrow> (nat \<Rightarrow> 'q \<Rightarrow> 'a list \<times> 'q) \<Rightarrow> 'a fifo_op list \<Rightarrow> 'q
     \<Rightarrow> 'a list \<times> 'a list \<times> 'q" where
  "fifo_run push pop [] q = ([], [], q)"
| "fifo_run push pop (Push xs # ops) q =
     (let (ok, q) = push xs q; (acc, out, q) = fifo_run push pop ops q
      in ((if ok then xs else []) @ acc, out, q))"
| "fifo_run push pop (Pop n # ops) q =
     (let (ys, q) = pop n q; (acc, out, q) = fifo_run push pop ops q
      in (acc, ys @ out, q))"

locale byte_fifo =
  fixes contents :: "'q \<Rightarrow> 'a list"
    and invar :: "'q \<Rightarrow> bool"
    and push :: "'a list \<Rightarrow> 'q \<Rightarrow> bool \<times> 'q"
    and pop :: "nat \<Rightarrow> 'q \<Rightarrow> 'a list \<times> 'q"
  assumes push_ok: "invar q \<Longrightarrow> push xs q = (True, q') \<Longrightarrow> invar q' \<and> contents q' = contents q @ xs"
    and push_refused: "invar q \<Longrightarrow> push xs q = (False, q') \<Longrightarrow> invar q' \<and> contents q' = contents q"
    and pop_prefix: "invar q \<Longrightarrow> pop n q = (ys, q') \<Longrightarrow> invar q' \<and> contents q = ys @ contents q'"
begin

lemma push_contents:
  "invar q \<Longrightarrow> push xs q = (ok, q') \<Longrightarrow> invar q' \<and> contents q' = contents q @ (if ok then xs else [])"
  by (cases ok) (auto dest: push_ok push_refused)

text \<open>Nothing is lost, duplicated or reordered between an accepted write and the reads.\<close>

lemma run_fifo:
  "invar q \<Longrightarrow> fifo_run push pop ops q = (acc, out, q') \<Longrightarrow>
     invar q' \<and> contents q @ acc = out @ contents q'"
proof (induction ops arbitrary: q acc out)
  case Nil
  then show ?case by simp
next
  case (Cons op ops)
  show ?case
  proof (cases op)
    case (Push xs)
    obtain ok q1 where p: "push xs q = (ok, q1)" by fastforce
    obtain acc' out' where r: "fifo_run push pop ops q1 = (acc', out', q')"
      and eqs: "acc = (if ok then xs else []) @ acc'" "out = out'"
      using Cons.prems(2) by (auto simp: Push p split: prod.splits)
    have q1: "invar q1" "contents q1 = contents q @ (if ok then xs else [])"
      using push_contents [OF Cons.prems(1) p] by auto
    show ?thesis using Cons.IH [OF q1(1) r] by (simp add: eqs q1(2))
  next
    case (Pop n)
    obtain ys q1 where p: "pop n q = (ys, q1)" by fastforce
    obtain acc' out' where r: "fifo_run push pop ops q1 = (acc', out', q')"
      and eqs: "acc = acc'" "out = ys @ out'"
      using Cons.prems(2) by (auto simp: Pop p split: prod.splits)
    have q1: "invar q1" "contents q = ys @ contents q1"
      using pop_prefix [OF Cons.prems(1) p] by auto
    show ?thesis using Cons.IH [OF q1(1) r] by (simp add: eqs q1(2))
  qed
qed

end

text \<open>A queue that holds at most \<open>capacity\<close> bytes.\<close>

locale bounded_fifo = byte_fifo +
  fixes capacity :: "'q \<Rightarrow> nat"
  assumes bounded: "invar q \<Longrightarrow> length (contents q) \<le> capacity q"
    and push_capacity: "invar q \<Longrightarrow> push xs q = (ok, q') \<Longrightarrow> capacity q' = capacity q"
    and pop_capacity: "invar q \<Longrightarrow> pop n q = (ys, q') \<Longrightarrow> capacity q' = capacity q"
begin

lemma run_capacity: "invar q \<Longrightarrow> fifo_run push pop ops q = (acc, out, q') \<Longrightarrow> capacity q' = capacity q"
proof (induction ops arbitrary: q acc out)
  case Nil
  then show ?case by simp
next
  case (Cons op ops)
  show ?case
  proof (cases op)
    case (Push xs)
    obtain ok q1 where p: "push xs q = (ok, q1)" by (cases "push xs q")
    then show ?thesis using Cons push_contents [OF Cons.prems(1) p] push_capacity [OF Cons.prems(1) p]
      by (auto simp: Push split: prod.splits)
  next
    case (Pop n)
    obtain ys q1 where p: "pop n q = (ys, q1)" by (cases "pop n q")
    then show ?thesis using Cons pop_prefix [OF Cons.prems(1) p] pop_capacity [OF Cons.prems(1) p]
      by (auto simp: Pop split: prod.splits)
  qed
qed

text \<open>What was accepted and not yet read fits the capacity.\<close>

lemma run_backlog:
  assumes "invar q" and "contents q = []" and "fifo_run push pop ops q = (acc, out, q')"
  shows "take (length out) acc = out" and "length acc \<le> length out + capacity q"
proof -
  have *: "invar q'" "acc = out @ contents q'"
    using run_fifo [OF assms(1,3)] assms(2) by auto
  then show "take (length out) acc = out" by simp
  show "length acc \<le> length out + capacity q"
    using * bounded [of q'] run_capacity [OF assms(1,3)] by simp
qed

end

end
