(* ===== verification/Bip_Buffer.thy ===== *)
theory Bip_Buffer
  imports Fifo
begin

text \<open>
  \<open>RPL::Containers::BipBuffer\<close>: two regions over one array, \<open>A\<close> (read first) and \<open>B\<close> (at offset 0,
  read after \<open>A\<close>). A span is its offset in the array and its length; the empty span is \<open>(0, 0)\<close>.
  The abstraction \<open>bip_contents\<close> is the queue of bytes; every operation is proved against it.
\<close>

section \<open>State and operations\<close>

record bip =
  bip_mem :: bytes
  region_a_start :: nat
  region_a_size :: nat
  region_b_size :: nat

type_synonym span = "nat \<times> nat"

abbreviation bip_size :: "bip \<Rightarrow> nat" where
  "bip_size b \<equiv> length (bip_mem b)"

definition bip_init :: "nat \<Rightarrow> bip" where
  "bip_init sz = \<lparr>bip_mem = replicate sz 0, region_a_start = 0, region_a_size = 0, region_b_size = 0\<rparr>"

definition span_bytes :: "bip \<Rightarrow> span \<Rightarrow> bytes" where
  "span_bytes b sp = mem_read (bip_mem b) (fst sp) (snd sp)"

definition get_write_buffer :: "bip \<Rightarrow> span" where
  "get_write_buffer b =
     (if region_b_size b > 0 then (region_b_size b, region_a_start b - region_b_size b)
      else
        let a_end = region_a_start b + region_a_size b; space_at_end = bip_size b - a_end
        in if space_at_end > 0 then (a_end, space_at_end)
           else if region_a_start b > 0 then (0, region_a_start b)
           else (0, 0))"

definition advance_write_index :: "nat \<Rightarrow> bip \<Rightarrow> bool \<times> bip" where
  "advance_write_index len b =
     (if len = 0 then (True, b)
      else if region_b_size b > 0 then
        if region_b_size b + len > region_a_start b then (False, b)
        else (True, b\<lparr>region_b_size := region_b_size b + len\<rparr>)
      else
        let a_end = region_a_start b + region_a_size b
        in if len \<le> bip_size b - a_end then (True, b\<lparr>region_a_size := region_a_size b + len\<rparr>)
           else if region_a_size b = 0 then (True, b\<lparr>region_a_size := region_a_size b + len\<rparr>)
           else if bip_size b - a_end > 0 then
             if len > bip_size b - a_end then (False, b)
             else (True, b\<lparr>region_a_size := region_a_size b + len\<rparr>)
           else if len > region_a_start b then (False, b)
           else (True, b\<lparr>region_b_size := len\<rparr>))"

definition get_write_buffer_force_wrap :: "bip \<Rightarrow> span" where
  "get_write_buffer_force_wrap b =
     (if region_b_size b > 0 then get_write_buffer b
      else if region_a_start b > 0 then (0, region_a_start b)
      else (0, 0))"

definition advance_write_index_wrapped :: "nat \<Rightarrow> bip \<Rightarrow> bool \<times> bip" where
  "advance_write_index_wrapped len b =
     (if region_b_size b > 0 then advance_write_index len b
      else if len > region_a_start b then (False, b)
      else (True, b\<lparr>region_b_size := len\<rparr>))"

definition bip_write :: "bytes \<Rightarrow> bip \<Rightarrow> bool \<times> bip" where
  "bip_write data b =
     (if length data = 0 then (True, b)
      else
        let (off, n) = get_write_buffer b
        in if n \<ge> length data then
             advance_write_index (length data) (b\<lparr>bip_mem := mem_write (bip_mem b) off data\<rparr>)
           else if region_b_size b = 0 \<and> region_a_start b \<ge> length data then
             (True, b\<lparr>bip_mem := mem_write (bip_mem b) 0 data, region_b_size := length data\<rparr>)
           else (False, b))"

definition get_contiguous_read_buffer :: "bip \<Rightarrow> span" where
  "get_contiguous_read_buffer b =
     (if region_a_size b > 0 then (region_a_start b, region_a_size b) else (0, 0))"

definition bip_available :: "bip \<Rightarrow> nat" where
  "bip_available b = region_a_size b + region_b_size b"

definition bip_discard :: "nat \<Rightarrow> bip \<Rightarrow> bool \<times> bip" where
  "bip_discard len b =
     (if len = 0 then (True, b)
      else if len > bip_available b then (False, b)
      else
        let b = (if len \<le> region_a_size b then
                   b\<lparr>region_a_start := region_a_start b + len, region_a_size := region_a_size b - len\<rparr>
                 else
                   let remaining_from_b = len - region_a_size b
                   in b\<lparr>region_a_start := remaining_from_b,
                        region_a_size := region_b_size b - remaining_from_b,
                        region_b_size := 0\<rparr>)
        in (True,
            if region_a_size b = 0 then
              if region_b_size b > 0 then
                b\<lparr>region_a_start := 0, region_a_size := region_b_size b, region_b_size := 0\<rparr>
              else b\<lparr>region_a_start := 0\<rparr>
            else b))"

definition get_read_spans :: "nat \<Rightarrow> nat \<Rightarrow> bip \<Rightarrow> span \<times> span" where
  "get_read_spans offset len b =
     (if offset + len > bip_available b then ((0, 0), (0, 0))
      else if offset < region_a_size b then
        let a_readable = region_a_size b - offset
        in if len \<le> a_readable then ((region_a_start b + offset, len), (0, 0))
           else ((region_a_start b + offset, a_readable), (0, len - a_readable))
      else ((offset - region_a_size b, len), (0, 0)))"

definition bip_space :: "bip \<Rightarrow> nat" where
  "bip_space b =
     (if region_b_size b > 0 then region_a_start b - region_b_size b
      else (bip_size b - (region_a_start b + region_a_size b)) + region_a_start b)"

definition bip_full :: "bip \<Rightarrow> bool" where
  "bip_full b \<longleftrightarrow> bip_space b = 0"

definition bip_empty :: "bip \<Rightarrow> bool" where
  "bip_empty b \<longleftrightarrow> bip_available b = 0"

definition bip_clear :: "bip \<Rightarrow> bip" where
  "bip_clear b = b\<lparr>region_a_start := 0, region_a_size := 0, region_b_size := 0\<rparr>"

text \<open>\<open>peek(data, offset, length)\<close>: \<open>None\<close> for \<open>false\<close>, else the bytes copied to \<open>data\<close>.\<close>

definition bip_peek :: "nat \<Rightarrow> nat \<Rightarrow> bip \<Rightarrow> bytes option" where
  "bip_peek offset len b =
     (if offset + len > bip_available b then None
      else if offset < region_a_size b then
        let read_from_a = min len (region_a_size b - offset);
            d = mem_read (bip_mem b) (region_a_start b + offset) read_from_a
        in Some (if read_from_a < len then d @ mem_read (bip_mem b) 0 (len - read_from_a) else d)
      else Some (mem_read (bip_mem b) (offset - region_a_size b) len))"

definition bip_read :: "nat \<Rightarrow> bip \<Rightarrow> bytes option \<times> bip" where
  "bip_read len b =
     (case bip_peek 0 len b of None \<Rightarrow> (None, b) | Some d \<Rightarrow> (Some d, snd (bip_discard len b)))"

section \<open>Well-formedness and abstraction\<close>

definition bip_inv :: "bip \<Rightarrow> bool" where
  "bip_inv b \<longleftrightarrow>
     region_a_start b + region_a_size b \<le> bip_size b \<and> region_b_size b \<le> region_a_start b \<and>
     (region_a_size b = 0 \<longrightarrow> region_a_start b = 0)"

definition bip_contents :: "bip \<Rightarrow> bytes" where
  "bip_contents b =
     mem_read (bip_mem b) (region_a_start b) (region_a_size b) @ mem_read (bip_mem b) 0 (region_b_size b)"

lemma bip_init_inv [simp]: "bip_inv (bip_init sz)"
  and bip_init_contents [simp]: "bip_contents (bip_init sz) = []"
  and bip_init_size [simp]: "bip_size (bip_init sz) = sz"
  by (simp_all add: bip_inv_def bip_init_def bip_contents_def)

lemma length_bip_contents [simp]: "bip_inv b \<Longrightarrow> length (bip_contents b) = bip_available b"
  by (simp add: bip_inv_def bip_contents_def bip_available_def)

lemma bip_available_le: "bip_inv b \<Longrightarrow> bip_available b \<le> bip_size b"
  by (simp add: bip_inv_def bip_available_def)

lemma bip_clear_inv [simp]: "bip_inv (bip_clear b)"
  and bip_clear_contents [simp]: "bip_contents (bip_clear b) = []"
  by (simp_all add: bip_inv_def bip_clear_def bip_contents_def)

section \<open>Reading\<close>

lemma bip_discard_refused: "bip_available b < len \<Longrightarrow> bip_discard len b = (False, b)"
  by (simp add: bip_discard_def)

lemma bip_discard_mem [simp]: "bip_mem (snd (bip_discard len b)) = bip_mem b"
  by (simp add: bip_discard_def Let_def)

lemma bip_discard_inv: "bip_inv b \<Longrightarrow> bip_inv (snd (bip_discard len b))"
  by (auto simp: bip_discard_def bip_inv_def bip_available_def Let_def)

lemma bip_discard_ok: "len \<le> bip_available b \<Longrightarrow> fst (bip_discard len b)"
  by (simp add: bip_discard_def Let_def)

lemma bip_discard_available:
  "len \<le> bip_available b \<Longrightarrow> bip_available (snd (bip_discard len b)) = bip_available b - len"
  by (auto simp: bip_discard_def bip_available_def Let_def)

lemma bip_discard_contents:
  assumes "bip_inv b" and "len \<le> bip_available b"
  shows "bip_contents (snd (bip_discard len b)) = drop len (bip_contents b)"
proof (cases "len \<le> region_a_size b")
  case True
  then show ?thesis
    using assms by (auto simp: bip_discard_def bip_contents_def bip_available_def bip_inv_def Let_def
        drop_mem_read)
next
  case False
  then show ?thesis
    using assms by (auto simp: bip_discard_def bip_contents_def bip_available_def bip_inv_def Let_def
        mem_read_def drop_take)
qed

lemma get_contiguous_read_buffer_prefix:
  "bip_inv b \<Longrightarrow> span_bytes b (get_contiguous_read_buffer b) = take (region_a_size b) (bip_contents b)"
  by (auto simp: get_contiguous_read_buffer_def span_bytes_def bip_contents_def bip_inv_def)

lemma get_read_spans_bytes:
  assumes "bip_inv b" and "offset + len \<le> bip_available b" and "get_read_spans offset len b = (s1, s2)"
  shows "span_bytes b s1 @ span_bytes b s2 = mem_read (bip_contents b) offset len"
proof -
  consider (a) "offset + len \<le> region_a_size b" "offset < region_a_size b"
    | (ab) "offset < region_a_size b" "region_a_size b < offset + len"
    | (b) "region_a_size b \<le> offset" by linarith
  then show ?thesis
    by cases (use assms in \<open>auto simp: get_read_spans_def span_bytes_def bip_contents_def bip_inv_def
        bip_available_def mem_read_append_lists mem_read_mem_read Let_def min_absorb1 min_absorb2 add.commute
        split: if_splits\<close>)
qed

lemma get_read_spans_in_mem:
  "bip_inv b \<Longrightarrow> get_read_spans offset len b = (s1, s2) \<Longrightarrow>
     fst s1 + snd s1 \<le> bip_size b \<and> fst s2 + snd s2 \<le> bip_size b"
  by (auto simp: get_read_spans_def bip_inv_def bip_available_def Let_def split: if_splits)

lemma get_read_spans_length:
  "offset + len \<le> bip_available b \<Longrightarrow> get_read_spans offset len b = (s1, s2) \<Longrightarrow> snd s1 + snd s2 = len"
  by (auto simp: get_read_spans_def Let_def split: if_splits)

lemma length_span_bytes [simp]:
  "fst sp + snd sp \<le> bip_size b \<Longrightarrow> length (span_bytes b sp) = snd sp"
  by (simp add: span_bytes_def)

lemma bip_peek_contents:
  assumes "bip_inv b"
  shows "bip_peek offset len b =
    (if offset + len \<le> bip_available b then Some (mem_read (bip_contents b) offset len) else None)"
proof -
  obtain s1 s2 where sp: "get_read_spans offset len b = (s1, s2)"
    by (cases "get_read_spans offset len b")
  have "bip_peek offset len b = Some (span_bytes b s1 @ span_bytes b s2)"
    if "offset + len \<le> bip_available b"
    using that sp by (auto simp: bip_peek_def get_read_spans_def span_bytes_def Let_def min_def split: if_splits)
  then show ?thesis
    using get_read_spans_bytes [OF assms _ sp] by (auto simp: bip_peek_def)
qed

lemma bip_read_contents:
  assumes "bip_inv b"
  shows "bip_read len b =
    (if len \<le> bip_available b then (Some (take len (bip_contents b)), snd (bip_discard len b)) else (None, b))"
  by (simp add: bip_read_def bip_peek_contents [OF assms] mem_read_start)

section \<open>Writing\<close>

text \<open>A write to free memory does not touch what is still to be read.\<close>

lemma bip_write_free_contents:
  assumes "bip_inv b" and "get_write_buffer b = (off, n)" and "length xs \<le> n"
  shows "bip_contents (b\<lparr>bip_mem := mem_write (bip_mem b) off xs\<rparr>) = bip_contents b"
    and "off + n \<le> bip_size b"
proof -
  show "off + n \<le> bip_size b"
    using assms(1,2) by (auto simp: get_write_buffer_def bip_inv_def Let_def split: if_splits)
  show "bip_contents (b\<lparr>bip_mem := mem_write (bip_mem b) off xs\<rparr>) = bip_contents b"
    using assms by (auto simp: get_write_buffer_def bip_inv_def bip_contents_def Let_def mem_simps
        split: if_splits)
qed

text \<open>The direct-memory path: bytes stored into the span, then committed.\<close>

lemma advance_write_index_contents:
  assumes "bip_inv b" and "get_write_buffer b = (off, n)" and "length xs \<le> n"
    and "advance_write_index (length xs) (b\<lparr>bip_mem := mem_write (bip_mem b) off xs\<rparr>) = (ok, b')"
  shows "ok" and "bip_inv b'" and "bip_contents b' = bip_contents b @ xs" and "bip_size b' = bip_size b"
proof -
  have mem: "off + n \<le> bip_size b" using bip_write_free_contents [OF assms(1-3)] by blast
  then have "off + length xs \<le> bip_size b" using assms(3) by simp
  with assms mem show "ok" "bip_inv b'" "bip_size b' = bip_size b"
    by (auto simp: advance_write_index_def get_write_buffer_def bip_inv_def Let_def split: if_splits)
  show "bip_contents b' = bip_contents b @ xs"
    using assms mem mem_read_extend_write [of "region_a_start b" "region_a_size b" xs "bip_mem b"]
      mem_read_extend_write [of 0 "region_b_size b" xs "bip_mem b"]
      mem_read_extend_write [of 0 "region_a_size b" xs "bip_mem b"]
    by (auto simp: advance_write_index_def get_write_buffer_def bip_inv_def bip_contents_def Let_def
        mem_simps split: if_splits)
qed

text \<open>Whether \<open>len\<close> bytes find room in one piece.\<close>

definition bip_fits :: "nat \<Rightarrow> bip \<Rightarrow> bool" where
  "bip_fits len b \<longleftrightarrow>
     len = 0 \<or>
     (if region_b_size b > 0 then len \<le> region_a_start b - region_b_size b
      else len \<le> bip_size b - (region_a_start b + region_a_size b) \<or> len \<le> region_a_start b)"

lemma bip_write_refused: "\<not> bip_fits (length xs) b \<Longrightarrow> bip_write xs b = (False, b)"
  by (auto simp: bip_write_def bip_fits_def get_write_buffer_def Let_def split: if_splits prod.splits)

lemma bip_write_accepted:
  assumes inv: "bip_inv b" and fits: "bip_fits (length xs) b" and w: "bip_write xs b = (ok, b')"
  shows "ok \<and> bip_inv b' \<and> bip_contents b' = bip_contents b @ xs \<and> bip_size b' = bip_size b"
proof (cases "xs = []")
  case True
  then show ?thesis using w inv by (simp add: bip_write_def)
next
  case False
  obtain off n where g: "get_write_buffer b = (off, n)" by fastforce
  show ?thesis
  proof (cases "length xs \<le> n")
    case True
    with w g False have "advance_write_index (length xs) (b\<lparr>bip_mem := mem_write (bip_mem b) off xs\<rparr>) = (ok, b')"
      by (simp add: bip_write_def)
    from advance_write_index_contents [OF inv g True this] show ?thesis by simp
  next
    case wrap: False
    have b0: "region_b_size b = 0" and room: "length xs \<le> region_a_start b"
      using fits wrap g False by (auto simp: bip_fits_def get_write_buffer_def Let_def split: if_splits)
    with w g False wrap have "ok" and b': "b' = b\<lparr>bip_mem := mem_write (bip_mem b) 0 xs, region_b_size := length xs\<rparr>"
      by (auto simp: bip_write_def)
    moreover have "length xs \<le> bip_size b" using room inv by (simp add: bip_inv_def)
    ultimately show ?thesis using inv room b0
      by (auto simp: bip_inv_def bip_contents_def mem_simps)
  qed
qed

definition bip_pop :: "nat \<Rightarrow> bip \<Rightarrow> bytes \<times> bip" where
  "bip_pop len b = (case bip_read len b of (None, b') \<Rightarrow> ([], b') | (Some d, b') \<Rightarrow> (d, b'))"

interpretation bip: bounded_fifo bip_contents bip_inv bip_write bip_pop bip_size
proof (unfold_locales, goal_cases)
  case (1 q xs q')
  then show ?case using bip_write_accepted bip_write_refused by (cases "bip_fits (length xs) q") fastforce+
next
  case (2 q xs q')
  then show ?case using bip_write_accepted bip_write_refused by (cases "bip_fits (length xs) q") fastforce+
next
  case (3 q n ys q')
  then show ?case
    by (auto simp: bip_pop_def bip_read_contents bip_discard_inv bip_discard_contents split: if_splits)
next
  case (4 q)
  then show ?case by (simp add: bip_available_le)
next
  case (5 q xs ok q')
  then show ?case using bip_write_accepted bip_write_refused by (cases "bip_fits (length xs) q") fastforce+
next
  case (6 q n ys q')
  then show ?case by (auto simp: bip_pop_def bip_read_def split: option.splits)
qed

end
