(* ===== verification/Crc.thy ===== *)
theory Crc
  imports Prelude
begin

text \<open>
  The checksum library \<open>cppcrc.h\<close> (namespace \<open>crc_utils\<close>) and the CRCs \<open>Def.hpp\<close> builds from it:
  bit reversal, the 256-entry lookup table, the two table-driven loops (reflected and not), \<open>calc\<close>
  with its prior-value argument, and the instances \<open>ProtocolCRC8\<close>, \<open>ProtocolCRC16\<close>, \<open>NoopCRC\<close>.
  The lemmas show the table-driven reflected loop to be the bit-serial shift register, that a
  checksum may be computed in segments, and that it detects every error burst of its own width.
\<close>

section \<open>Bit reversal\<close>

definition reverse_lookup :: "u8 list" where
  "reverse_lookup = [0x0, 0x8, 0x4, 0xc, 0x2, 0xa, 0x6, 0xe, 0x1, 0x9, 0x5, 0xd, 0x3, 0xb, 0x7, 0xf]"

definition reverse_bits8 :: "u8 \<Rightarrow> u8" where
  "reverse_bits8 x =
     push_bit 4 (reverse_lookup ! unat (x AND 0x0F)) OR reverse_lookup ! unat (drop_bit 4 x)"

definition reverse_bits16 :: "u16 \<Rightarrow> u16" where
  "reverse_bits16 x =
     push_bit 8 (ucast (reverse_bits8 (ucast x))) OR ucast (reverse_bits8 (ucast (drop_bit 8 x)))"

definition reverse_bits32 :: "u32 \<Rightarrow> u32" where
  "reverse_bits32 x =
     push_bit 16 (ucast (reverse_bits16 (ucast x))) OR ucast (reverse_bits16 (ucast (drop_bit 16 x)))"

definition reverse_bits64 :: "u64 \<Rightarrow> u64" where
  "reverse_bits64 x =
     push_bit 32 (ucast (reverse_bits32 (ucast x))) OR ucast (reverse_bits32 (ucast (drop_bit 32 x)))"

lemma reverse_lookup_all:
  "list_all (\<lambda>n. reverse_lookup ! n = drop_bit 4 (word_reverse (of_nat n))) [0..<16]"
  by code_simp

lemma reverse_lookup_eq:
  assumes "unat n < 16"
  shows "reverse_lookup ! unat n = drop_bit 4 (word_reverse n)"
proof -
  have "unat n \<in> set [0..<16]" using assms by simp
  with reverse_lookup_all have "reverse_lookup ! unat n = drop_bit 4 (word_reverse (of_nat (unat n)))"
    unfolding list_all_iff by (rule bspec)
  then show ?thesis by simp
qed

lemma nibble_less: "unat (x AND mask 4 :: u8) < 16" "unat (drop_bit 4 x :: u8) < 16"
proof -
  show "unat (x AND mask 4) < 16" by (simp add: and_mask_mod)
  have "unat x < 256" using unsigned_less [of x, where 'a = nat] by simp
  then show "unat (drop_bit 4 x) < 16" by (simp only: unat_drop_bit_eq) (simp add: drop_bit_eq_div)
qed

lemma reverse_bits8_eq: "reverse_bits8 x = word_reverse x"
proof (rule bit_word_eqI)
  fix i
  assume i: "i < LENGTH(8)"
  have m: "x AND 0x0F = x AND mask 4" by (simp add: mask_eq_exp_minus_1)
  show "bit (reverse_bits8 x) i = bit (word_reverse x) i"
  proof (cases "i < 4")
    case True
    then have "4 + (3 - i) = 7 - i" by simp
    with i True show ?thesis
      by (simp add: reverse_bits8_def m reverse_lookup_eq nibble_less bit_or_iff bit_push_bit_iff
          bit_word_reverse_iff bit_drop_bit_eq)
  next
    case False
    with i show ?thesis
      by (auto simp: reverse_bits8_def m reverse_lookup_eq nibble_less bit_or_iff bit_push_bit_iff
          bit_word_reverse_iff bit_drop_bit_eq bit_and_iff bit_mask_iff dest: bit_imp_le_length)
  qed
qed

text \<open>Reversing the halves and swapping them reverses the whole.\<close>

lemma word_reverse_halves:
  fixes x :: "'a::len word"
  assumes "LENGTH('a) = 2 * LENGTH('b::len)"
  shows "push_bit LENGTH('b) (ucast (word_reverse (ucast x :: 'b word)))
      OR ucast (word_reverse (ucast (drop_bit LENGTH('b) x) :: 'b word)) = word_reverse x" (is "?swap = _")
proof (rule bit_word_eqI)
  fix i
  assume i: "i < LENGTH('a)"
  show "bit ?swap i = bit (word_reverse x) i"
  proof (cases "i < LENGTH('b)")
    case True
    then have "LENGTH('b) + (LENGTH('b) - Suc i) = LENGTH('a) - Suc i" using assms by simp
    moreover have "LENGTH('b) - Suc i < 2 * LENGTH('b)" using True by linarith
    ultimately show ?thesis using True i assms
      by (simp add: bit_or_iff bit_push_bit_iff bit_word_ucast_iff bit_word_reverse_iff bit_drop_bit_eq)
  next
    case False
    then have "LENGTH('b) - Suc (i - LENGTH('b)) = LENGTH('a) - Suc i" using assms by simp
    with False i assms show ?thesis
      by (auto simp: bit_or_iff bit_push_bit_iff bit_word_ucast_iff bit_word_reverse_iff bit_drop_bit_eq)
  qed
qed

lemma reverse_bits16_eq: "reverse_bits16 x = word_reverse x"
  using word_reverse_halves [of x, where 'b = 8] by (simp add: reverse_bits16_def reverse_bits8_eq)

lemma reverse_bits32_eq: "reverse_bits32 x = word_reverse x"
  using word_reverse_halves [of x, where 'b = 16] by (simp add: reverse_bits32_def reverse_bits16_eq)

lemma reverse_bits64_eq: "reverse_bits64 x = word_reverse x"
  using word_reverse_halves [of x, where 'b = 32] by (simp add: reverse_bits64_def reverse_bits32_eq)

lemmas reverse_bits_eq = reverse_bits8_eq reverse_bits16_eq reverse_bits32_eq reverse_bits64_eq

section \<open>The table and the loops\<close>

text \<open>
  The template parameters of \<open>crc_utils::crc\<close>, with the overload of \<open>reverse_bits\<close> that \<open>out_t\<close>
  selects.
\<close>

record 'out_t crc_params =
  crc_poly :: 'out_t
  crc_init :: 'out_t
  crc_refl_in :: bool
  crc_refl_out :: bool
  crc_x_or_out :: 'out_t
  crc_reverse :: "'out_t \<Rightarrow> 'out_t"

fun crc_table_rounds :: "'w::len word \<Rightarrow> nat \<Rightarrow> 'w word \<Rightarrow> 'w word" where
  "crc_table_rounds poly 0 r = r"
| "crc_table_rounds poly (Suc n) r =
     crc_table_rounds poly n
       (if r AND push_bit (LENGTH('w) - 1) 1 \<noteq> 0 then push_bit 1 r XOR poly else push_bit 1 r)"

definition get_crc_table_value_at_index :: "'w::len word crc_params \<Rightarrow> nat \<Rightarrow> 'w word" where
  "get_crc_table_value_at_index p index =
     (let remainder = (if crc_refl_in p then drop_bit (LENGTH('w) - 8) (crc_reverse p (of_nat index))
                       else of_nat index);
          remainder = crc_table_rounds (crc_poly p) LENGTH('w) remainder
      in if crc_refl_in p then crc_reverse p remainder else remainder)"

definition crc_lookup_table :: "'w::len word crc_params \<Rightarrow> 'w word list" where
  "crc_lookup_table p = map (get_crc_table_value_at_index p) [0..<256]"

fun crc_loop_refl :: "'w::len word crc_params \<Rightarrow> 'w word \<Rightarrow> bytes \<Rightarrow> 'w word" where
  "crc_loop_refl p crc [] = crc"
| "crc_loop_refl p crc (b # bs) =
     crc_loop_refl p (crc_lookup_table p ! unat (b XOR ucast crc) XOR drop_bit 8 crc) bs"

fun crc_loop_plain :: "'w::len word crc_params \<Rightarrow> 'w word \<Rightarrow> bytes \<Rightarrow> 'w word" where
  "crc_loop_plain p crc [] = crc"
| "crc_loop_plain p crc (b # bs) =
     crc_loop_plain p
       (crc_lookup_table p ! unat (b XOR ucast (drop_bit (LENGTH('w) - 8) crc)) XOR push_bit 8 crc) bs"

definition calculate_crc :: "'w::len word crc_params \<Rightarrow> 'w word \<Rightarrow> bytes \<Rightarrow> 'w word" where
  "calculate_crc p crc bs =
     (if crc_refl_in p then
        let c = crc_loop_refl p (crc_reverse p crc) bs
        in (if crc_refl_out p \<noteq> crc_refl_in p then crc_reverse p c else c) XOR crc_x_or_out p
      else
        let c = crc_loop_plain p crc bs
        in (if crc_refl_out p then crc_reverse p c else c) XOR crc_x_or_out p)"

definition null_crc :: "'w::len word crc_params \<Rightarrow> 'w word" where
  "null_crc p = (if crc_refl_out p then crc_reverse p (crc_init p) else crc_init p) XOR crc_x_or_out p"

text \<open>\<open>calc(bytes, num_bytes, prior_crc_value)\<close>; the default prior value is \<open>null_crc\<close>.\<close>

definition crc_calc :: "'w::len word crc_params \<Rightarrow> bytes \<Rightarrow> 'w word \<Rightarrow> 'w word" where
  "crc_calc p bs prior =
     (let prior = (if crc_x_or_out p \<noteq> 0 then prior XOR crc_x_or_out p else prior);
          prior = (if crc_refl_out p then crc_reverse p prior else prior)
      in calculate_crc p prior bs)"

text \<open>The instances of \<open>Def.hpp\<close>.\<close>

definition ProtocolCRC8 :: "u8 crc_params" where
  "ProtocolCRC8 = \<lparr>crc_poly = 0x31, crc_init = 0xFF, crc_refl_in = True, crc_refl_out = True,
     crc_x_or_out = 0x00, crc_reverse = reverse_bits8\<rparr>"

definition ProtocolCRC16 :: "u16 crc_params" where
  "ProtocolCRC16 = \<lparr>crc_poly = 0x1021, crc_init = 0xFFFF, crc_refl_in = True, crc_refl_out = True,
     crc_x_or_out = 0x0000, crc_reverse = reverse_bits16\<rparr>"

definition NoopCRC_calc :: "bytes \<Rightarrow> u16 \<Rightarrow> u16" where
  "NoopCRC_calc bs prior = 0"

section \<open>The bit-serial shift register\<close>

text \<open>
  The reference: a right-shifting register that subtracts the reversed polynomial \<open>rp\<close> when a one
  falls out. The table-driven loop is eight of these shifts per byte.
\<close>

definition crc_shift :: "'w::len word \<Rightarrow> 'w word \<Rightarrow> 'w word" where
  "crc_shift rp c = (if bit c 0 then drop_bit 1 c XOR rp else drop_bit 1 c)"

definition crc_serial_byte :: "'w::len word \<Rightarrow> 'w word \<Rightarrow> u8 \<Rightarrow> 'w word" where
  "crc_serial_byte rp c b = (crc_shift rp ^^ 8) (c XOR ucast b)"

definition crc_serial :: "'w::len word \<Rightarrow> 'w word \<Rightarrow> bytes \<Rightarrow> 'w word" where
  "crc_serial rp c bs = foldl (crc_serial_byte rp) c bs"

lemma crc_shift_xor: "crc_shift rp (x XOR y) = crc_shift rp x XOR crc_shift rp y"
  by (rule bit_word_eqI) (auto simp: crc_shift_def bit_xor_iff bit_drop_bit_eq)

lemma crc_shifts_xor: "(crc_shift rp ^^ n) (x XOR y) = (crc_shift rp ^^ n) x XOR (crc_shift rp ^^ n) y"
  by (induction n) (simp_all add: crc_shift_xor)

lemma crc_shifts_drop:
  "(\<And>i. i < n \<Longrightarrow> \<not> bit c i) \<Longrightarrow> (crc_shift rp ^^ n) c = drop_bit n c"
proof (induction n)
  case 0
  then show ?case by simp
next
  case (Suc n)
  then have "(crc_shift rp ^^ n) c = drop_bit n c" and "\<not> bit c n" by simp_all
  then have "crc_shift rp ((crc_shift rp ^^ n) c) = drop_bit 1 (drop_bit n c)"
    by (simp only: crc_shift_def bit_drop_bit_eq) simp
  then show ?case by (simp add: drop_bit_drop_bit)
qed

lemma word_reverse_xor: "word_reverse (x XOR y) = word_reverse x XOR word_reverse y"
  by (rule bit_word_eqI) (simp add: bit_word_reverse_iff bit_xor_iff)

lemma word_reverse_push1: "word_reverse (push_bit 1 r) = drop_bit 1 (word_reverse r)"
proof (rule bit_word_eqI)
  fix i
  assume "i < LENGTH('a)"
  then show "bit (word_reverse (push_bit 1 r)) i = bit (drop_bit 1 (word_reverse r)) i"
    by (auto simp only: bit_word_reverse_iff bit_push_bit_iff bit_drop_bit_eq o_apply possible_bit_word)
      (auto dest: bit_imp_le_length)
qed

lemma top_bit_mask:
  "(r AND push_bit (LENGTH('w) - 1) 1 \<noteq> 0) = bit (word_reverse (r :: 'w::len word)) 0"
proof -
  have "(r AND push_bit (LENGTH('w) - 1) 1 \<noteq> 0) = bit r (LENGTH('w) - 1)"
    using exp_eq_0_imp_not_bit by (auto simp: and_exp_eq_0_iff_not_bit)
  then show ?thesis by (simp add: bit_word_reverse_iff)
qed

lemma crc_table_rounds_reverse:
  "word_reverse (crc_table_rounds poly n r) = (crc_shift (word_reverse poly) ^^ n) (word_reverse r)"
proof (induction n arbitrary: r)
  case 0
  then show ?case by simp
next
  case (Suc n)
  have "word_reverse (if r AND push_bit (LENGTH('a) - 1) 1 \<noteq> 0 then push_bit 1 r XOR poly else push_bit 1 r)
      = crc_shift (word_reverse poly) (word_reverse r)"
    by (simp only: top_bit_mask crc_shift_def word_reverse_xor word_reverse_push1 if_distrib [of word_reverse])
  then show ?case by (simp only: crc_table_rounds.simps Suc.IH funpow_Suc_right o_apply)
qed

text \<open>A parameter set with reflected input and output, whose \<open>crc_reverse\<close> reverses the bits.\<close>

definition crc_reflected :: "'w::len word crc_params \<Rightarrow> bool" where
  "crc_reflected p \<longleftrightarrow>
     crc_refl_in p \<and> crc_refl_out p \<and> crc_reverse p = word_reverse \<and> 8 \<le> LENGTH('w)"

lemma ProtocolCRC8_reflected: "crc_reflected ProtocolCRC8"
  by (simp add: crc_reflected_def ProtocolCRC8_def fun_eq_iff reverse_bits8_eq)

lemma ProtocolCRC16_reflected: "crc_reflected ProtocolCRC16"
  by (simp add: crc_reflected_def ProtocolCRC16_def fun_eq_iff reverse_bits16_eq)

lemma crc_table_value:
  assumes "crc_reflected (p :: 'w::len word crc_params)"
  shows "get_crc_table_value_at_index p (unat b) = (crc_shift (word_reverse (crc_poly p)) ^^ 8) (ucast (b :: u8))"
proof -
  let ?s = "crc_shift (word_reverse (crc_poly p))"
  let ?w = "ucast b :: 'w word"
  have L: "8 \<le> LENGTH('w)" using assms by (simp add: crc_reflected_def)
  have rev: "word_reverse (drop_bit (LENGTH('w) - 8) (word_reverse ?w)) = push_bit (LENGTH('w) - 8) ?w"
  proof (rule bit_word_eqI)
    fix i assume i: "i < LENGTH('w)"
    show "bit (word_reverse (drop_bit (LENGTH('w) - 8) (word_reverse ?w))) i
        = bit (push_bit (LENGTH('w) - 8) ?w) i"
    proof (cases "LENGTH('w) - 8 \<le> i")
      case True
      then have "LENGTH('w) - Suc (LENGTH('w) - 8 + (LENGTH('w) - Suc i)) = i - (LENGTH('w) - 8)"
        and "LENGTH('w) - 8 + (LENGTH('w) - Suc i) < LENGTH('w)"
        using i L by linarith+
      then show ?thesis using i L True
        by (simp add: bit_word_reverse_iff bit_drop_bit_eq bit_push_bit_iff)
    next
      case False
      then have "\<not> LENGTH('w) - 8 + (LENGTH('w) - Suc i) < LENGTH('w)" using i L by linarith
      then show ?thesis using i L False
        by (simp add: bit_word_reverse_iff bit_drop_bit_eq bit_push_bit_iff)
    qed
  qed
  have "(?s ^^ (LENGTH('w) - 8)) (push_bit (LENGTH('w) - 8) ?w) = drop_bit (LENGTH('w) - 8) (push_bit (LENGTH('w) - 8) ?w)"
    by (rule crc_shifts_drop) (simp add: bit_push_bit_iff)
  also have "\<dots> = ?w"
    by (rule bit_word_eqI) (use L in \<open>auto simp: bit_drop_bit_eq bit_push_bit_iff bit_word_ucast_iff dest: bit_imp_le_length\<close>)
  finally have "(?s ^^ (8 + (LENGTH('w) - 8))) (push_bit (LENGTH('w) - 8) ?w) = (?s ^^ 8) ?w"
    by (simp only: funpow_add o_apply)
  then have "(?s ^^ LENGTH('w)) (push_bit (LENGTH('w) - 8) ?w) = (?s ^^ 8) ?w" using L by simp
  then show ?thesis using assms
    by (simp add: get_crc_table_value_at_index_def crc_reflected_def crc_table_rounds_reverse rev)
qed

lemma crc_lookup_step:
  assumes "crc_reflected (p :: 'w::len word crc_params)"
  shows "crc_lookup_table p ! unat (b XOR ucast crc) XOR drop_bit 8 crc
    = crc_serial_byte (word_reverse (crc_poly p)) crc b"
proof -
  let ?s = "crc_shift (word_reverse (crc_poly p))"
  let ?lo = "ucast (b XOR ucast crc) :: 'w word"
  let ?hi = "crc AND NOT (mask 8)"
  have L: "8 \<le> LENGTH('w)" using assms by (simp add: crc_reflected_def)
  have "unat (b XOR ucast crc) < 256" using unsigned_less [of "b XOR ucast crc", where 'a = nat] by simp
  then have tab: "crc_lookup_table p ! unat (b XOR ucast crc) = (?s ^^ 8) ?lo"
    by (simp add: crc_lookup_table_def crc_table_value [OF assms])
  have "(?s ^^ 8) ?hi = drop_bit 8 ?hi"
    by (rule crc_shifts_drop) (simp add: bit_and_iff bit_not_iff bit_mask_iff)
  also have "\<dots> = drop_bit 8 crc"
    by (rule bit_word_eqI) (auto simp: bit_drop_bit_eq bit_and_iff bit_not_iff bit_mask_iff dest: bit_imp_le_length)
  finally have hi: "(?s ^^ 8) ?hi = drop_bit 8 crc" .
  have "crc XOR ucast b = ?lo XOR ?hi"
    by (rule bit_word_eqI) (use L in \<open>auto simp: bit_xor_iff bit_and_iff bit_not_iff bit_mask_iff bit_word_ucast_iff dest: bit_imp_le_length\<close>)
  then show ?thesis by (simp only: crc_serial_byte_def crc_shifts_xor tab hi)
qed

lemma crc_loop_refl_serial:
  "crc_reflected p \<Longrightarrow> crc_loop_refl p crc bs = crc_serial (word_reverse (crc_poly p)) crc bs"
  by (induction bs arbitrary: crc) (simp_all add: crc_serial_def crc_lookup_step)

lemma crc_calc_serial:
  assumes "crc_reflected p"
  shows "crc_calc p bs prior
    = crc_serial (word_reverse (crc_poly p)) (prior XOR crc_x_or_out p) bs XOR crc_x_or_out p"
  using assms crc_loop_refl_serial [OF assms]
  by (auto simp: crc_calc_def calculate_crc_def crc_reflected_def Let_def)

section \<open>Segments and burst errors\<close>

lemma crc_serial_append: "crc_serial rp c (xs @ ys) = crc_serial rp (crc_serial rp c xs) ys"
  by (simp add: crc_serial_def)

lemma crc_serial_Cons: "crc_serial rp c (b # bs) = crc_serial rp (crc_serial_byte rp c b) bs"
  by (simp add: crc_serial_def)

lemma inj_crc_shift:
  fixes rp :: "'w::len word"
  assumes "bit rp (LENGTH('w) - 1)"
  shows "inj (crc_shift rp)"
proof (rule injI)
  fix x y
  assume eq: "crc_shift rp x = crc_shift rp y"
  have top: "bit (crc_shift rp z) (LENGTH('w) - 1) = bit z 0" for z
    using assms by (auto simp: crc_shift_def bit_xor_iff bit_drop_bit_eq dest: bit_imp_le_length)
  have b0: "bit x 0 = bit y 0" using top [of x] top [of y] eq by simp
  with eq have shifted: "drop_bit 1 x = drop_bit 1 y"
    by (cases "bit y 0") (simp_all only: crc_shift_def word_xor_right_cancel if_True if_False)
  show "x = y"
  proof (rule bit_word_eqI)
    fix i
    show "bit x i = bit y i"
    proof (cases i)
      case 0
      then show ?thesis using b0 by simp
    next
      case (Suc j)
      then show ?thesis using arg_cong [OF shifted, of "\<lambda>w. bit w j"] by (simp add: bit_drop_bit_eq)
    qed
  qed
qed

lemma inj_crc_shifts:
  fixes rp :: "'w::len word"
  shows "bit rp (LENGTH('w) - 1) \<Longrightarrow> inj (crc_shift rp ^^ n)"
proof (induction n)
  case (Suc n)
  then show ?case unfolding funpow.simps by (blast intro: inj_compose inj_crc_shift)
qed simp

lemma inj_crc_serial:
  fixes rp :: "'w::len word"
  assumes "bit rp (LENGTH('w) - 1)"
  shows "crc_serial rp c bs = crc_serial rp c' bs \<longleftrightarrow> c = c'"
proof (induction bs arbitrary: c c')
  case Nil
  then show ?case by (simp add: crc_serial_def)
next
  case (Cons b bs)
  have "crc_serial_byte rp c b = crc_serial_byte rp c' b \<longleftrightarrow> c XOR ucast b = c' XOR ucast b"
    unfolding crc_serial_byte_def using inj_crc_shifts [OF assms, of 8] by (simp add: inj_eq)
  also have "\<dots> \<longleftrightarrow> c = c'"
    by simp
  finally show ?case by (simp add: crc_serial_Cons Cons.IH)
qed

text \<open>A block no longer than the register is shifted in as one little-endian number.\<close>

lemma crc_serial_block:
  "8 * length bs \<le> LENGTH('w) \<Longrightarrow>
     crc_serial rp (c :: 'w::len word) bs = (crc_shift rp ^^ (8 * length bs)) (c XOR le_val bs)"
proof (induction bs arbitrary: c)
  case Nil
  then show ?case by (simp add: crc_serial_def)
next
  case (Cons b bs)
  let ?n = "8 * length bs"
  let ?v = "le_val bs :: 'w word"
  have "(crc_shift rp ^^ 8) (push_bit 8 ?v) = drop_bit 8 (push_bit 8 ?v)"
    by (rule crc_shifts_drop) (simp add: bit_push_bit_iff)
  also have "\<dots> = ?v"
  proof (rule bit_word_eqI)
    fix i
    have "i div 8 < length bs \<Longrightarrow> i + 8 < LENGTH('w)" using Cons.prems by simp
    then show "bit (drop_bit 8 (push_bit 8 ?v)) i = bit ?v i"
      by (auto simp: bit_drop_bit_eq bit_push_bit_iff bit_le_val)
  qed
  finally have v: "(crc_shift rp ^^ 8) (push_bit 8 ?v) = ?v" .
  have split: "c XOR (ucast b OR push_bit 8 ?v) = (c XOR ucast b) XOR push_bit 8 ?v"
    by (rule bit_word_eqI) (auto simp: bit_xor_iff bit_or_iff bit_push_bit_iff bit_word_ucast_iff dest: bit_imp_le_length)
  have "crc_serial rp c (b # bs) = (crc_shift rp ^^ ?n) (crc_serial_byte rp c b XOR ?v)"
    using Cons by (simp add: crc_serial_Cons)
  also have "\<dots> = (crc_shift rp ^^ ?n) ((crc_shift rp ^^ 8) (c XOR le_val (b # bs)))"
    by (simp only: crc_serial_byte_def le_val.simps split crc_shifts_xor v)
  also have "\<dots> = (crc_shift rp ^^ (8 * length (b # bs))) (c XOR le_val (b # bs))"
    by (simp add: funpow_add [symmetric, THEN fun_cong, unfolded o_apply] add.commute)
  finally show ?case .
qed

lemma le_val_inj:
  assumes "length xs = length ys" and "8 * length xs \<le> LENGTH('w::len)"
    and "(le_val xs :: 'w word) = le_val ys"
  shows "xs = ys"
  using assms le_bytes_le_val [of xs "length xs", where 'a = 'w] le_bytes_le_val [of ys "length xs", where 'a = 'w]
  by simp

lemma crc_serial_burst:
  fixes rp :: "'w::len word"
  assumes "bit rp (LENGTH('w) - 1)" and "length d = length d'" and "8 * length d \<le> LENGTH('w)" and "d \<noteq> d'"
  shows "crc_serial rp c (xs @ d @ ys) \<noteq> crc_serial rp c (xs @ d' @ ys)"
proof
  assume "crc_serial rp c (xs @ d @ ys) = crc_serial rp c (xs @ d' @ ys)"
  then have "crc_serial rp (crc_serial rp c xs) d = crc_serial rp (crc_serial rp c xs) d'"
    using assms(1) by (simp only: crc_serial_append inj_crc_serial)
  then have "crc_serial rp c xs XOR (le_val d :: 'w word) = crc_serial rp c xs XOR le_val d'"
    using assms inj_crc_shifts [OF assms(1), of "8 * length d"] by (simp add: crc_serial_block inj_eq)
  then have "(le_val d :: 'w word) = le_val d'" by simp
  with assms show False using le_val_inj by blast
qed

lemma ProtocolCRC8_top: "bit (word_reverse (crc_poly ProtocolCRC8)) (LENGTH(8) - 1)"
  by (simp add: ProtocolCRC8_def bit_word_reverse_iff)

lemma ProtocolCRC16_top: "bit (word_reverse (crc_poly ProtocolCRC16)) (LENGTH(16) - 1)"
  by (simp add: ProtocolCRC16_def bit_word_reverse_iff)

lemma crc_calc_append:
  "crc_reflected p \<Longrightarrow> crc_calc p (xs @ ys) c = crc_calc p ys (crc_calc p xs c)"
  by (simp add: crc_calc_serial crc_serial_append xor.assoc)

lemma crc_calc_burst:
  fixes p :: "'w::len word crc_params"
  assumes "crc_reflected p" and "bit (word_reverse (crc_poly p)) (LENGTH('w) - 1)"
    and "length d = length d'" and "8 * length d \<le> LENGTH('w)" and "d \<noteq> d'"
  shows "crc_calc p (xs @ d @ ys) c \<noteq> crc_calc p (xs @ d' @ ys) c"
  using crc_serial_burst [OF assms(2-5)] by (simp add: crc_calc_serial [OF assms(1)])

text \<open>
  A message followed by its checksum in little-endian order: the register ends in a constant, whatever
  the message, so a burst error is detected wherever it lies, the checksum included.
\<close>

definition crc_valid :: "'w::len word crc_params \<Rightarrow> 'w word \<Rightarrow> bytes \<Rightarrow> bool" where
  "crc_valid p c ys \<longleftrightarrow>
     (let n = length ys - LENGTH('w) div 8 in crc_calc p (take n ys) c = le_val (drop n ys))"

lemma crc_valid_residue:
  fixes p :: "'w::len word crc_params"
  assumes "crc_reflected p" and "bit (word_reverse (crc_poly p)) (LENGTH('w) - 1)"
    and "8 * (LENGTH('w) div 8) = LENGTH('w)" and "LENGTH('w) div 8 \<le> length ys"
  shows "crc_valid p c ys \<longleftrightarrow>
    crc_serial (word_reverse (crc_poly p)) (c XOR crc_x_or_out p) ys
      = (crc_shift (word_reverse (crc_poly p)) ^^ LENGTH('w)) (crc_x_or_out p)"
proof -
  let ?k = "LENGTH('w) div 8" and ?s = "crc_shift (word_reverse (crc_poly p))"
  let ?m = "take (length ys - ?k) ys" and ?t = "drop (length ys - ?k) ys"
  let ?c = "crc_serial (word_reverse (crc_poly p)) (c XOR crc_x_or_out p) ?m"
  have t: "8 * length ?t = LENGTH('w)" using assms(3,4) by simp
  have "crc_serial (word_reverse (crc_poly p)) (c XOR crc_x_or_out p) ys =
      crc_serial (word_reverse (crc_poly p)) ?c ?t"
    by (simp flip: crc_serial_append)
  also have "\<dots> = (?s ^^ LENGTH('w)) (?c XOR le_val ?t)"
    using crc_serial_block [of ?t "word_reverse (crc_poly p)" ?c] by (simp only: t order_refl)
  finally have "crc_serial (word_reverse (crc_poly p)) (c XOR crc_x_or_out p) ys =
      (?s ^^ LENGTH('w)) (?c XOR le_val ?t)" .
  moreover have "(?s ^^ LENGTH('w)) (?c XOR le_val ?t) = (?s ^^ LENGTH('w)) (crc_x_or_out p) \<longleftrightarrow>
      ?c XOR le_val ?t = crc_x_or_out p"
    using inj_crc_shifts [OF assms(2)] by (simp add: inj_eq)
  moreover have "a XOR b = x \<longleftrightarrow> a XOR x = b" for a b x :: "'w word"
    by (metis xor.assoc xor.commute xor_self_eq xor.right_neutral)
  ultimately show ?thesis
    by (simp add: crc_valid_def crc_calc_serial [OF assms(1)] Let_def)
qed

lemma crc_valid_burst:
  fixes p :: "'w::len word crc_params"
  assumes "crc_reflected p" and "bit (word_reverse (crc_poly p)) (LENGTH('w) - 1)"
    and "8 * (LENGTH('w) div 8) = LENGTH('w)" and "LENGTH('w) div 8 \<le> length (xs @ d @ ys)"
    and "length d = length d'" and "8 * length d \<le> LENGTH('w)" and "d \<noteq> d'" and "crc_valid p c (xs @ d @ ys)"
  shows "\<not> crc_valid p c (xs @ d' @ ys)"
proof -
  let ?r = "crc_serial (word_reverse (crc_poly p)) (c XOR crc_x_or_out p)"
  have "LENGTH('w) div 8 \<le> length (xs @ d' @ ys)" using assms(4,5) by simp
  moreover have "?r (xs @ d @ ys) \<noteq> ?r (xs @ d' @ ys)" by (rule crc_serial_burst [OF assms(2,5,6,7)])
  ultimately show ?thesis
    using assms(8) crc_valid_residue [OF assms(1-3)] assms(4) by metis
qed

end
