(* ===== verification/Packet_Traits.thy ===== *)
theory Packet_Traits
  imports Crc
begin

text \<open>
  \<open>Meta/PacketTraits.hpp\<close> and the memory layout of packets. A C++ packet type is its packed field
  layout (\<open>#pragma pack(push, 1)\<close>: no padding, alignment 1); its bytes are what \<open>memcpy\<close> moves on the
  little-endian targets. \<open>protocol\<close> is the record of a protocol's compile-time constants and
  \<open>packet_traits\<close> what a specialisation of \<open>PacketTraits<T>\<close> declares
  (\<open>pt_after_parse\<close>: whether it defines that callback).
\<close>

section \<open>Packed layouts\<close>

datatype cty =
    CU8 | CU16 | CU32 | CU64 | CF32
  | CEnum "u8 list"
  | CBits "(string \<times> nat) list"
  | CArr nat cty
  | CStruct "(string \<times> cty) list"

fun sizeof :: "cty \<Rightarrow> nat" where
  "sizeof CU8 = 1"
| "sizeof CU16 = 2"
| "sizeof CU32 = 4"
| "sizeof CU64 = 8"
| "sizeof CF32 = 4"
| "sizeof (CEnum vs) = 1"
| "sizeof (CBits fs) = 1"
| "sizeof (CArr n t) = n * sizeof t"
| "sizeof (CStruct fs) = sum_list (map (\<lambda>(f, t). sizeof t) fs)"

text \<open>Where a member starts, and its type.\<close>

fun member_at :: "string \<Rightarrow> nat \<Rightarrow> (string \<times> cty) list \<Rightarrow> (nat \<times> cty) option" where
  "member_at f off [] = None"
| "member_at f off ((g, t) # fs) = (if f = g then Some (off, t) else member_at f (off + sizeof t) fs)"

fun struct_fields :: "cty \<Rightarrow> (string \<times> cty) list" where
  "struct_fields (CStruct fs) = fs"
| "struct_fields t = []"

section \<open>Values and their bytes\<close>

text \<open>A \<open>float\<close> is its IEEE-754 bit pattern; a bit-field unit is the list of its members' values.\<close>

datatype cval =
    VU8 u8 | VU16 u16 | VU32 u32 | VU64 u64 | VF32 u32
  | VBits "nat list"
  | VArr "cval list"
  | VStruct "cval list"

fun pack_bits :: "(string \<times> nat) list \<Rightarrow> nat list \<Rightarrow> nat" where
  "pack_bits ((f, w) # fs) (v # vs) = v + 2 ^ w * pack_bits fs vs"
| "pack_bits fs vs = 0"

fun unpack_bits :: "(string \<times> nat) list \<Rightarrow> nat \<Rightarrow> nat list" where
  "unpack_bits [] n = []"
| "unpack_bits ((f, w) # fs) n = (n mod 2 ^ w) # unpack_bits fs (n div 2 ^ w)"

fun to_bytes :: "cty \<Rightarrow> cval \<Rightarrow> bytes"
  and to_bytes_fields :: "(string \<times> cty) list \<Rightarrow> cval list \<Rightarrow> bytes" where
  "to_bytes CU8 v = (case v of VU8 w \<Rightarrow> [w] | _ \<Rightarrow> [])"
| "to_bytes CU16 v = (case v of VU16 w \<Rightarrow> le_bytes 2 w | _ \<Rightarrow> [])"
| "to_bytes CU32 v = (case v of VU32 w \<Rightarrow> le_bytes 4 w | _ \<Rightarrow> [])"
| "to_bytes CU64 v = (case v of VU64 w \<Rightarrow> le_bytes 8 w | _ \<Rightarrow> [])"
| "to_bytes CF32 v = (case v of VF32 w \<Rightarrow> le_bytes 4 w | _ \<Rightarrow> [])"
| "to_bytes (CEnum es) v = (case v of VU8 w \<Rightarrow> [w] | _ \<Rightarrow> [])"
| "to_bytes (CBits fs) v = (case v of VBits vs \<Rightarrow> [of_nat (pack_bits fs vs)] | _ \<Rightarrow> [])"
| "to_bytes (CArr n t) v = (case v of VArr vs \<Rightarrow> concat (map (to_bytes t) vs) | _ \<Rightarrow> [])"
| "to_bytes (CStruct fs) v = (case v of VStruct vs \<Rightarrow> to_bytes_fields fs vs | _ \<Rightarrow> [])"
| "to_bytes_fields ((f, t) # fs) (v # vs) = to_bytes t v @ to_bytes_fields fs vs"
| "to_bytes_fields [] vs = []"
| "to_bytes_fields fs [] = []"

fun of_bytes :: "cty \<Rightarrow> bytes \<Rightarrow> cval"
  and of_bytes_fields :: "(string \<times> cty) list \<Rightarrow> bytes \<Rightarrow> cval list"
  and of_bytes_array :: "nat \<Rightarrow> cty \<Rightarrow> bytes \<Rightarrow> cval list" where
  "of_bytes CU8 bs = VU8 (hd bs)"
| "of_bytes CU16 bs = VU16 (le_val bs)"
| "of_bytes CU32 bs = VU32 (le_val bs)"
| "of_bytes CU64 bs = VU64 (le_val bs)"
| "of_bytes CF32 bs = VF32 (le_val bs)"
| "of_bytes (CEnum vs) bs = VU8 (hd bs)"
| "of_bytes (CBits fs) bs = VBits (unpack_bits fs (unat (hd bs)))"
| "of_bytes (CArr n t) bs = VArr (of_bytes_array n t bs)"
| "of_bytes (CStruct fs) bs = VStruct (of_bytes_fields fs bs)"
| "of_bytes_fields [] bs = []"
| "of_bytes_fields ((f, t) # fs) bs = of_bytes t (take (sizeof t) bs) # of_bytes_fields fs (drop (sizeof t) bs)"
| "of_bytes_array 0 t bs = []"
| "of_bytes_array (Suc n) t bs = of_bytes t (take (sizeof t) bs) # of_bytes_array n t (drop (sizeof t) bs)"

text \<open>The values of a type; a bit-field unit fills its byte.\<close>

fun bits_ok :: "(string \<times> nat) list \<Rightarrow> nat list \<Rightarrow> bool" where
  "bits_ok [] [] \<longleftrightarrow> True"
| "bits_ok ((f, w) # fs) (v # vs) \<longleftrightarrow> v < 2 ^ w \<and> bits_ok fs vs"
| "bits_ok fs vs \<longleftrightarrow> False"

fun has_type :: "cty \<Rightarrow> cval \<Rightarrow> bool"
  and has_types :: "(string \<times> cty) list \<Rightarrow> cval list \<Rightarrow> bool" where
  "has_type CU8 v = (case v of VU8 w \<Rightarrow> True | _ \<Rightarrow> False)"
| "has_type CU16 v = (case v of VU16 w \<Rightarrow> True | _ \<Rightarrow> False)"
| "has_type CU32 v = (case v of VU32 w \<Rightarrow> True | _ \<Rightarrow> False)"
| "has_type CU64 v = (case v of VU64 w \<Rightarrow> True | _ \<Rightarrow> False)"
| "has_type CF32 v = (case v of VF32 w \<Rightarrow> True | _ \<Rightarrow> False)"
| "has_type (CEnum es) v = (case v of VU8 w \<Rightarrow> List.member es w | _ \<Rightarrow> False)"
| "has_type (CBits fs) v = (case v of VBits vs \<Rightarrow> bits_ok fs vs \<and> sum_list (map snd fs) = 8 | _ \<Rightarrow> False)"
| "has_type (CArr n t) v = (case v of VArr vs \<Rightarrow> length vs = n \<and> list_all (has_type t) vs | _ \<Rightarrow> False)"
| "has_type (CStruct fs) v = (case v of VStruct vs \<Rightarrow> has_types fs vs | _ \<Rightarrow> False)"
| "has_types ((f, t) # fs) (v # vs) = (has_type t v \<and> has_types fs vs)"
| "has_types [] vs = (vs = [])"
| "has_types fs [] = False"

lemma pack_bits_less: "bits_ok fs vs \<Longrightarrow> pack_bits fs vs < 2 ^ sum_list (map snd fs)"
proof (induction fs vs rule: bits_ok.induct)
  case (2 f w fs v vs)
  then have v: "v < 2 ^ w" and IH: "pack_bits fs vs + 1 \<le> 2 ^ sum_list (map snd fs)" by simp_all
  have "v + 2 ^ w * pack_bits fs vs < 2 ^ w * (pack_bits fs vs + 1)" using v by simp
  also have "\<dots> \<le> 2 ^ w * 2 ^ sum_list (map snd fs)" using IH by (rule mult_left_mono) simp
  finally show ?case by (simp add: power_add)
qed simp_all

lemma unpack_pack_bits: "bits_ok fs vs \<Longrightarrow> unpack_bits fs (pack_bits fs vs) = vs"
  by (induction fs vs rule: bits_ok.induct) simp_all

lemma length_to_bytes: "has_type t v \<Longrightarrow> length (to_bytes t v) = sizeof t"
  and length_to_bytes_fields:
    "has_types fs vs \<Longrightarrow> length (to_bytes_fields fs vs) = sum_list (map (\<lambda>(f, t). sizeof t) fs)"
proof (induction t v and fs vs rule: has_type_has_types.induct)
  case (8 n t v)
  then obtain vs where vs: "v = VArr vs" "length vs = n" "list_all (has_type t) vs"
    by (auto split: cval.splits)
  then have "map (length \<circ> to_bytes t) vs = map (\<lambda>_. sizeof t) vs"
    using 8 by (auto simp: list_all_iff)
  then show ?case using vs by (simp add: length_concat map_replicate_const sum_list_replicate)
qed (auto split: cval.splits)

lemma of_bytes_array_concat:
  assumes "list_all (has_type t) vs"
    and "\<And>v. v \<in> set vs \<Longrightarrow> has_type t v \<Longrightarrow> of_bytes t (to_bytes t v) = v"
  shows "of_bytes_array (length vs) t (concat (map (to_bytes t) vs)) = vs"
  using assms by (induction vs) (simp_all add: length_to_bytes)

text \<open>A packet copied to bytes and back is the packet.\<close>

lemma of_bytes_to_bytes: "has_type t v \<Longrightarrow> of_bytes t (to_bytes t v) = v"
  and of_bytes_fields_to_bytes: "has_types fs vs \<Longrightarrow> of_bytes_fields fs (to_bytes_fields fs vs) = vs"
proof (induction t v and fs vs rule: has_type_has_types.induct)
  case (7 fs v)
  then obtain vs where vs: "v = VBits vs" "bits_ok fs vs" "sum_list (map snd fs) = 8"
    by (auto split: cval.splits)
  then have "pack_bits fs vs < 2 ^ 8" using pack_bits_less [of fs vs] by simp
  then show ?case using vs by (simp add: unpack_pack_bits unat_of_nat)
next
  case (8 n t v)
  then show ?case using of_bytes_array_concat [of t] by (auto simp: list_all_iff split: cval.splits)
qed (auto simp: le_val_le_bytes length_to_bytes split: cval.splits)

section \<open>Protocols and traits\<close>

datatype packet_category = Notification | Request | Ack

text \<open>\<open>proto_name\<close> is the identity of the C++ type, which \<open>std::is_same\<close> compares.\<close>

record protocol =
  proto_name :: string
  start_byte :: u8
  has_second_byte :: bool
  second_byte :: u8
  header_size :: nat
  tail_size :: nat
  has_header_crc :: bool
  header_crc_offset :: nat
  has_seq_field :: bool
  seq_offset :: nat
  rpl_crc :: "bytes \<Rightarrow> u16 \<Rightarrow> u16"
  rpl_crc_null :: u16
  has_length_field :: bool
  length_offset :: nat
  length_field_bytes :: nat
  has_cmd_field :: bool
  cmd_offset :: nat
  cmd_field_bytes :: nat

definition DefaultProtocol :: protocol where
  "DefaultProtocol = \<lparr>
     proto_name = ''DefaultProtocol'',
     start_byte = 0xA5, has_second_byte = False, second_byte = 0x00,
     header_size = 7, tail_size = 2,
     has_header_crc = True, header_crc_offset = 4,
     has_seq_field = True, seq_offset = 3,
     rpl_crc = crc_calc ProtocolCRC16, rpl_crc_null = null_crc ProtocolCRC16,
     has_length_field = True, length_offset = 1, length_field_bytes = 2,
     has_cmd_field = True, cmd_offset = 5, cmd_field_bytes = 2\<rparr>"

text \<open>Constants \<open>USBBaseProto\<close> does not declare are never read (their guards are false): they are 0 here.\<close>

definition USBBaseProto :: protocol where
  "USBBaseProto = \<lparr>
     proto_name = ''USBBaseProto'',
     start_byte = 0xA5, has_second_byte = False, second_byte = 0x00,
     header_size = 5, tail_size = 0,
     has_header_crc = False, header_crc_offset = 0,
     has_seq_field = False, seq_offset = 0,
     rpl_crc = NoopCRC_calc, rpl_crc_null = 0,
     has_length_field = True, length_offset = 1, length_field_bytes = 2,
     has_cmd_field = True, cmd_offset = 3, cmd_field_bytes = 2\<rparr>"

record packet_traits =
  pt_type :: cty
  pt_cmd :: u16
  pt_size :: nat
  pt_protocol :: protocol
  pt_category :: packet_category
  pt_after_parse :: bool
  pt_skip_memory_pool :: bool

text \<open>\<open>PacketTraitsBase\<close>: the defaults a specialisation inherits.\<close>

definition PacketTraitsBase :: "cty \<Rightarrow> u16 \<Rightarrow> nat \<Rightarrow> packet_traits" where
  "PacketTraitsBase ty cmd sz = \<lparr>pt_type = ty, pt_cmd = cmd, pt_size = sz,
     pt_protocol = DefaultProtocol, pt_category = Notification, pt_after_parse = False, pt_skip_memory_pool = False\<rparr>"

lemma PacketTraitsBase_simps [simp]:
  "pt_type (PacketTraitsBase ty cmd sz) = ty"
  "pt_cmd (PacketTraitsBase ty cmd sz) = cmd"
  "pt_size (PacketTraitsBase ty cmd sz) = sz"
  "pt_protocol (PacketTraitsBase ty cmd sz) = DefaultProtocol"
  by (simp_all add: PacketTraitsBase_def)

lemma DefaultProtocol_simps [simp]:
  "proto_name DefaultProtocol = ''DefaultProtocol''"
  "start_byte DefaultProtocol = 0xA5" "has_second_byte DefaultProtocol = False"
  "header_size DefaultProtocol = 7" "tail_size DefaultProtocol = 2"
  "has_header_crc DefaultProtocol = True" "header_crc_offset DefaultProtocol = 4"
  "has_seq_field DefaultProtocol = True" "seq_offset DefaultProtocol = 3"
  "rpl_crc DefaultProtocol = crc_calc ProtocolCRC16"
  "rpl_crc_null DefaultProtocol = null_crc ProtocolCRC16"
  "has_length_field DefaultProtocol = True" "length_offset DefaultProtocol = 1"
  "length_field_bytes DefaultProtocol = 2"
  "has_cmd_field DefaultProtocol = True" "cmd_offset DefaultProtocol = 5"
  "cmd_field_bytes DefaultProtocol = 2"
  by (simp_all add: DefaultProtocol_def)

text \<open>\<open>T::tx_id\<close> of a packet in memory, for the types that have the member (\<open>has_tx_id_v\<close>).\<close>

definition has_tx_id :: "cty \<Rightarrow> bool" where
  "has_tx_id t \<longleftrightarrow> member_at ''tx_id'' 0 (struct_fields t) \<noteq> None"

definition read_tx_id :: "cty \<Rightarrow> bytes \<Rightarrow> u32" where
  "read_tx_id t data =
     (case member_at ''tx_id'' 0 (struct_fields t) of
        None \<Rightarrow> 0
      | Some (off, ft) \<Rightarrow> le_val (mem_read data off (sizeof ft)))"

end
