(* ===== verification/Rpl_Error.thy ===== *)
theory Rpl_Error
  imports Prelude
begin

text \<open>\<open>Utils/Error.hpp\<close>: the error value of \<open>tl::expected<T, Error>\<close> results, here \<open>Inl\<close> of a sum.\<close>

datatype ErrorCode =
    ErrorCode_Again
  | ErrorCode_InsufficientData
  | ErrorCode_NoFrameHeader
  | ErrorCode_InvalidFrameHeader
  | ErrorCode_CrcMismatch
  | ErrorCode_BufferOverflow
  | ErrorCode_InternalError
  | ErrorCode_InvalidCommand
  | ErrorCode_Timeout
  | ErrorCode_AckMismatch

record Error =
  message :: string
  code :: ErrorCode

definition mk_error :: "ErrorCode \<Rightarrow> string \<Rightarrow> Error" where
  "mk_error c msg = \<lparr>message = msg, code = c\<rparr>"

end
