(* ===== verification/Serializer.thy ===== *)
theory Serializer
  imports Packet_Traits Rpl_Error
begin

text \<open>
  \<open>RPL::Serializer<Ts...>\<close>: the parameter pack is the list of traits, the packet object its bytes, the
  output buffer a list whose length is the \<open>size\<close> argument. \<open>serialize_one\<close> writes field by field at
  the protocol's offsets, in the order of the source; \<open>default_frame\<close> is the frame it leaves under
  \<open>DefaultProtocol\<close>. The \<open>HasBitLayout\<close> branch is not modelled: no packet of the repository has one.
\<close>

section \<open>Operations\<close>

definition frame_size :: "packet_traits \<Rightarrow> nat" where
  "frame_size T = header_size (pt_protocol T) + pt_size T + tail_size (pt_protocol T)"

definition write_length_field :: "protocol \<Rightarrow> nat \<Rightarrow> nat \<Rightarrow> bytes \<Rightarrow> bytes" where
  "write_length_field P data_size cur buf =
     (if has_length_field P then
        let data_size_u16 = of_nat data_size :: u16
        in if length_field_bytes P = 1 then
             buf[cur + length_offset P := ucast (data_size_u16 AND 0xFF)]
           else
             buf[cur + length_offset P := ucast (data_size_u16 AND 0xFF),
                 cur + length_offset P + 1 := ucast (drop_bit 8 data_size_u16 AND 0xFF)]
      else buf)"

definition write_cmd_field :: "protocol \<Rightarrow> u16 \<Rightarrow> nat \<Rightarrow> bytes \<Rightarrow> bytes" where
  "write_cmd_field P cmd cur buf =
     (if has_cmd_field P then
        if cmd_field_bytes P = 1 then buf[cur + cmd_offset P := ucast (cmd AND 0xFF)]
        else buf[cur + cmd_offset P := ucast (cmd AND 0xFF),
                 cur + cmd_offset P + 1 := ucast (drop_bit 8 cmd AND 0xFF)]
      else buf)"

definition write_header :: "protocol \<Rightarrow> u8 \<Rightarrow> nat \<Rightarrow> nat \<Rightarrow> bytes \<Rightarrow> bytes" where
  "write_header P seq data_size cur buf =
     (let buf = buf[cur := start_byte P];
          buf = (if has_second_byte P then buf[cur + 1 := second_byte P] else buf);
          buf = write_length_field P data_size cur buf;
          buf = (if has_seq_field P then buf[cur + seq_offset P := seq] else buf)
      in if has_header_crc P then
           buf[cur + header_crc_offset P :=
             crc_calc ProtocolCRC8 (mem_read buf cur (header_crc_offset P)) (null_crc ProtocolCRC8)]
         else buf)"

definition write_tail :: "protocol \<Rightarrow> nat \<Rightarrow> nat \<Rightarrow> bytes \<Rightarrow> bytes" where
  "write_tail P data_size cur buf =
     (if tail_size P > 0 then
        let n = header_size P + data_size;
            frame_crc16 = rpl_crc P (mem_read buf cur n) (rpl_crc_null P)
        in buf[cur + n := ucast (frame_crc16 AND 0xFF), cur + n + 1 := ucast (drop_bit 8 frame_crc16 AND 0xFF)]
      else buf)"

definition serialize_one :: "u8 \<Rightarrow> packet_traits \<Rightarrow> bytes \<Rightarrow> nat \<Rightarrow> bytes \<Rightarrow> bytes" where
  "serialize_one seq T packet cur buf =
     (let P = pt_protocol T;
          buf = write_header P seq (pt_size T) cur buf;
          buf = write_cmd_field P (pt_cmd T) cur buf;
          buf = mem_write buf (cur + header_size P) (take (pt_size T) packet)
      in write_tail P (pt_size T) cur buf)"

fun serialize_all :: "u8 \<Rightarrow> (packet_traits \<times> bytes) list \<Rightarrow> nat \<Rightarrow> bytes \<Rightarrow> nat \<times> bytes" where
  "serialize_all seq [] offset buf = (offset, buf)"
| "serialize_all seq ((T, packet) # ps) offset buf =
     serialize_all seq ps (offset + frame_size T) (serialize_one seq T packet offset buf)"

text \<open>
  \<open>serialize(buffer, size, packets...)\<close>: the result, the buffer, and the sequence number, which moves
  by one per successful call and wraps at 256.
\<close>

definition serialize :: "(packet_traits \<times> bytes) list \<Rightarrow> bytes \<Rightarrow> u8 \<Rightarrow> (Error + nat) \<times> bytes \<times> u8" where
  "serialize packets buf m_Sequence =
     (let total_size = sum_list (map (\<lambda>(T, packet). frame_size T) packets)
      in if length buf < total_size then
           (Inl (mk_error ErrorCode_BufferOverflow ''Expecting a larger size buffer''), buf, m_Sequence)
         else
           let (offset, buf) = serialize_all m_Sequence packets 0 buf
           in (Inr offset, buf, m_Sequence + 1))"

fun frame_size_by_cmd :: "packet_traits list \<Rightarrow> u16 \<Rightarrow> nat \<Rightarrow> nat" where
  "frame_size_by_cmd [] cmd result = result"
| "frame_size_by_cmd (T # Ts) cmd result =
     frame_size_by_cmd Ts cmd (if pt_cmd T = cmd then frame_size T else result)"

definition max_frame_size :: "packet_traits list \<Rightarrow> nat" where
  "max_frame_size Ts = fold (\<lambda>T m. max m (frame_size T)) Ts 0"

definition is_valid_cmd :: "packet_traits list \<Rightarrow> u16 \<Rightarrow> bool" where
  "is_valid_cmd Ts cmd \<longleftrightarrow> list_ex (\<lambda>T. pt_cmd T = cmd) Ts"

text \<open>\<open>get_type_index_by_cmd\<close>; \<open>None\<close> stands for \<open>SIZE_MAX\<close>.\<close>

fun get_type_index_loop :: "packet_traits list \<Rightarrow> u16 \<Rightarrow> bool \<Rightarrow> nat \<Rightarrow> bool \<times> nat" where
  "get_type_index_loop [] cmd found index = (found, index)"
| "get_type_index_loop (T # Ts) cmd found index =
     (if pt_cmd T = cmd then get_type_index_loop Ts cmd True index
      else get_type_index_loop Ts cmd found (if found then index else index + 1))"

definition get_type_index_by_cmd :: "packet_traits list \<Rightarrow> u16 \<Rightarrow> nat option" where
  "get_type_index_by_cmd Ts cmd =
     (let (found, index) = get_type_index_loop Ts cmd False 0 in if found then Some index else None)"

section \<open>The frame\<close>

definition default_header :: "u8 \<Rightarrow> nat \<Rightarrow> bytes" where
  "default_header seq n =
     (let h = [0xA5, ucast (of_nat n :: u16), ucast (drop_bit 8 (of_nat n :: u16)), seq]
      in h @ [crc_calc ProtocolCRC8 h (null_crc ProtocolCRC8)])"

definition default_body :: "u8 \<Rightarrow> u16 \<Rightarrow> bytes \<Rightarrow> bytes" where
  "default_body seq cmd payload = default_header seq (length payload) @ le_bytes 2 cmd @ payload"

definition default_frame :: "u8 \<Rightarrow> u16 \<Rightarrow> bytes \<Rightarrow> bytes" where
  "default_frame seq cmd payload =
     (let body = default_body seq cmd payload
      in body @ le_bytes 2 (crc_calc ProtocolCRC16 body (null_crc ProtocolCRC16)))"

lemma length_default_header [simp]: "length (default_header seq n) = 5"
  by (simp add: default_header_def Let_def)

lemma length_default_body [simp]: "length (default_body seq cmd payload) = 7 + length payload"
  by (simp add: default_body_def)

lemma length_default_frame [simp]: "length (default_frame seq cmd payload) = 9 + length payload"
  by (simp add: default_frame_def Let_def)

lemma and_FF_ucast: "(ucast (w AND 0xFF :: u16) :: u8) = ucast w"
proof -
  have "w AND 0xFF = w AND mask 8" by (simp add: mask_eq_exp_minus_1)
  then show ?thesis
    by (simp only:) (rule bit_word_eqI, simp add: bit_word_ucast_iff bit_and_iff bit_mask_iff)
qed

lemma le_bytes_2: "le_bytes 2 (w :: u16) = [ucast w, ucast (drop_bit 8 w)]"
  by (simp add: le_bytes_def numeral_2_eq_2)

lemmas le_bytes_Suc_Suc = le_bytes_2 [unfolded numeral_2_eq_2]

lemma split_frame_area:
  assumes "cur + (9 + n) \<le> length buf"
  obtains pre x0 x1 x2 x3 x4 x5 x6 mid t0 t1 post where
    "buf = pre @ [x0, x1, x2, x3, x4, x5, x6] @ mid @ [t0, t1] @ post"
    "length pre = cur" "length mid = n" "drop (cur + (9 + n)) buf = post" "take cur buf = pre"
proof -
  have "buf = take cur buf @ drop cur buf" by simp
  moreover have "drop cur buf = take 7 (drop cur buf) @ drop (cur + 7) buf"
    using append_take_drop_id [of 7 "drop cur buf"] by (simp add: add.commute)
  moreover have "drop (cur + 7) buf = take n (drop (cur + 7) buf) @ drop (cur + 7 + n) buf"
    using append_take_drop_id [of n "drop (cur + 7) buf"] by (simp add: ac_simps)
  moreover have "drop (cur + 7 + n) buf = take 2 (drop (cur + 7 + n) buf) @ drop (cur + (9 + n)) buf"
    using append_take_drop_id [of 2 "drop (cur + 7 + n) buf"] by (simp add: ac_simps)
  ultimately have e: "buf = take cur buf @ take 7 (drop cur buf) @ take n (drop (cur + 7) buf)
      @ take 2 (drop (cur + 7 + n) buf) @ drop (cur + (9 + n)) buf" by argo
  have l7: "length (take 7 (drop cur buf)) = Suc (Suc (Suc (Suc (Suc (Suc (Suc 0))))))"
    and l2: "length (take 2 (drop (cur + 7 + n) buf)) = Suc (Suc 0)"
    and ln: "length (take n (drop (cur + 7) buf)) = n" and lp: "length (take cur buf) = cur"
    using assms by simp_all
  from l7 obtain x0 x1 x2 x3 x4 x5 x6 where x: "take 7 (drop cur buf) = [x0, x1, x2, x3, x4, x5, x6]"
    by (auto simp: length_Suc_conv simp del: length_take)
  from l2 obtain t0 t1 where t: "take 2 (drop (cur + 7 + n) buf) = [t0, t1]"
    by (auto simp: length_Suc_conv simp del: length_take)
  show thesis using that e x t lp ln by metis
qed

lemma serialize_one_default:
  assumes "pt_protocol T = DefaultProtocol" and "length packet = pt_size T"
    and "cur + frame_size T \<le> length buf"
  shows "serialize_one seq T packet cur buf = mem_write buf cur (default_frame seq (pt_cmd T) packet)"
proof -
  have "cur + (9 + length packet) \<le> length buf" using assms by (simp add: frame_size_def)
  then obtain pre x0 x1 x2 x3 x4 x5 x6 mid t0 t1 post where
    buf: "buf = pre @ [x0, x1, x2, x3, x4, x5, x6] @ mid @ [t0, t1] @ post"
    and len: "length pre = cur" "length mid = length packet"
    by (rule split_frame_area)
  show ?thesis using len assms(1,2)
    by (simp add: serialize_one_def write_header_def write_length_field_def write_cmd_field_def write_tail_def
        default_frame_def default_body_def default_header_def Let_def buf mem_read_def mem_write_def
        list_update_append and_FF_ucast le_bytes_2 le_bytes_Suc_Suc numeral_eq_Suc)
qed

text \<open>A packet of a type the default protocol frames, with the bytes of its object.\<close>

definition default_packet :: "packet_traits \<times> bytes \<Rightarrow> bool" where
  "default_packet p \<longleftrightarrow> pt_protocol (fst p) = DefaultProtocol \<and> length (snd p) = pt_size (fst p)"

definition packet_frame :: "u8 \<Rightarrow> packet_traits \<times> bytes \<Rightarrow> bytes" where
  "packet_frame seq p = default_frame seq (pt_cmd (fst p)) (snd p)"

lemma length_packet_frame: "default_packet p \<Longrightarrow> length (packet_frame seq p) = frame_size (fst p)"
  by (simp add: default_packet_def packet_frame_def frame_size_def)

lemma serialize_all_default:
  assumes "list_all default_packet ps" and "off + (\<Sum>p\<leftarrow>ps. frame_size (fst p)) \<le> length buf"
  shows "serialize_all seq ps off buf =
    (off + (\<Sum>p\<leftarrow>ps. frame_size (fst p)), mem_write buf off (concat (map (packet_frame seq) ps)))"
  using assms
proof (induction ps arbitrary: off buf)
  case Nil
  then show ?case by simp
next
  case (Cons p ps)
  obtain T packet where p: "p = (T, packet)" by fastforce
  have one: "serialize_one seq T packet off buf = mem_write buf off (packet_frame seq p)"
    using Cons.prems by (simp add: p serialize_one_default default_packet_def packet_frame_def)
  have len: "length (packet_frame seq p) = frame_size T"
    using Cons.prems length_packet_frame [of p] by (simp add: p)
  have room: "off + frame_size T \<le> length buf" using Cons.prems by (simp add: p)
  have "serialize_all seq ps (off + frame_size T) (mem_write buf off (packet_frame seq p)) =
      (off + frame_size T + (\<Sum>p\<leftarrow>ps. frame_size (fst p)),
       mem_write (mem_write buf off (packet_frame seq p)) (off + frame_size T) (concat (map (packet_frame seq) ps)))"
    using Cons.prems room len by (intro Cons.IH) (simp_all add: p)
  moreover have "length (concat (map (packet_frame seq) ps)) = (\<Sum>p\<leftarrow>ps. frame_size (fst p))"
    using Cons.prems(1) by (induction ps) (simp_all add: length_packet_frame)
  ultimately show ?case
    using Cons.prems mem_write_mem_write_adjacent [of off "packet_frame seq p" "concat (map (packet_frame seq) ps)" buf]
      one len by (simp add: p)
qed

lemma sum_frame_size: "(\<Sum>(T, packet)\<leftarrow>ps. frame_size T) = (\<Sum>p\<leftarrow>ps. frame_size (fst p))"
  by (simp add: case_prod_unfold)

lemma serialize_default:
  assumes "list_all default_packet ps" and "(\<Sum>p\<leftarrow>ps. frame_size (fst p)) \<le> length buf"
  shows "serialize ps buf seq =
    (Inr (\<Sum>p\<leftarrow>ps. frame_size (fst p)), mem_write buf 0 (concat (map (packet_frame seq) ps)), seq + 1)"
  using assms serialize_all_default [of ps 0 buf seq] by (simp add: serialize_def sum_frame_size)

lemma serialize_overflow:
  "length buf < (\<Sum>p\<leftarrow>ps. frame_size (fst p)) \<Longrightarrow>
   serialize ps buf seq = (Inl (mk_error ErrorCode_BufferOverflow ''Expecting a larger size buffer''), buf, seq)"
  by (simp add: serialize_def sum_frame_size)

lemma serialize_ok_fits:
  "fst (serialize ps buf seq) = Inr n \<Longrightarrow> (\<Sum>p\<leftarrow>ps. frame_size (fst p)) \<le> length buf"
  by (rule ccontr) (simp add: serialize_overflow)

section \<open>Queries on the parameter pack\<close>

lemma is_valid_cmd_iff: "is_valid_cmd Ts cmd \<longleftrightarrow> cmd \<in> pt_cmd ` set Ts"
  by (auto simp: is_valid_cmd_def list_ex_iff)

lemma get_type_index_loop_found: "get_type_index_loop Ts cmd True i = (True, i)"
  by (induction Ts) simp_all

lemma get_type_index_loop_eq:
  "get_type_index_loop Ts cmd False i =
     (is_valid_cmd Ts cmd, i + length (takeWhile (\<lambda>T. pt_cmd T \<noteq> cmd) Ts))"
  by (induction Ts arbitrary: i) (simp_all add: get_type_index_loop_found is_valid_cmd_def)

lemma get_type_index_by_cmd_eq:
  "get_type_index_by_cmd Ts cmd =
     (if is_valid_cmd Ts cmd then Some (length (takeWhile (\<lambda>T. pt_cmd T \<noteq> cmd) Ts)) else None)"
  by (simp add: get_type_index_by_cmd_def get_type_index_loop_eq)

lemma get_type_index_by_cmd_Some:
  assumes "get_type_index_by_cmd Ts cmd = Some i"
  shows "i < length Ts" and "pt_cmd (Ts ! i) = cmd" and "j < i \<Longrightarrow> pt_cmd (Ts ! j) \<noteq> cmd"
proof -
  let ?P = "\<lambda>T. pt_cmd T \<noteq> cmd"
  have ex: "\<exists>T\<in>set Ts. pt_cmd T = cmd" and i: "i = length (takeWhile ?P Ts)"
    using assms by (auto simp: get_type_index_by_cmd_eq is_valid_cmd_iff split: if_splits)
  have "takeWhile ?P Ts \<noteq> Ts" using ex by (auto simp: takeWhile_eq_all_conv)
  moreover have "Ts = takeWhile ?P Ts @ dropWhile ?P Ts" by simp
  ultimately have "dropWhile ?P Ts \<noteq> []" by force
  then show lt: "i < length Ts"
    unfolding i by (metis takeWhile_dropWhile_id length_append less_add_same_cancel1 length_greater_0_conv)
  then show "pt_cmd (Ts ! i) = cmd" using nth_length_takeWhile [of ?P Ts] i by simp
  assume "j < i"
  then have "takeWhile ?P Ts ! j \<in> set (takeWhile ?P Ts)" and "takeWhile ?P Ts ! j = Ts ! j"
    unfolding i by (rule nth_mem, rule takeWhile_nth)
  then show "pt_cmd (Ts ! j) \<noteq> cmd" using set_takeWhileD by metis
qed

lemma fold_max_ge:
  "m \<le> fold (\<lambda>x m. max m (f x)) xs m \<and> (\<forall>x\<in>set xs. f x \<le> fold (\<lambda>x m. max m (f x)) xs (m :: nat))"
proof (induction xs arbitrary: m)
  case (Cons a xs)
  from Cons [of "max m (f a)"] show ?case by auto
qed simp

lemma max_frame_size_ge: "T \<in> set Ts \<Longrightarrow> frame_size T \<le> max_frame_size Ts"
  using fold_max_ge [where f = frame_size and xs = Ts and m = 0] by (simp add: max_frame_size_def)

end
