(* ===== verification/Deserializer.thy ===== *)
theory Deserializer
  imports Packet_Traits
begin

text \<open>
  \<open>Meta/PacketInfoCollector.hpp\<close>, \<open>Containers/MemoryPool.hpp\<close> and \<open>Deserializer.hpp\<close>: the layout of the
  pool (one slot per packet type), the two command tables, and the seqlock-protected writes and reads
  as one thread sees them. The \<open>frozen::unordered_map\<close> tables
  are association lists (commands are pairwise distinct, or \<open>frozen\<close> does not compile). A \<open>memcpy\<close>
  past the pool is \<open>None\<close>.
\<close>

section \<open>Layout of the pool\<close>

definition align_up :: "nat \<Rightarrow> nat \<Rightarrow> nat" where
  "align_up offset alignment =
     nat ((int offset + int alignment - 1) AND NOT (int alignment - 1))"

text \<open>\<open>calculate_offsets\<close> over the (\<open>alignof\<close>, \<open>sizeof\<close>) pairs: the offsets and \<open>current_offset\<close> at the end.\<close>

fun calculate_offsets :: "(nat \<times> nat) list \<Rightarrow> nat \<Rightarrow> nat list \<times> nat" where
  "calculate_offsets [] current_offset = ([], current_offset)"
| "calculate_offsets ((al, sz) # rest) current_offset =
     (let off = align_up current_offset al;
          (offsets, end_off) = calculate_offsets rest (off + sz)
      in (off # offsets, end_off))"

text \<open>Packet types are packed, so their alignment is 1.\<close>

definition layout :: "packet_traits list \<Rightarrow> nat list \<times> nat" where
  "layout Ts = calculate_offsets (map (\<lambda>T. (1, sizeof (pt_type T))) Ts) 0"

definition totalSize :: "packet_traits list \<Rightarrow> nat" where
  "totalSize Ts = snd (layout Ts)"

definition cmd_index :: "packet_traits list \<Rightarrow> u16 \<Rightarrow> nat option" where
  "cmd_index Ts cmd = map_of (zip (map pt_cmd Ts) (fst (layout Ts))) cmd"

definition cmd_seq_index :: "packet_traits list \<Rightarrow> u16 \<Rightarrow> nat option" where
  "cmd_seq_index Ts cmd = map_of (zip (map pt_cmd Ts) [0..<length Ts]) cmd"

definition type_index :: "packet_traits list \<Rightarrow> packet_traits \<Rightarrow> nat option" where
  "type_index Ts T = cmd_index Ts (pt_cmd T)"

definition type_seq_index :: "packet_traits list \<Rightarrow> packet_traits \<Rightarrow> nat option" where
  "type_seq_index Ts T = cmd_seq_index Ts (pt_cmd T)"

section \<open>The deserializer\<close>

record deserializer =
  pool :: bytes
  versions :: "u32 list"

definition deserializer_init :: "packet_traits list \<Rightarrow> deserializer" where
  "deserializer_init Ts = \<lparr>pool = replicate (totalSize Ts) 0, versions = replicate (length Ts) 0\<rparr>"

definition bump_version :: "nat \<Rightarrow> deserializer \<Rightarrow> deserializer" where
  "bump_version i d = d\<lparr>versions := (versions d)[i := versions d ! i + 1]\<rparr>"

definition pool_memcpy :: "nat \<Rightarrow> bytes \<Rightarrow> deserializer \<Rightarrow> deserializer option" where
  "pool_memcpy off src d =
     (if off + length src \<le> length (pool d) then Some (d\<lparr>pool := mem_write (pool d) off src\<rparr>) else None)"

definition des_write :: "packet_traits list \<Rightarrow> u16 \<Rightarrow> bytes \<Rightarrow> deserializer \<Rightarrow> deserializer option" where
  "des_write Ts cmd src d =
     (case (cmd_index Ts cmd, cmd_seq_index Ts cmd) of
        (Some byte_offset, Some seq_idx) \<Rightarrow>
          map_option (bump_version seq_idx) (pool_memcpy byte_offset src (bump_version seq_idx d))
      | _ \<Rightarrow> Some d)"

definition des_write_segmented ::
  "packet_traits list \<Rightarrow> u16 \<Rightarrow> bytes \<Rightarrow> bytes \<Rightarrow> deserializer \<Rightarrow> deserializer option" where
  "des_write_segmented Ts cmd s1 s2 d =
     (case (cmd_index Ts cmd, cmd_seq_index Ts cmd) of
        (Some byte_offset, Some seq_idx) \<Rightarrow>
          (case (if s1 \<noteq> [] then pool_memcpy byte_offset s1 (bump_version seq_idx d)
                 else Some (bump_version seq_idx d)) of
             None \<Rightarrow> None
           | Some d \<Rightarrow>
               (case (if s2 \<noteq> [] then pool_memcpy (byte_offset + length s1) s2 d else Some d) of
                  None \<Rightarrow> None
                | Some d \<Rightarrow> Some (bump_version seq_idx d)))
      | _ \<Rightarrow> Some d)"

definition des_version :: "packet_traits list \<Rightarrow> packet_traits \<Rightarrow> deserializer \<Rightarrow> u32 option" where
  "des_version Ts T d = map_option (\<lambda>i. versions d ! i) (type_seq_index Ts T)"

text \<open>
  \<open>get<T>()\<close> with no concurrent writer: the loop copies the slot until the version is even and did not
  move; \<open>None\<close> is a loop that never ends. \<open>before_get\<close> has an empty body in \<open>PacketTraitsBase\<close>.
\<close>

partial_function (option) get_loop :: "nat \<Rightarrow> nat \<Rightarrow> nat \<Rightarrow> deserializer \<Rightarrow> bytes option" where
  "get_loop seq_idx off n d =
     (let v1 = versions d ! seq_idx;
          result = mem_read (pool d) off n;
          v2 = versions d ! seq_idx
      in if v1 \<noteq> v2 \<or> v1 AND 1 \<noteq> 0 then get_loop seq_idx off n d else Some result)"

definition des_get :: "packet_traits list \<Rightarrow> packet_traits \<Rightarrow> deserializer \<Rightarrow> bytes option" where
  "des_get Ts T d =
     (case (type_seq_index Ts T, type_index Ts T) of
        (Some seq_idx, Some off) \<Rightarrow> get_loop seq_idx off (sizeof (pt_type T)) d
      | _ \<Rightarrow> None)"

text \<open>\<open>getRawRef\<close> and \<open>getWritePtr\<close>: the slot itself.\<close>

definition getRawRef :: "packet_traits list \<Rightarrow> packet_traits \<Rightarrow> deserializer \<Rightarrow> bytes option" where
  "getRawRef Ts T d = map_option (\<lambda>off. mem_read (pool d) off (sizeof (pt_type T))) (type_index Ts T)"

definition getWritePtr :: "packet_traits list \<Rightarrow> u16 \<Rightarrow> nat option" where
  "getWritePtr Ts cmd = cmd_index Ts cmd"

section \<open>The layout is aligned and its slots are disjoint\<close>

lemma align_up_pow2: "align_up off (2 ^ k) = (off + 2 ^ k - 1) div 2 ^ k * 2 ^ k"
proof -
  have clear: "x AND NOT (mask k) = x div 2 ^ k * 2 ^ k" for x :: int
  proof -
    have "x AND NOT (mask k) = push_bit k (drop_bit k x)"
      by (rule bit_eqI) (auto simp: bit_simps)
    then show ?thesis by (simp add: push_bit_eq_mult drop_bit_eq_div)
  qed
  have "align_up off (2 ^ k) = nat ((int off + 2 ^ k - 1) AND NOT (mask k))"
    by (simp add: align_up_def mask_eq_exp_minus_1)
  also have "\<dots> = nat ((int off + 2 ^ k - 1) div 2 ^ k * 2 ^ k)"
    by (simp only: clear)
  also have "int off + 2 ^ k - 1 = int (off + 2 ^ k - 1)"
    by (subst of_nat_diff) (simp_all add: trans_le_add2)
  finally show ?thesis
    by (metis (no_types, lifting) nat_int of_nat_numeral of_nat_power of_nat_mult of_nat_div)
qed

lemma align_up_ge: "off \<le> align_up off (2 ^ k)"
  and align_up_dvd: "2 ^ k dvd align_up off (2 ^ k)"
  and align_up_less: "align_up off (2 ^ k) < off + 2 ^ k"
proof -
  let ?p = "2 ^ k :: nat"
  have "(off + ?p - 1) div ?p * ?p + (off + ?p - 1) mod ?p = off + ?p - 1"
    by (rule div_mult_mod_eq)
  moreover have "(off + ?p - 1) mod ?p < ?p" by simp
  moreover have "0 < ?p" by simp
  ultimately show "off \<le> align_up off ?p" and "align_up off ?p < off + ?p"
    unfolding align_up_pow2 by linarith+
  show "?p dvd align_up off ?p" unfolding align_up_pow2 by simp
qed

lemma calculate_offsets_layout:
  assumes "calculate_offsets ps c = (offs, e)" and "\<forall>p\<in>set ps. \<exists>k. fst p = 2 ^ k"
  shows "length offs = length ps \<and> c \<le> e \<and>
    (\<forall>i<length ps. c \<le> offs ! i \<and> fst (ps ! i) dvd offs ! i \<and> offs ! i + snd (ps ! i) \<le> e \<and>
      (\<forall>j<length ps. i < j \<longrightarrow> offs ! i + snd (ps ! i) \<le> offs ! j))"
  using assms
proof (induction ps arbitrary: c offs)
  case Nil
  then show ?case by simp
next
  case (Cons p ps)
  obtain k sz where p: "p = (2 ^ k, sz)" using Cons.prems(2) by (metis list.set_intros(1) prod.collapse)
  let ?o = "align_up c (2 ^ k)"
  obtain os where os: "calculate_offsets ps (?o + sz) = (os, e)" and offs: "offs = ?o # os"
    using Cons.prems(1) by (auto simp: p Let_def split: prod.splits)
  have IH: "length os = length ps" "?o + sz \<le> e"
    "\<forall>i<length ps. ?o + sz \<le> os ! i \<and> fst (ps ! i) dvd os ! i \<and> os ! i + snd (ps ! i) \<le> e \<and>
      (\<forall>j<length ps. i < j \<longrightarrow> os ! i + snd (ps ! i) \<le> os ! j)"
    using Cons.IH [OF os] Cons.prems(2) by auto
  have c: "c \<le> ?o" and d: "2 ^ k dvd ?o" by (rule align_up_ge, rule align_up_dvd)
  have "c \<le> offs ! i \<and> fst ((p # ps) ! i) dvd offs ! i \<and> offs ! i + snd ((p # ps) ! i) \<le> e \<and>
      (\<forall>j<length (p # ps). i < j \<longrightarrow> offs ! i + snd ((p # ps) ! i) \<le> offs ! j)"
    if "i < length (p # ps)" for i
  proof (cases i)
    case 0
    have "offs ! 0 + snd ((p # ps) ! 0) \<le> offs ! j" if "0 < j" "j < length (p # ps)" for j
      using that IH(3) by (cases j) (auto simp: offs p)
    then show ?thesis using 0 c d IH(2) by (auto simp: offs p)
  next
    case (Suc i')
    then have i': "i' < length ps" using that by simp
    have "offs ! i + snd ((p # ps) ! i) \<le> offs ! j" if "i < j" "j < length (p # ps)" for j
      using that IH(3) i' Suc by (cases j) (auto simp: offs)
    then show ?thesis using Suc i' IH(3) c by (auto simp: offs)
  qed
  then show ?case using IH(1,2) c by (simp add: offs)
qed

text \<open>The slots of the pool of a list of packed packet types.\<close>

definition slot :: "packet_traits list \<Rightarrow> nat \<Rightarrow> nat" where
  "slot Ts i = fst (layout Ts) ! i"

lemma slots:
  assumes "i < length Ts"
  shows "length (fst (layout Ts)) = length Ts"
    and "slot Ts i + sizeof (pt_type (Ts ! i)) \<le> totalSize Ts"
    and "i < j \<Longrightarrow> j < length Ts \<Longrightarrow> slot Ts i + sizeof (pt_type (Ts ! i)) \<le> slot Ts j"
proof -
  obtain offs e where l: "layout Ts = (offs, e)" by fastforce
  have "\<forall>p\<in>set (map (\<lambda>T. (1 :: nat, sizeof (pt_type T))) Ts). \<exists>k. fst p = 2 ^ k"
    by (auto intro: exI [of _ 0])
  from calculate_offsets_layout [OF l [unfolded layout_def] this]
  show "length (fst (layout Ts)) = length Ts"
    and "slot Ts i + sizeof (pt_type (Ts ! i)) \<le> totalSize Ts"
    and "i < j \<Longrightarrow> j < length Ts \<Longrightarrow> slot Ts i + sizeof (pt_type (Ts ! i)) \<le> slot Ts j"
    using assms by (simp_all add: l slot_def totalSize_def)
qed

lemma map_of_zip_distinct:
  "distinct ks \<Longrightarrow> i < length ks \<Longrightarrow> length vs = length ks \<Longrightarrow> map_of (zip ks vs) (ks ! i) = Some (vs ! i)"
  by (metis map_of_zip_nth)

lemma cmd_index_nth:
  assumes "distinct (map pt_cmd Ts)" and "i < length Ts"
  shows "cmd_index Ts (pt_cmd (Ts ! i)) = Some (slot Ts i)"
    and "cmd_seq_index Ts (pt_cmd (Ts ! i)) = Some i"
  using map_of_zip_distinct [OF assms(1), of i "fst (layout Ts)"] map_of_zip_distinct [OF assms(1), of i "[0..<length Ts]"]
    slots(1) [OF assms(2)] assms(2)
  by (simp_all add: cmd_index_def cmd_seq_index_def slot_def)

lemma cmd_index_unknown:
  "cmd \<notin> pt_cmd ` set Ts \<Longrightarrow> cmd_index Ts cmd = None \<and> cmd_seq_index Ts cmd = None"
  by (auto simp: cmd_index_def cmd_seq_index_def map_of_eq_None_iff dest: set_zip_leftD)

section \<open>Writes and reads\<close>

definition des_inv :: "packet_traits list \<Rightarrow> deserializer \<Rightarrow> bool" where
  "des_inv Ts d \<longleftrightarrow> length (pool d) = totalSize Ts \<and> length (versions d) = length Ts \<and> list_all even (versions d)"

lemma deserializer_init_inv [simp]: "des_inv Ts (deserializer_init Ts)"
  by (simp add: des_inv_def deserializer_init_def list_all_iff)

text \<open>What a write of a whole packet leaves.\<close>

definition des_put :: "packet_traits list \<Rightarrow> nat \<Rightarrow> bytes \<Rightarrow> deserializer \<Rightarrow> deserializer" where
  "des_put Ts i src d = d\<lparr>pool := mem_write (pool d) (slot Ts i) src, versions := (versions d)[i := versions d ! i + 2]\<rparr>"

lemma des_write_eq:
  assumes "des_inv Ts d" and "distinct (map pt_cmd Ts)" and "i < length Ts"
    and "length src \<le> sizeof (pt_type (Ts ! i))"
  shows "des_write Ts (pt_cmd (Ts ! i)) src d = Some (des_put Ts i src d)"
proof -
  have "slot Ts i + length src \<le> length (pool d)"
    using slots(2) [OF assms(3)] assms(1,4) by (simp add: des_inv_def)
  then show ?thesis using assms cmd_index_nth [OF assms(2,3)]
    by (simp add: des_write_def pool_memcpy_def bump_version_def des_put_def des_inv_def add.commute [of _ 2])
qed

lemma des_write_segmented_eq:
  assumes "des_inv Ts d" and "distinct (map pt_cmd Ts)" and "i < length Ts"
    and "length s1 + length s2 \<le> sizeof (pt_type (Ts ! i))"
  shows "des_write_segmented Ts (pt_cmd (Ts ! i)) s1 s2 d = Some (des_put Ts i (s1 @ s2) d)"
proof -
  have "slot Ts i + length s1 + length s2 \<le> length (pool d)"
    using slots(2) [OF assms(3)] assms(1,4) by (simp add: des_inv_def)
  then show ?thesis using assms cmd_index_nth [OF assms(2,3)]
    by (simp add: des_write_segmented_def pool_memcpy_def bump_version_def des_put_def des_inv_def
        mem_write_mem_write_adjacent add.commute [of _ 2])
qed

lemma des_write_unknown:
  "cmd \<notin> pt_cmd ` set Ts \<Longrightarrow> des_write Ts cmd src d = Some d \<and> des_write_segmented Ts cmd s1 s2 d = Some d"
  using cmd_index_unknown [of cmd Ts] by (simp add: des_write_def des_write_segmented_def)

lemma even_plus_2: "even (w + 2 :: u32) = even w"
  by (metis dvd_add_right_iff dvd_refl add.commute)

lemma des_put_inv:
  assumes "des_inv Ts d" and "i < length Ts" and "length src \<le> sizeof (pt_type (Ts ! i))"
  shows "des_inv Ts (des_put Ts i src d)"
proof -
  have "slot Ts i + length src \<le> length (pool d)"
    using slots(2) [OF assms(2)] assms(1,3) by (simp add: des_inv_def)
  then show ?thesis using assms
    by (auto simp: des_inv_def des_put_def list_all_length nth_list_update even_plus_2)
qed

lemma and_1_even: "w AND 1 = 0 \<longleftrightarrow> even (w :: u32)"
  by (simp add: and_one_eq even_iff_mod_2_eq_zero)

lemma des_get_slot:
  assumes "des_inv Ts d" and "distinct (map pt_cmd Ts)" and "i < length Ts"
  shows "des_get Ts (Ts ! i) d = Some (mem_read (pool d) (slot Ts i) (sizeof (pt_type (Ts ! i))))"
proof -
  have "even (versions d ! i)" using assms by (simp add: des_inv_def list_all_length)
  then show ?thesis using cmd_index_nth [OF assms(2,3)]
    by (subst des_get_def) (simp add: type_index_def type_seq_index_def get_loop.simps and_1_even)
qed

lemma des_get_put:
  assumes "des_inv Ts d" and "distinct (map pt_cmd Ts)" and "i < length Ts" and "j < length Ts"
    and "length src = sizeof (pt_type (Ts ! i))"
  shows "des_get Ts (Ts ! j) (des_put Ts i src d) = (if i = j then Some src else des_get Ts (Ts ! j) d)"
proof -
  have inv': "des_inv Ts (des_put Ts i src d)" using assms by (simp add: des_put_inv)
  have room: "slot Ts i + length src \<le> length (pool d)"
    using slots(2) [OF assms(3)] assms(1,5) by (simp add: des_inv_def)
  have new: "des_get Ts (Ts ! j) (des_put Ts i src d) =
      Some (mem_read (mem_write (pool d) (slot Ts i) src) (slot Ts j) (sizeof (pt_type (Ts ! j))))"
    unfolding des_get_slot [OF inv' assms(2,4)] by (simp add: des_put_def)
  note old = des_get_slot [OF assms(1,2,4)]
  consider "i = j" | "i < j" | "j < i" by linarith
  then show ?thesis
  proof cases
    case 1
    then show ?thesis using room assms new by (simp add: mem_simps)
  next
    case 2
    then show ?thesis using slots(3) [OF assms(3), of j] room assms
      by (simp add: new old mem_simps)
  next
    case 3
    then show ?thesis using slots(3) [OF assms(4), of i] room assms
      by (simp add: new old mem_simps)
  qed
qed

end
