(* ===== verification/Parser.thy ===== *)
theory Parser
  imports Bip_Buffer Serializer Deserializer
begin

text \<open>
  \<open>RPL::Parser\<close>: the workers and the start-byte table computed from the packet list, the dispatch to
  \<open>after_parse\<close>, \<open>parse_frame_impl\<close> on the two spans of the ring, and the scan loop, which may not end
  and is a partial function. Reading or writing past an object is the value \<open>Inl fault\<close>.
\<close>

section \<open>Workers and tables\<close>

record worker =
  w_protocol :: protocol
  is_fixed :: bool
  fixed_cmd :: u16
  fixed_size :: nat

definition GetWorker :: "packet_traits \<Rightarrow> worker" where
  "GetWorker T =
     (let P = pt_protocol T; IsFixed = \<not> has_cmd_field P
      in \<lparr>w_protocol = P, is_fixed = IsFixed,
          fixed_cmd = (if IsFixed then pt_cmd T else 0),
          fixed_size = (if IsFixed then pt_size T else 0)\<rparr>)"

definition same_worker :: "worker \<Rightarrow> worker \<Rightarrow> bool" where
  "same_worker v w \<longleftrightarrow>
     proto_name (w_protocol v) = proto_name (w_protocol w) \<and> is_fixed v = is_fixed w \<and>
     fixed_cmd v = fixed_cmd w \<and> fixed_size v = fixed_size w"

fun UniqueImpl :: "worker list \<Rightarrow> worker list \<Rightarrow> worker list" where
  "UniqueImpl [] Os = Os"
| "UniqueImpl (H # Ts) Os = (if list_ex (same_worker H) Os then UniqueImpl Ts Os else UniqueImpl Ts (Os @ [H]))"

definition UniqueWorkers :: "packet_traits list \<Rightarrow> worker list" where
  "UniqueWorkers Ts = UniqueImpl (map GetWorker Ts) []"

definition calculate_max_frame_size :: "packet_traits list \<Rightarrow> nat" where
  "calculate_max_frame_size Ts =
     fold (\<lambda>T m. let size = header_size (pt_protocol T) + pt_size T + tail_size (pt_protocol T)
                 in if size > m then size else m) Ts 0"

text \<open>\<open>std::bit_ceil\<close>; \<open>calculate_buffer_size\<close> takes it of four frames.\<close>

fun bit_ceil_from :: "nat \<Rightarrow> nat \<Rightarrow> nat \<Rightarrow> nat" where
  "bit_ceil_from 0 p n = p"
| "bit_ceil_from (Suc k) p n = (if n \<le> p then p else bit_ceil_from k (2 * p) n)"

definition bit_ceil :: "nat \<Rightarrow> nat" where
  "bit_ceil n = bit_ceil_from n 1 n"

definition calculate_buffer_size :: "packet_traits list \<Rightarrow> nat" where
  "calculate_buffer_size Ts = (let min_size = calculate_max_frame_size Ts * 4 in bit_ceil min_size)"

text \<open>\<open>header_lut\<close>; \<open>None\<close> is the compile-time error of two workers with one start byte.\<close>

definition register_packet :: "u8 list \<Rightarrow> nat \<Rightarrow> worker \<Rightarrow> u8 list option" where
  "register_packet table index W =
     (let sb = unat (start_byte (w_protocol W))
      in if table ! sb \<noteq> 0xFF \<and> unat (table ! sb) \<noteq> index then None
         else Some (table[sb := of_nat index]))"

fun build_header_impl :: "u8 list \<Rightarrow> nat \<Rightarrow> worker list \<Rightarrow> u8 list option" where
  "build_header_impl table idx [] = Some table"
| "build_header_impl table idx (W # Ws) =
     (case register_packet table idx W of None \<Rightarrow> None | Some table \<Rightarrow> build_header_impl table (idx + 1) Ws)"

definition header_lut :: "packet_traits list \<Rightarrow> u8 list option" where
  "header_lut Ts = build_header_impl (replicate 256 0xFF) 0 (UniqueWorkers Ts)"

definition unique_start_byte :: "u8 list \<Rightarrow> u8" where
  "unique_start_byte lut =
     (let (first_sb, count) =
        fold (\<lambda>i (first_sb :: u8, count).
            if lut ! i \<noteq> 0xFF then (if first_sb = 0xFF then of_nat i else first_sb, count + 1)
            else (first_sb, count)) [0..<256] (0xFF, 0 :: nat)
      in if count = 1 then first_sb else 0xFF)"

section \<open>State\<close>

text \<open>
  What \<open>Parser<Args...>\<close> fixes at compile time, and its code from outside: the \<open>after_parse\<close> callbacks
  on a caller's state \<open>'s\<close> and the monitor's \<open>on_packet_received\<close>.
\<close>

record ('m, 's) parser_config =
  packets :: "packet_traits list"
  workers :: "worker list"
  lut :: "u8 list"
  after_parse :: "packet_traits \<Rightarrow> bytes \<Rightarrow> 's \<Rightarrow> 's"
  on_packet_received :: "'m \<Rightarrow> 'm"

definition parser_config_of ::
  "packet_traits list \<Rightarrow> (packet_traits \<Rightarrow> bytes \<Rightarrow> 's \<Rightarrow> 's) \<Rightarrow> ('m \<Rightarrow> 'm) \<Rightarrow> ('m, 's) parser_config option" where
  "parser_config_of Ts ap mon =
     map_option (\<lambda>table. \<lparr>packets = Ts, workers = UniqueWorkers Ts, lut = table,
        after_parse = ap, on_packet_received = mon\<rparr>) (header_lut Ts)"

record 'm parser =
  buffer :: bip
  deser :: deserializer
  monitor :: 'm

definition parser_init :: "packet_traits list \<Rightarrow> 'm \<Rightarrow> 'm parser" where
  "parser_init Ts mon = \<lparr>buffer = bip_init (calculate_buffer_size Ts), deser = deserializer_init Ts, monitor = mon\<rparr>"

datatype fault = Null_Read | Out_Of_Bounds | Dangling_Read

datatype parse_result = Success | Failure | Incomplete

section \<open>Dispatch\<close>

text \<open>
  A payload span that was never assigned (\<open>std::span{}\<close>) is \<open>None\<close>. With one span the callback gets
  \<open>sizeof(T)\<close> bytes from its start, whatever the length of the span.
\<close>

definition try_dispatch ::
  "('m, 's) parser_config \<Rightarrow> bip \<Rightarrow> packet_traits \<Rightarrow> span option \<Rightarrow> span option \<Rightarrow> 's \<Rightarrow> fault + bool \<times> 's" where
  "try_dispatch cfg b T s1 s2 s =
     (let n = sizeof (pt_type T);
          len = (\<lambda>sp. case sp of None \<Rightarrow> 0 | Some sp \<Rightarrow> snd sp);
          data = (\<lambda>sp. case sp of None \<Rightarrow> [] | Some sp \<Rightarrow> span_bytes b sp)
      in if pt_after_parse T then
           if len s2 = 0 then
             case s1 of
               None \<Rightarrow> Inl Null_Read
             | Some (off, k) \<Rightarrow>
                 if off + n \<le> bip_size b
                 then Inr (pt_skip_memory_pool T, after_parse cfg T (mem_read (bip_mem b) off n) s)
                 else Inl Out_Of_Bounds
           else if len s1 + len s2 \<le> pt_size T \<and> n \<le> pt_size T then
             let temp = replicate (pt_size T) 0;
                 temp = mem_write temp 0 (data s1);
                 temp = mem_write temp (len s1) (data s2)
             in Inr (pt_skip_memory_pool T, after_parse cfg T (take n temp) s)
           else Inl Out_Of_Bounds
         else Inr (pt_skip_memory_pool T, s))"

fun dispatch ::
  "('m, 's) parser_config \<Rightarrow> bip \<Rightarrow> packet_traits list \<Rightarrow> u16 \<Rightarrow> span option \<Rightarrow> span option \<Rightarrow> 's
     \<Rightarrow> fault + bool \<times> 's" where
  "dispatch cfg b [] cmd_id s1 s2 s = Inr (False, s)"
| "dispatch cfg b (T # Ts) cmd_id s1 s2 s =
     (if cmd_id \<noteq> pt_cmd T then dispatch cfg b Ts cmd_id s1 s2 s else try_dispatch cfg b T s1 s2 s)"

section \<open>One frame\<close>

definition worker_fields :: "worker \<Rightarrow> bytes \<Rightarrow> nat \<times> u16" where
  "worker_fields W header =
     (let P = w_protocol W
      in if is_fixed W then (fixed_size W, fixed_cmd W)
         else
           (if length_field_bytes P = 2 then unat (le_val (mem_read header (length_offset P) 2) :: u16)
            else unat (header ! length_offset P),
            if cmd_field_bytes P = 2 then le_val (mem_read header (cmd_offset P) 2)
            else ucast (header ! cmd_offset P)))"

definition segmented_crc :: "protocol \<Rightarrow> bytes \<Rightarrow> bytes \<Rightarrow> nat \<Rightarrow> u16" where
  "segmented_crc P s1 s2 calc_len =
     (if calc_len \<le> length s1 then rpl_crc P (take calc_len s1) (rpl_crc_null P)
      else rpl_crc P (take (calc_len - length s1) s2) (rpl_crc P s1 (rpl_crc_null P)))"

definition segmented_recv_crc :: "bytes \<Rightarrow> bytes \<Rightarrow> nat \<Rightarrow> u16" where
  "segmented_recv_crc s1 s2 calc_len =
     (if calc_len + 2 \<le> length s1 then le_val (mem_read s1 calc_len 2)
      else if calc_len \<ge> length s1 then le_val (mem_read s2 (calc_len - length s1) 2)
      else ucast (s1 ! calc_len) OR push_bit 8 (ucast (s2 ! 0)))"

definition payload_spans :: "protocol \<Rightarrow> nat \<Rightarrow> span \<Rightarrow> span \<Rightarrow> span option \<times> span option" where
  "payload_spans P data_len s1 s2 =
     (if header_size P < snd s1 then
        let payload_s1 = (fst s1 + header_size P, snd s1 - header_size P)
        in if snd payload_s1 \<ge> data_len then (Some (fst payload_s1, data_len), None)
           else (Some payload_s1, Some (fst s2, data_len - snd payload_s1))
      else (None, Some (fst s2 + (header_size P - snd s1), data_len)))"

definition parse_frame_impl ::
  "('m, 's) parser_config \<Rightarrow> worker \<Rightarrow> 'm parser \<Rightarrow> 's \<Rightarrow> fault + parse_result \<times> 'm parser \<times> 's" where
  "parse_frame_impl cfg W p s =
     (let P = w_protocol W; b = buffer p;
          max_frame_size = calculate_max_frame_size (packets cfg)
      in if bip_available b < header_size P then Inr (Incomplete, p, s) else
      let (hs1, hs2) = get_read_spans 0 (header_size P) b;
          header = (if snd hs2 = 0 then span_bytes b hs1
                    else case bip_peek 0 (header_size P) b of None \<Rightarrow> [] | Some d \<Rightarrow> d)
      in if has_second_byte P \<and> header ! 1 \<noteq> second_byte P then Inr (Failure, p, s) else
      if has_header_crc P \<and> crc_calc ProtocolCRC8 (take 4 header) (null_crc ProtocolCRC8) \<noteq> header ! 4
      then Inr (Failure, p, s) else
      let (data_len, cmd_id) = worker_fields W header
      in if \<not> is_fixed W \<and> data_len > max_frame_size - header_size P - tail_size P then Inr (Failure, p, s) else
      let total_len = header_size P + data_len + tail_size P
      in if bip_available b < total_len then Inr (Incomplete, p, s) else
      let (s1, s2) = get_read_spans 0 total_len b;
          calc_len = total_len - tail_size P
      in if tail_size P > 0 \<and>
            segmented_crc P (span_bytes b s1) (span_bytes b s2) calc_len
              \<noteq> segmented_recv_crc (span_bytes b s1) (span_bytes b s2) calc_len
      then Inr (Failure, p, s) else
      let (payload_s1, payload_s2) = payload_spans P data_len s1 s2;
          data = (\<lambda>sp. case sp of None \<Rightarrow> [] | Some sp \<Rightarrow> span_bytes b sp)
      in case dispatch cfg b (packets cfg) cmd_id payload_s1 payload_s2 s of
           Inl f \<Rightarrow> Inl f
         | Inr (skip_pool, s) \<Rightarrow>
             (case (if skip_pool then Some (deser p)
                    else des_write_segmented (packets cfg) cmd_id (data payload_s1) (data payload_s2) (deser p)) of
                None \<Rightarrow> Inl Out_Of_Bounds
              | Some d \<Rightarrow> Inr (Success, p\<lparr>buffer := snd (bip_discard total_len b), deser := d\<rparr>, s)))"

section \<open>The scan loop\<close>

text \<open>The offset of the next potential start byte and its worker; \<open>None\<close> when the view has none.\<close>

definition index_of :: "('a \<Rightarrow> bool) \<Rightarrow> 'a list \<Rightarrow> nat option" where
  "index_of Q xs = (let i = length (takeWhile (\<lambda>x. \<not> Q x) xs) in if i < length xs then Some i else None)"

definition scan_start :: "('m, 's) parser_config \<Rightarrow> bytes \<Rightarrow> (nat \<times> u8) option" where
  "scan_start cfg view =
     (let sb = unique_start_byte (lut cfg)
      in if sb \<noteq> 0xFF then
           map_option (\<lambda>i. (i, lut cfg ! unat sb)) (index_of (\<lambda>x. x = sb) view)
         else
           map_option (\<lambda>i. (i, lut cfg ! unat (view ! i))) (index_of (\<lambda>x. lut cfg ! unat x \<noteq> 0xFF) view))"

definition runtime_parse ::
  "('m, 's) parser_config \<Rightarrow> u8 \<Rightarrow> 'm parser \<Rightarrow> 's \<Rightarrow> fault + parse_result \<times> 'm parser \<times> 's" where
  "runtime_parse cfg worker_idx p s =
     (if unat worker_idx < length (workers cfg) then parse_frame_impl cfg (workers cfg ! unat worker_idx) p s
      else Inr (Incomplete, p, s))"

text \<open>One turn of the outer loop: whether to go on, \<open>available_bytes\<close>, and the state.\<close>

definition scan_turn ::
  "('m, 's) parser_config \<Rightarrow> nat \<Rightarrow> 'm parser \<Rightarrow> 's \<Rightarrow> fault + bool \<times> nat \<times> 'm parser \<times> 's" where
  "scan_turn cfg available_bytes p s =
     (let b = buffer p; view = span_bytes b (get_contiguous_read_buffer b)
      in case scan_start cfg view of
           None \<Rightarrow>
             Inr (True, available_bytes - length view, p\<lparr>buffer := snd (bip_discard (length view) b)\<rparr>, s)
         | Some (scan_offset, worker_idx) \<Rightarrow>
             let (available_bytes, p) =
                   (if scan_offset > 0
                    then (available_bytes - scan_offset, p\<lparr>buffer := snd (bip_discard scan_offset b)\<rparr>)
                    else (available_bytes, p))
             in case runtime_parse cfg worker_idx p s of
                  Inl f \<Rightarrow> Inl f
                | Inr (Success, p, s) \<Rightarrow>
                    Inr (True, bip_available (buffer p), p\<lparr>monitor := on_packet_received cfg (monitor p)\<rparr>, s)
                | Inr (Failure, p, s) \<Rightarrow>
                    Inr (True, available_bytes - 1, p\<lparr>buffer := snd (bip_discard 1 (buffer p))\<rparr>, s)
                | Inr (Incomplete, p, s) \<Rightarrow> Inr (False, available_bytes, p, s))"

partial_function (option) try_parse_loop ::
  "('m, 's) parser_config \<Rightarrow> nat \<Rightarrow> 'm parser \<Rightarrow> 's \<Rightarrow> (fault + 'm parser \<times> 's) option" where
  "try_parse_loop cfg available_bytes p s =
     (if available_bytes > 0 then
        case scan_turn cfg available_bytes p s of
          Inl f \<Rightarrow> Some (Inl f)
        | Inr (go_on, available_bytes, p, s) \<Rightarrow>
            if go_on then try_parse_loop cfg available_bytes p s else Some (Inr (p, s))
      else Some (Inr (p, s)))"

definition try_parse_packets ::
  "('m, 's) parser_config \<Rightarrow> 'm parser \<Rightarrow> 's \<Rightarrow> (fault + 'm parser \<times> 's) option" where
  "try_parse_packets cfg p s = try_parse_loop cfg (bip_available (buffer p)) p s"

section \<open>The public operations\<close>

text \<open>The \<open>tl::expected\<close> result, \<open>Inl\<close> the error, with the state after the call.\<close>

definition push_data ::
  "('m, 's) parser_config \<Rightarrow> bytes \<Rightarrow> 'm parser \<Rightarrow> 's \<Rightarrow> (fault + (Error + unit) \<times> 'm parser \<times> 's) option" where
  "push_data cfg data p s =
     (case bip_write data (buffer p) of
        (False, b) \<Rightarrow> Some (Inr (Inl (mk_error ErrorCode_BufferOverflow ''Buffer overflow''), p\<lparr>buffer := b\<rparr>, s))
      | (True, b) \<Rightarrow>
          map_option (map_sum id (\<lambda>(p, s). (Inr (), p, s))) (try_parse_packets cfg (p\<lparr>buffer := b\<rparr>) s))"

definition parser_get_write_buffer :: "'m parser \<Rightarrow> span" where
  "parser_get_write_buffer p = get_write_buffer (buffer p)"

definition parser_advance_write_index ::
  "('m, 's) parser_config \<Rightarrow> nat \<Rightarrow> 'm parser \<Rightarrow> 's \<Rightarrow> (fault + (Error + unit) \<times> 'm parser \<times> 's) option" where
  "parser_advance_write_index cfg len p s =
     (case advance_write_index len (buffer p) of
        (False, b) \<Rightarrow>
          Some (Inr (Inl (mk_error ErrorCode_BufferOverflow ''Invalid advance length''), p\<lparr>buffer := b\<rparr>, s))
      | (True, b) \<Rightarrow>
          map_option (map_sum id (\<lambda>(p, s). (Inr (), p, s))) (try_parse_packets cfg (p\<lparr>buffer := b\<rparr>) s))"

definition available_data :: "'m parser \<Rightarrow> nat" where
  "available_data p = bip_available (buffer p)"

definition available_space :: "'m parser \<Rightarrow> nat" where
  "available_space p = bip_space (buffer p)"

definition is_buffer_full :: "'m parser \<Rightarrow> bool" where
  "is_buffer_full p = bip_full (buffer p)"

definition clear_buffer :: "'m parser \<Rightarrow> 'm parser" where
  "clear_buffer p = p\<lparr>buffer := bip_clear (buffer p)\<rparr>"

end
