(* ===== verification/Frame_Scanner.thy ===== *)
theory Frame_Scanner
  imports Prelude
begin

text \<open>
  The contract of a stream parser, on lists of bytes: skip to a start byte, ask for a verdict on what
  follows, drop one byte on \<open>Bad\<close>, a whole frame on \<open>Frame\<close>, and stop on \<open>Need\<close>. A verdict other than
  \<open>Need\<close> does not change when more bytes arrive; from that law alone the frames found do not depend on
  how the stream is cut into chunks.
\<close>

datatype 'e verdict = Need | Bad | Frame nat 'e

function scan :: "('b \<Rightarrow> bool) \<Rightarrow> ('b list \<Rightarrow> 'e verdict) \<Rightarrow> 'b list \<Rightarrow> 'e list \<times> 'b list" where
  "scan start judge [] = ([], [])"
| "scan start judge (x # xs) =
     (if \<not> start x then scan start judge xs
      else case judge (x # xs) of
             Need \<Rightarrow> ([], x # xs)
           | Bad \<Rightarrow> scan start judge xs
           | Frame n e \<Rightarrow> (let (es, r) = scan start judge (drop (n - 1) xs) in (e # es, r)))"
  by pat_completeness auto
termination by (relation "measure (\<lambda>(start, judge, xs). length xs)") auto

text \<open>Feeding chunks one after the other, each with what the previous scan left.\<close>

fun scan_chunks :: "('b \<Rightarrow> bool) \<Rightarrow> ('b list \<Rightarrow> 'e verdict) \<Rightarrow> 'b list list \<Rightarrow> 'b list \<Rightarrow> 'e list \<times> 'b list" where
  "scan_chunks start judge [] r = ([], r)"
| "scan_chunks start judge (c # cs) r =
     (let (es, r) = scan start judge (r @ c); (es', r) = scan_chunks start judge cs r in (es @ es', r))"

lemma scan_skip:
  "\<forall>x\<in>set xs. \<not> start x \<Longrightarrow> scan start judge (xs @ ys) = scan start judge ys"
  by (induction xs) simp_all

lemma scan_no_start: "\<forall>x\<in>set xs. \<not> start x \<Longrightarrow> scan start judge xs = ([], [])"
  using scan_skip [of xs start judge "[]"] by simp

lemma length_scan: "scan start judge xs = (es, r) \<Longrightarrow> length r \<le> length xs"
proof (induction start judge xs arbitrary: es r rule: scan.induct)
  case (1 start judge)
  then show ?case by simp
next
  case (2 start judge x xs)
  show ?case
  proof (cases "judge (x # xs)")
    case (Frame n e)
    obtain es' r' where s: "scan start judge (drop (n - 1) xs) = (es', r')" by fastforce
    show ?thesis
    proof (cases "start x")
      case True
      then have "length r' \<le> length (drop (n - 1) xs)" using 2(3) [OF _ Frame s] by simp
      then show ?thesis using 2(4) True Frame s by (auto simp: Let_def)
    next
      case False
      then show ?thesis using 2(1) [of es r] 2(4) by simp
    qed
  qed (use 2 in \<open>auto split: if_splits\<close>)
qed

locale frame_scanner =
  fixes start :: "'b \<Rightarrow> bool"
    and judge :: "'b list \<Rightarrow> 'e verdict"
  assumes frame_length: "judge xs = Frame n e \<Longrightarrow> n \<le> length xs"
    and stable: "judge xs \<noteq> Need \<Longrightarrow> judge (xs @ ys) = judge xs"
begin

lemma scan_rest:
  "scan start judge xs = (es, r) \<Longrightarrow>
     scan start judge r = ([], r) \<and> (r = [] \<or> start (hd r) \<and> judge r = Need)"
proof (induction xs arbitrary: es r rule: length_induct)
  case (1 xs)
  show ?case
  proof (cases xs)
    case Nil
    then show ?thesis using 1(2) by simp
  next
    case (Cons x xs')
    have skip: ?thesis if "scan start judge xs' = (es, r)"
      by (rule 1(1) [rule_format, of xs' es r]) (simp_all add: Cons that)
    show ?thesis
    proof (cases "judge (x # xs')")
      case (Frame n e)
      obtain es' r' where s: "scan start judge (drop (n - 1) xs') = (es', r')" by fastforce
      have "scan start judge r' = ([], r') \<and> (r' = [] \<or> start (hd r') \<and> judge r' = Need)"
        by (rule 1(1) [rule_format, of "drop (n - 1) xs'" es' r']) (simp_all add: Cons s [simplified])
      then show ?thesis using 1(2) s Frame skip by (cases "start x") (simp_all add: Cons)
    qed (use 1(2) skip in \<open>auto simp: Cons split: if_splits\<close>)
  qed
qed

text \<open>What was found in a prefix of the stream is found again, and the rest is scanned as before.\<close>

lemma scan_append:
  "scan start judge xs = (es, r) \<Longrightarrow>
     scan start judge (xs @ ys) = (let (es', r') = scan start judge (r @ ys) in (es @ es', r'))"
proof (induction xs arbitrary: es r rule: length_induct)
  case (1 xs)
  show ?case
  proof (cases xs)
    case Nil
    then show ?thesis using 1(2) by simp
  next
    case (Cons x xs')
    have skip: ?thesis if "scan start judge xs' = (es, r)" and
      "scan start judge (xs @ ys) = scan start judge (xs' @ ys)"
      using 1(1) that by (simp add: Cons)
    show ?thesis
    proof (cases "judge (x # xs')")
      case Need
      then show ?thesis using 1(2) skip by (cases "start x") (simp_all add: Cons)
    next
      case Bad
      then have "judge (xs @ ys) = Bad" using stable [of xs ys] by (simp add: Cons)
      then show ?thesis using 1(2) skip Bad by (cases "start x") (simp_all add: Cons)
    next
      case (Frame n e)
      then have f: "judge (xs @ ys) = Frame n e" using stable [of xs ys] by (simp add: Cons)
      have n: "n \<le> Suc (length xs')" using frame_length [of xs] Frame by (simp add: Cons)
      obtain es' r' where s: "scan start judge (drop (n - 1) xs') = (es', r')" by fastforce
      have "length (drop (n - 1) xs') < length xs" by (simp add: Cons)
      then have "scan start judge (drop (n - 1) xs' @ ys) = (let (es'', r'') = scan start judge (r' @ ys) in (es' @ es'', r''))"
        using 1(1) s by blast
      moreover have "drop (n - 1) (xs' @ ys) = drop (n - 1) xs' @ ys" using n by simp
      ultimately show ?thesis
        using 1(2) skip s f Frame by (cases "start x") (auto simp: Cons split: prod.splits)
    qed
  qed
qed

lemma scan_chunks_concat:
  assumes "scan start judge r = ([], r)"
  shows "scan_chunks start judge cs r = scan start judge (r @ concat cs)"
  using assms
proof (induction cs arbitrary: r)
  case Nil
  then show ?case by simp
next
  case (Cons c cs)
  obtain es r' where s: "scan start judge (r @ c) = (es, r')" by fastforce
  then have "scan_chunks start judge cs r' = scan start judge (r' @ concat cs)"
    using Cons.IH scan_rest by blast
  then show ?case using s scan_append [OF s, of "concat cs"] by simp
qed

text \<open>A stream of frames, each judged whole, with bytes that start nothing between them.\<close>

lemma scan_frames:
  assumes "\<forall>(g, f, e)\<in>set fs. (\<forall>x\<in>set g. \<not> start x) \<and> f \<noteq> [] \<and> start (hd f) \<and> judge f = Frame (length f) e"
  shows "scan start judge (concat (map (\<lambda>(g, f, e). g @ f) fs)) = (map (\<lambda>(g, f, e). e) fs, [])"
  using assms
proof (induction fs)
  case Nil
  then show ?case by simp
next
  case (Cons p fs)
  obtain g f e where p: "p = (g, f, e)" by (cases p)
  let ?rest = "concat (map (\<lambda>(g, f, e). g @ f) fs)"
  have g: "\<forall>x\<in>set g. \<not> start x" and f: "f \<noteq> []" "start (hd f)" "judge f = Frame (length f) e"
    using Cons.prems by (auto simp: p)
  then obtain x xs where x: "f = x # xs" by (cases f) auto
  have "judge (f @ ?rest) = Frame (length f) e" using stable [of f ?rest] f by simp
  then have "scan start judge (f @ ?rest) = (e # map (\<lambda>(g, f, e). e) fs, [])"
    using f Cons by (simp add: x)
  then show ?case using scan_skip [OF g, of judge "f @ ?rest"] by (simp add: p)
qed

end

end
