(* ===== verification/Parser_Spec.thy ===== *)
theory Parser_Spec
  imports Parser Frame_Scanner
begin

text \<open>
  What the parser promises, over the queue of bytes instead of the two spans of the ring: the verdict
  on a frame (\<open>classify\<close>), the events of a stream (\<open>Frame_Scanner.scan\<close>) and their delivery. The
  refinement: on a well-formed configuration \<open>try_parse_packets\<close> returns, and what it leaves is the
  scan of the contents.
\<close>

section \<open>Verdicts and delivery\<close>

definition classify :: "nat \<Rightarrow> worker \<Rightarrow> bytes \<Rightarrow> (u16 \<times> bytes) verdict" where
  "classify M W xs =
     (let P = w_protocol W; header = take (header_size P) xs; (n, cmd) = worker_fields W header
      in if length xs < header_size P then Need
         else if has_second_byte P \<and> header ! 1 \<noteq> second_byte P then Bad
         else if has_header_crc P \<and> crc_calc ProtocolCRC8 (take 4 header) (null_crc ProtocolCRC8) \<noteq> header ! 4
         then Bad
         else if \<not> is_fixed W \<and> n > M - header_size P - tail_size P then Bad
         else if length xs < header_size P + n + tail_size P then Need
         else if tail_size P > 0 \<and>
           rpl_crc P (take (header_size P + n) xs) (rpl_crc_null P)
             \<noteq> le_val (take (tail_size P) (drop (header_size P + n) xs))
         then Bad
         else Frame (header_size P + n + tail_size P) (cmd, mem_read xs (header_size P) n))"

definition is_start :: "('m, 's) parser_config \<Rightarrow> u8 \<Rightarrow> bool" where
  "is_start cfg x =
     (let sb = unique_start_byte (lut cfg) in if sb \<noteq> 0xFF then x = sb else lut cfg ! unat x \<noteq> 0xFF)"

definition judge :: "('m, 's) parser_config \<Rightarrow> bytes \<Rightarrow> (u16 \<times> bytes) verdict" where
  "judge cfg xs =
     (case xs of
        [] \<Rightarrow> Need
      | x # _ \<Rightarrow>
          let i = unat (lut cfg ! unat x)
          in if i < length (workers cfg) then classify (calculate_max_frame_size (packets cfg)) (workers cfg ! i) xs
             else Need)"

text \<open>The effect of one event on the pool and the caller's state.\<close>

definition deliver :: "('m, 's) parser_config \<Rightarrow> u16 \<times> bytes \<Rightarrow> deserializer \<times> 's \<Rightarrow> deserializer \<times> 's" where
  "deliver cfg ev ds =
     (case (ev, ds) of ((cmd, payload), (d, s)) \<Rightarrow>
        (case get_type_index_by_cmd (packets cfg) cmd of
           None \<Rightarrow> (d, s)
         | Some i \<Rightarrow>
             let T = packets cfg ! i
             in (if pt_skip_memory_pool T then d else des_put (packets cfg) i payload d,
                 if pt_after_parse T then after_parse cfg T payload s else s)))"

text \<open>Payloads of registered commands have the length the traits declare.\<close>

definition conforming :: "('m, 's) parser_config \<Rightarrow> u16 \<times> bytes \<Rightarrow> bool" where
  "conforming cfg ev \<longleftrightarrow>
     list_all (\<lambda>T. pt_cmd T = fst ev \<longrightarrow> length (snd ev) = pt_size T) (packets cfg)"

section \<open>Well-formed configurations\<close>

definition wf_protocol :: "protocol \<Rightarrow> bool" where
  "wf_protocol P \<longleftrightarrow>
     1 \<le> header_size P \<and> (tail_size P = 0 \<or> tail_size P = 2) \<and>
     (\<forall>xs ys c. rpl_crc P (xs @ ys) c = rpl_crc P ys (rpl_crc P xs c))"

definition wf_config :: "('m, 's) parser_config \<Rightarrow> bool" where
  "wf_config cfg \<longleftrightarrow>
     distinct (map pt_cmd (packets cfg)) \<and>
     (\<forall>T\<in>set (packets cfg). sizeof (pt_type T) = pt_size T \<and> 0 < pt_size T) \<and>
     (\<forall>W\<in>set (workers cfg). wf_protocol (w_protocol W) \<and>
        header_size (w_protocol W) + fixed_size W + tail_size (w_protocol W)
          \<le> calculate_max_frame_size (packets cfg)) \<and>
     (\<forall>x. is_start cfg x \<longrightarrow> unat (lut cfg ! unat x) < length (workers cfg))"

section \<open>The verdict is a frame scanner\<close>

lemma classify_frame_length: "classify M W xs = Frame n e \<Longrightarrow> n \<le> length xs"
  by (auto simp: classify_def Let_def split: if_splits prod.splits)

lemma classify_frame_payload:
  assumes "classify M W xs = Frame k (cmd, payload)"
  shows "k = header_size (w_protocol W) + length payload + tail_size (w_protocol W)"
    and "mem_read xs (header_size (w_protocol W)) (length payload) = payload"
  using assms by (auto simp: classify_def Let_def split: if_splits prod.splits)

lemma classify_stable:
  assumes "classify M W xs \<noteq> Need"
  shows "classify M W (xs @ ys) = classify M W xs"
proof -
  let ?h = "header_size (w_protocol W)" and ?t = "tail_size (w_protocol W)"
  obtain n cmd where f: "worker_fields W (take ?h xs) = (n, cmd)" by fastforce
  have h: "?h \<le> length xs" using assms by (simp add: classify_def Let_def f split: if_splits)
  then have take_h: "take ?h (xs @ ys) = take ?h xs" by simp
  show ?thesis
  proof (cases "?h + n + ?t \<le> length xs")
    case True
    then have "take (?h + n) (xs @ ys) = take (?h + n) xs"
      and "take ?t (drop (?h + n) (xs @ ys)) = take ?t (drop (?h + n) xs)"
      and "mem_read (xs @ ys) ?h n = mem_read xs ?h n"
      by (simp_all add: mem_read_def)
    then show ?thesis using h True unfolding classify_def Let_def take_h f by simp
  next
    case False
    then show ?thesis using h assms unfolding classify_def Let_def take_h f by (auto split: if_splits)
  qed
qed

interpretation fs: frame_scanner "is_start cfg" "judge cfg" for cfg :: "('m, 's) parser_config"
proof (unfold_locales, goal_cases)
  case (1 xs n e)
  then show ?case by (auto simp: judge_def Let_def dest: classify_frame_length split: if_splits list.splits)
next
  case (2 xs ys)
  show ?case
  proof (cases xs)
    case Nil
    then show ?thesis using 2 by (simp add: judge_def)
  next
    case (Cons x xs')
    then show ?thesis using 2 classify_stable [of _ _ "x # xs'" ys] by (auto simp: judge_def Let_def split: if_splits)
  qed
qed

section \<open>The wrap of the ring is invisible\<close>

definition span_data :: "bip \<Rightarrow> span option \<Rightarrow> bytes" where
  "span_data b sp = (case sp of None \<Rightarrow> [] | Some sp \<Rightarrow> span_bytes b sp)"

lemma header_bytes:
  assumes "bip_inv b" and "h \<le> bip_available b" and "get_read_spans 0 h b = (hs1, hs2)"
  shows "(if snd hs2 = 0 then span_bytes b hs1
          else case bip_peek 0 h b of None \<Rightarrow> [] | Some d \<Rightarrow> d) = take h (bip_contents b)"
proof -
  have "span_bytes b hs2 = []" if "snd hs2 = 0" using that by (simp add: span_bytes_def mem_read_def)
  then show ?thesis
    using get_read_spans_bytes [OF assms(1) _ assms(3)] assms(1,2)
    by (cases "snd hs2 = 0") (simp_all add: bip_peek_contents mem_read_start)
qed

lemma segmented_crc_append:
  assumes "\<And>xs ys c. rpl_crc P (xs @ ys) c = rpl_crc P ys (rpl_crc P xs c)"
  shows "segmented_crc P s1 s2 n = rpl_crc P (take n (s1 @ s2)) (rpl_crc_null P)"
proof (cases "n \<le> length s1")
  case True
  then have "take n (s1 @ s2) = take n s1" by simp
  then show ?thesis using True by (simp only: segmented_crc_def if_True)
next
  case False
  then have "take n (s1 @ s2) = s1 @ take (n - length s1) s2" by simp
  then show ?thesis using False by (simp only: segmented_crc_def if_False assms)
qed

lemma segmented_recv_crc_append:
  assumes "n + 2 \<le> length s1 + length s2"
  shows "segmented_recv_crc s1 s2 n = le_val (take 2 (drop n (s1 @ s2)))"
proof -
  consider "n + 2 \<le> length s1" | "length s1 \<le> n" | "length s1 = n + 1" by linarith
  then show ?thesis
  proof cases
    case 3
    then obtain pre x where s1: "s1 = pre @ [x]" "length pre = n"
      by (metis append_butlast_last_id length_butlast add_diff_cancel_right' add_eq_0_iff_both_eq_0
          list.size(3) one_neq_zero)
    obtain y ys where s2: "s2 = y # ys" using assms 3 by (cases s2) auto
    have "(if n + 2 \<le> length s1 then a else if length s1 \<le> n then b else c) = c" for a b c :: u16
      using 3 by simp
    then show ?thesis by (simp add: segmented_recv_crc_def s1 s2 nth_append flip: s1(2))
  qed (simp_all add: segmented_recv_crc_def mem_read_def)
qed

lemma payload_spans_data:
  assumes "bip_inv b" and "h = header_size P" and "h + n + t \<le> bip_available b"
    and "get_read_spans 0 (h + n + t) b = (s1, s2)" and "payload_spans P n s1 s2 = (p1, p2)"
  shows "span_data b p1 @ span_data b p2 = mem_read (bip_contents b) h n"
    and "length (span_data b p1) = (case p1 of None \<Rightarrow> 0 | Some sp \<Rightarrow> snd sp)"
    and "length (span_data b p2) = (case p2 of None \<Rightarrow> 0 | Some sp \<Rightarrow> snd sp)"
    and "p1 = None \<Longrightarrow> length (span_data b p2) = n"
    and "case p1 of None \<Rightarrow> True | Some sp \<Rightarrow> fst sp + snd sp \<le> bip_size b"
proof -
  have all: "span_bytes b s1 @ span_bytes b s2 = take (h + n + t) (bip_contents b)"
    using get_read_spans_bytes [OF assms(1) _ assms(4)] assms(3) by (simp add: mem_read_start)
  have len: "snd s1 + snd s2 = h + n + t" using get_read_spans_length [OF _ assms(4)] assms(3) by simp
  have mem: "fst s1 + snd s1 \<le> bip_size b" "fst s2 + snd s2 \<le> bip_size b"
    using get_read_spans_in_mem [OF assms(1,4)] by auto
  have "mem_read (bip_contents b) h n = mem_read (span_bytes b s1 @ span_bytes b s2) h n"
    by (simp add: all mem_read_def drop_take)
  also have "\<dots> = mem_read (span_bytes b s1) h n @ mem_read (span_bytes b s2) (h - snd s1) (n - (snd s1 - h))"
    using mem by (simp add: mem_read_append_lists)
  finally have split: "mem_read (bip_contents b) h n =
      mem_read (span_bytes b s1) h n @ mem_read (span_bytes b s2) (h - snd s1) (n - (snd s1 - h))" .
  show "span_data b p1 @ span_data b p2 = mem_read (bip_contents b) h n"
    using assms(5) len unfolding split
    by (auto simp: payload_spans_def span_data_def span_bytes_def mem_read_mem_read Let_def assms(2)
        min_def split: if_splits)
  show "length (span_data b p1) = (case p1 of None \<Rightarrow> 0 | Some sp \<Rightarrow> snd sp)"
    and "length (span_data b p2) = (case p2 of None \<Rightarrow> 0 | Some sp \<Rightarrow> snd sp)"
    and "p1 = None \<Longrightarrow> length (span_data b p2) = n"
    and "case p1 of None \<Rightarrow> True | Some sp \<Rightarrow> fst sp + snd sp \<le> bip_size b"
    using assms(2,5) len mem by (auto simp: payload_spans_def span_data_def Let_def split: if_splits)
qed

lemma get_type_index_by_cmd_Nil [simp]: "get_type_index_by_cmd [] cmd = None"
  by (simp add: get_type_index_by_cmd_def)

lemma get_type_index_by_cmd_Cons:
  "get_type_index_by_cmd (T # Ts) cmd =
     (if pt_cmd T = cmd then Some 0 else map_option Suc (get_type_index_by_cmd Ts cmd))"
  by (simp add: get_type_index_by_cmd_eq is_valid_cmd_def)

lemma get_type_index_nth:
  assumes "distinct (map pt_cmd Ts)" and "T \<in> set Ts"
  shows "\<exists>i. get_type_index_by_cmd Ts (pt_cmd T) = Some i \<and> Ts ! i = T"
  using assms
proof (induction Ts)
  case (Cons A Ts)
  show ?case
  proof (cases "pt_cmd A = pt_cmd T")
    case True
    then have "A = T" using Cons.prems by (auto simp: image_iff)
    then show ?thesis by (simp add: get_type_index_by_cmd_Cons)
  next
    case False
    then have "T \<in> set Ts" using Cons.prems by auto
    then obtain i where "get_type_index_by_cmd Ts (pt_cmd T) = Some i" "Ts ! i = T" using Cons by auto
    then show ?thesis using False by (intro exI [of _ "Suc i"]) (simp add: get_type_index_by_cmd_Cons)
  qed
qed simp

lemma dispatch_index:
  "dispatch cfg b Ts cmd p1 p2 s =
     (case get_type_index_by_cmd Ts cmd of
        None \<Rightarrow> Inr (False, s)
      | Some i \<Rightarrow> try_dispatch cfg b (Ts ! i) p1 p2 s)"
  by (induction Ts) (auto simp: get_type_index_by_cmd_Cons split: option.splits)

text \<open>The callback gets exactly the payload, whichever spans hold it.\<close>

lemma try_dispatch_payload:
  assumes "length (span_data b p1) = (case p1 of None \<Rightarrow> 0 | Some sp \<Rightarrow> snd sp)"
    and "length (span_data b p2) = (case p2 of None \<Rightarrow> 0 | Some sp \<Rightarrow> snd sp)"
    and "p1 = None \<Longrightarrow> length (span_data b p2) = n"
    and "case p1 of None \<Rightarrow> True | Some sp \<Rightarrow> fst sp + snd sp \<le> bip_size b"
    and "span_data b p1 @ span_data b p2 = payload" and "length payload = n"
    and "sizeof (pt_type T) = n" and "pt_size T = n" and "0 < n"
  shows "try_dispatch cfg b T p1 p2 s =
    Inr (pt_skip_memory_pool T, if pt_after_parse T then after_parse cfg T payload s else s)"
proof -
  let ?d1 = "span_data b p1" and ?d2 = "span_data b p2"
  have l1: "(case p1 of None \<Rightarrow> 0 | Some sp \<Rightarrow> snd sp) = length ?d1"
    and l2: "(case p2 of None \<Rightarrow> 0 | Some sp \<Rightarrow> snd sp) = length ?d2"
    using assms(1,2) by simp_all
  have sum: "length ?d1 + length ?d2 = n" using assms(5,6) by (metis length_append)
  note unfolded = try_dispatch_def Let_def l1 l2 assms(7,8) span_data_def [symmetric]
  show ?thesis
  proof (cases "length ?d2 = 0")
    case True
    then obtain off k where p1: "p1 = Some (off, k)" using assms(3,9) by (cases p1) auto
    have k: "k = n" using sum True assms(1) by (simp add: p1)
    have "off + n \<le> bip_size b" using assms(4) by (simp add: p1 k)
    moreover have "mem_read (bip_mem b) off n = payload"
      using True assms(5) by (simp add: p1 k span_data_def span_bytes_def)
    ultimately show ?thesis unfolding unfolded by (simp add: True p1)
  next
    case False
    have "mem_write (mem_write (replicate n 0) 0 ?d1) (length ?d1) ?d2 = ?d1 @ ?d2"
      using mem_write_mem_write_adjacent [of 0 ?d1 ?d2 "replicate n 0"] sum by (simp add: mem_write_def)
    then show ?thesis using False assms(5,6) sum unfolding unfolded by simp
  qed
qed

lemma deliver_unknown: "get_type_index_by_cmd (packets cfg) cmd = None \<Longrightarrow> deliver cfg (cmd, payload) ds = ds"
  by (cases ds) (simp add: deliver_def)

lemma wf_config_index:
  assumes "wf_config cfg" and "get_type_index_by_cmd (packets cfg) cmd = Some i"
  shows "i < length (packets cfg)" and "pt_cmd (packets cfg ! i) = cmd"
    and "sizeof (pt_type (packets cfg ! i)) = pt_size (packets cfg ! i)" and "0 < pt_size (packets cfg ! i)"
    and "distinct (map pt_cmd (packets cfg))"
  using assms get_type_index_by_cmd_Some [OF assms(2)] by (auto simp: wf_config_def)

lemma conforming_index:
  assumes "wf_config cfg" and "conforming cfg (cmd, payload)" and "get_type_index_by_cmd (packets cfg) cmd = Some i"
  shows "length payload = pt_size (packets cfg ! i)"
  using assms(2) wf_config_index [OF assms(1,3)] by (auto simp: conforming_def list_all_length)

lemma deliver_inv:
  assumes "wf_config cfg" and "conforming cfg ev" and "des_inv (packets cfg) (fst ds)"
  shows "des_inv (packets cfg) (fst (deliver cfg ev ds))"
proof (cases "get_type_index_by_cmd (packets cfg) (fst ev)")
  case None
  then show ?thesis using assms(3) deliver_unknown [of cfg "fst ev" "snd ev" ds] by simp
next
  case (Some i)
  have "length (snd ev) = pt_size (packets cfg ! i)"
    using conforming_index [OF assms(1) _ Some, of "snd ev"] assms(2) by simp
  then show ?thesis using assms(3) wf_config_index [OF assms(1) Some] des_put_inv [OF assms(3), of i "snd ev"] Some
    by (cases ev; cases ds) (simp add: deliver_def Let_def)
qed

text \<open>Dispatch and pool write together are the delivery of the event.\<close>

definition dispatch_and_store ::
  "('m, 's) parser_config \<Rightarrow> bip \<Rightarrow> u16 \<Rightarrow> span option \<Rightarrow> span option \<Rightarrow> deserializer \<Rightarrow> 's
     \<Rightarrow> fault + deserializer \<times> 's" where
  "dispatch_and_store cfg b cmd p1 p2 d s =
     (case dispatch cfg b (packets cfg) cmd p1 p2 s of
        Inl f \<Rightarrow> Inl f
      | Inr (skip_pool, s) \<Rightarrow>
          (case (if skip_pool then Some d
                 else des_write_segmented (packets cfg) cmd (span_data b p1) (span_data b p2) d) of
             None \<Rightarrow> Inl Out_Of_Bounds
           | Some d \<Rightarrow> Inr (d, s)))"

lemma dispatch_and_store_deliver:
  assumes wf: "wf_config cfg" and inv: "bip_inv b" and dinv: "des_inv (packets cfg) d"
    and h: "h = header_size P" and avail: "h + n + t \<le> bip_available b"
    and sp: "get_read_spans 0 (h + n + t) b = (s1, s2)" "payload_spans P n s1 s2 = (p1, p2)"
    and conf: "conforming cfg (cmd, mem_read (bip_contents b) h n)"
  shows "dispatch_and_store cfg b cmd p1 p2 d s = Inr (deliver cfg (cmd, mem_read (bip_contents b) h n) (d, s))"
proof -
  let ?payload = "mem_read (bip_contents b) h n"
  note data = payload_spans_data [OF inv h avail sp]
  have len: "length ?payload = n" using inv avail by simp
  show ?thesis
  proof (cases "get_type_index_by_cmd (packets cfg) cmd")
    case None
    then have "cmd \<notin> pt_cmd ` set (packets cfg)"
      by (auto simp: get_type_index_by_cmd_eq is_valid_cmd_iff split: if_splits)
    then show ?thesis using None des_write_unknown
      by (simp add: dispatch_and_store_def dispatch_index deliver_unknown)
  next
    case (Some i)
    note i = wf_config_index [OF wf Some]
    have size: "pt_size (packets cfg ! i) = n" using conforming_index [OF wf conf Some] len by simp
    then have td: "try_dispatch cfg b (packets cfg ! i) p1 p2 s =
        Inr (pt_skip_memory_pool (packets cfg ! i),
          if pt_after_parse (packets cfg ! i) then after_parse cfg (packets cfg ! i) ?payload s else s)"
      using i by (intro try_dispatch_payload [OF data(2-5) data(1) len]) simp_all
    have "length (span_data b p1) + length (span_data b p2) = n"
      using data(1) len by (metis length_append)
    then have "des_write_segmented (packets cfg) cmd (span_data b p1) (span_data b p2) d =
        Some (des_put (packets cfg) i ?payload d)"
      using des_write_segmented_eq [OF dinv i(5,1), of "span_data b p1" "span_data b p2"] i(2,3) size data(1) by simp
    then show ?thesis using Some td by (simp add: dispatch_and_store_def dispatch_index deliver_def Let_def)
  qed
qed

lemma segmented_crcs:
  assumes "wf_protocol P" and inv: "bip_inv b" and fits: "header_size P + n + tail_size P \<le> bip_available b"
    and sp: "get_read_spans 0 (header_size P + n + tail_size P) b = (s1, s2)"
  shows "segmented_crc P (span_bytes b s1) (span_bytes b s2) (header_size P + n) =
      rpl_crc P (take (header_size P + n) (bip_contents b)) (rpl_crc_null P)"
    and "0 < tail_size P \<Longrightarrow> segmented_recv_crc (span_bytes b s1) (span_bytes b s2) (header_size P + n) =
      le_val (take (tail_size P) (drop (header_size P + n) (bip_contents b)))"
proof -
  let ?h = "header_size P" and ?t = "tail_size P" and ?xs = "bip_contents b"
  have all: "span_bytes b s1 @ span_bytes b s2 = take (?h + n + ?t) ?xs"
    using get_read_spans_bytes [OF inv _ sp] fits by (simp add: mem_read_start)
  then have l: "length (span_bytes b s1) + length (span_bytes b s2) = ?h + n + ?t"
    using fits inv by (metis length_append length_take min_absorb2 length_bip_contents)
  show "segmented_crc P (span_bytes b s1) (span_bytes b s2) (?h + n) = rpl_crc P (take (?h + n) ?xs) (rpl_crc_null P)"
    using assms(1) by (subst segmented_crc_append) (auto simp: wf_protocol_def all)
  assume "0 < ?t"
  then have t: "?t = 2" using assms(1) by (auto simp: wf_protocol_def)
  show "segmented_recv_crc (span_bytes b s1) (span_bytes b s2) (?h + n) = le_val (take ?t (drop (?h + n) ?xs))"
    using l by (subst segmented_recv_crc_append) (simp_all add: all t drop_take)
qed

text \<open>\<open>parse_frame_impl\<close> up to the dispatch: it judges the bytes of the ring as \<open>classify\<close> does.\<close>

lemma parse_frame_dispatch:
  assumes wf: "wf_config cfg" and W: "W \<in> set (workers cfg)" and inv: "bip_inv (buffer p)"
  shows "parse_frame_impl cfg W p s =
    (case classify (calculate_max_frame_size (packets cfg)) W (bip_contents (buffer p)) of
       Need \<Rightarrow> Inr (Incomplete, p, s)
     | Bad \<Rightarrow> Inr (Failure, p, s)
     | Frame k (cmd, payload) \<Rightarrow>
         let (s1, s2) = get_read_spans 0 k (buffer p);
             (p1, p2) = payload_spans (w_protocol W) (length payload) s1 s2
         in case dispatch_and_store cfg (buffer p) cmd p1 p2 (deser p) s of
              Inl f \<Rightarrow> Inl f
            | Inr (d, s) \<Rightarrow> Inr (Success, p\<lparr>buffer := snd (bip_discard k (buffer p)), deser := d\<rparr>, s))"
proof -
  let ?P = "w_protocol W" and ?M = "calculate_max_frame_size (packets cfg)" and ?b = "buffer p"
  let ?h = "header_size ?P" and ?t = "tail_size ?P" and ?xs = "bip_contents (buffer p)"
  have wfP: "wf_protocol ?P" using wf W by (simp add: wf_config_def)
  have len: "length ?xs = bip_available ?b" using inv by simp
  obtain hs1 hs2 where hs: "get_read_spans 0 ?h ?b = (hs1, hs2)" by (rule prod.exhaust)
  obtain n cmd where f: "worker_fields W (take ?h ?xs) = (n, cmd)" by fastforce
  let ?total = "?h + n + ?t"
  obtain s1 s2 where sp: "get_read_spans 0 ?total ?b = (s1, s2)" by (rule prod.exhaust)
  obtain p1 p2 where ps: "payload_spans ?P n s1 s2 = (p1, p2)" by (rule prod.exhaust)
  let ?second = "has_second_byte ?P \<and> take ?h ?xs ! 1 \<noteq> second_byte ?P"
    and ?crc8 = "has_header_crc ?P \<and> crc_calc ProtocolCRC8 (take 4 (take ?h ?xs)) (null_crc ProtocolCRC8) \<noteq> take ?h ?xs ! 4"
    and ?long = "\<not> is_fixed W \<and> n > ?M - ?h - ?t"
    and ?crc16 = "0 < ?t \<and> rpl_crc ?P (take (?h + n) ?xs) (rpl_crc_null ?P) \<noteq> le_val (take ?t (drop (?h + n) ?xs))"
  consider (header) "bip_available ?b < ?h" | (bad) "?h \<le> bip_available ?b" "?second \<or> ?crc8 \<or> ?long"
    | (short) "?h \<le> bip_available ?b" "\<not> ?second" "\<not> ?crc8" "\<not> ?long" "bip_available ?b < ?total"
    | (all) "?h \<le> bip_available ?b" "\<not> ?second" "\<not> ?crc8" "\<not> ?long" "?total \<le> bip_available ?b" by linarith
  then show ?thesis
  proof cases
    case header
    then show ?thesis by (simp add: parse_frame_impl_def classify_def Let_def len)
  next
    case bad
    note impl = parse_frame_impl_def [of cfg W p s, unfolded Let_def hs prod.case header_bytes [OF inv bad(1) hs] f sp ps]
    from bad show ?thesis unfolding impl by (auto simp: classify_def Let_def f len)
  next
    case short
    note impl = parse_frame_impl_def [of cfg W p s, unfolded Let_def hs prod.case header_bytes [OF inv short(1) hs] f sp ps]
    from short show ?thesis unfolding impl by (auto simp: classify_def Let_def f len)
  next
    case all
    note impl = parse_frame_impl_def [of cfg W p s, unfolded Let_def hs prod.case header_bytes [OF inv all(1) hs] f sp ps]
    have guards: "(bip_available ?b < ?h) = False" "?second = False" "?crc8 = False" "?long = False"
      "(bip_available ?b < ?total) = False" using all by auto
    note crcs = segmented_crcs [OF wfP inv all(5) sp]
    have crc: "(0 < ?t \<and> segmented_crc ?P (span_bytes ?b s1) (span_bytes ?b s2) (?total - ?t)
        \<noteq> segmented_recv_crc (span_bytes ?b s1) (span_bytes ?b s2) (?total - ?t)) = ?crc16"
      using crcs by auto
    have "classify ?M W ?xs = (if ?crc16 then Bad else Frame ?total (cmd, mem_read ?xs ?h n))"
    proof (cases ?crc16)
      case True
      with all show ?thesis by (auto simp: classify_def Let_def f len)
    next
      case False
      with all show ?thesis by (auto simp: classify_def Let_def f len)
    qed
    moreover have "length (mem_read ?xs ?h n) = n" using all(5) len by simp
    ultimately show ?thesis
      unfolding impl guards crc if_False dispatch_and_store_def span_data_def
      by (cases ?crc16; simp only: if_True if_False verdict.case prod.case Let_def sp ps simp_thms)
        (simp split: sum.split option.split)
  qed
qed

lemma parse_frame_classify:
  assumes wf: "wf_config cfg" and W: "W \<in> set (workers cfg)"
    and inv: "bip_inv (buffer p)" and dinv: "des_inv (packets cfg) (deser p)"
    and conf: "\<And>n ev. classify (calculate_max_frame_size (packets cfg)) W (bip_contents (buffer p)) = Frame n ev
      \<Longrightarrow> conforming cfg ev"
  shows "parse_frame_impl cfg W p s =
    (case classify (calculate_max_frame_size (packets cfg)) W (bip_contents (buffer p)) of
       Need \<Rightarrow> Inr (Incomplete, p, s)
     | Bad \<Rightarrow> Inr (Failure, p, s)
     | Frame n ev \<Rightarrow>
         let (d, s) = deliver cfg ev (deser p, s)
         in Inr (Success, p\<lparr>buffer := snd (bip_discard n (buffer p)), deser := d\<rparr>, s))"
proof (cases "classify (calculate_max_frame_size (packets cfg)) W (bip_contents (buffer p))")
  case (Frame k ev)
  obtain cmd payload where ev: "ev = (cmd, payload)" by (cases ev)
  note c = Frame [unfolded ev]
  note shape = classify_frame_payload [OF c]
  obtain s1 s2 where sp: "get_read_spans 0 k (buffer p) = (s1, s2)" by (rule prod.exhaust)
  obtain p1 p2 where ps: "payload_spans (w_protocol W) (length payload) s1 s2 = (p1, p2)" by (rule prod.exhaust)
  have "k \<le> bip_available (buffer p)" using classify_frame_length [OF c] inv by simp
  then have "dispatch_and_store cfg (buffer p) cmd p1 p2 (deser p) s = Inr (deliver cfg (cmd, payload) (deser p, s))"
    using dispatch_and_store_deliver [OF wf inv dinv refl _ _ ps, of "tail_size (w_protocol W)" cmd s] conf [OF c] sp shape
    by simp
  then show ?thesis by (simp add: parse_frame_dispatch [OF wf W inv] c ev sp ps split: prod.split)
qed (simp_all add: parse_frame_dispatch [OF wf W inv])

section \<open>The scan loop\<close>

lemma index_of_Some:
  assumes "index_of Q xs = Some i"
  shows "i < length xs" and "Q (xs ! i)" and "\<forall>x\<in>set (take i xs). \<not> Q x"
proof -
  let ?N = "\<lambda>x. \<not> Q x"
  have i: "i = length (takeWhile ?N xs)" and lt: "i < length xs"
    using assms by (auto simp: index_of_def Let_def split: if_splits)
  then show "i < length xs" by simp
  show "Q (xs ! i)" using nth_length_takeWhile [of ?N xs] lt i by simp
  have "take i xs = takeWhile ?N xs" unfolding i by (rule takeWhile_eq_take [symmetric])
  then show "\<forall>x\<in>set (take i xs). \<not> Q x" using set_takeWhileD by metis
qed

lemma index_of_None: "index_of Q xs = None \<Longrightarrow> \<forall>x\<in>set xs. \<not> Q x"
proof -
  assume "index_of Q xs = None"
  then have "\<not> length (takeWhile (\<lambda>x. \<not> Q x) xs) < length xs" by (simp add: index_of_def Let_def split: if_splits)
  then have "takeWhile (\<lambda>x. \<not> Q x) xs = xs"
    by (metis takeWhile_eq_take take_all not_less)
  then show ?thesis by (simp add: takeWhile_eq_all_conv)
qed

lemma scan_start_Some:
  assumes "scan_start cfg view = Some (i, idx)"
  shows "i < length view" and "is_start cfg (view ! i)" and "\<forall>x\<in>set (take i view). \<not> is_start cfg x"
    and "idx = lut cfg ! unat (view ! i)"
  using assms index_of_Some [where xs = view and i = i]
    index_of_Some(2) [where Q = "\<lambda>x. x = unique_start_byte (lut cfg)" and xs = view and i = i]
  by (auto simp: scan_start_def is_start_def Let_def split: if_splits)

lemma scan_start_None: "scan_start cfg view = None \<Longrightarrow> \<forall>x\<in>set view. \<not> is_start cfg x"
  using index_of_None [where xs = view]
  by (auto simp: scan_start_def is_start_def Let_def split: if_splits)

lemma runtime_parse_judge:
  assumes wf: "wf_config cfg" and inv: "bip_inv (buffer p)" and dinv: "des_inv (packets cfg) (deser p)"
    and xs: "bip_contents (buffer p) = x # xs"
    and conf: "\<And>n ev. judge cfg (x # xs) = Frame n ev \<Longrightarrow> conforming cfg ev"
  shows "runtime_parse cfg (lut cfg ! unat x) p s =
    (case judge cfg (x # xs) of
       Need \<Rightarrow> Inr (Incomplete, p, s)
     | Bad \<Rightarrow> Inr (Failure, p, s)
     | Frame n ev \<Rightarrow>
         let (d, s) = deliver cfg ev (deser p, s)
         in Inr (Success, p\<lparr>buffer := snd (bip_discard n (buffer p)), deser := d\<rparr>, s))"
proof (cases "unat (lut cfg ! unat x) < length (workers cfg)")
  case True
  then have "parse_frame_impl cfg (workers cfg ! unat (lut cfg ! unat x)) p s =
    (case classify (calculate_max_frame_size (packets cfg)) (workers cfg ! unat (lut cfg ! unat x)) (x # xs) of
       Need \<Rightarrow> Inr (Incomplete, p, s)
     | Bad \<Rightarrow> Inr (Failure, p, s)
     | Frame n ev \<Rightarrow>
         let (d, s) = deliver cfg ev (deser p, s)
         in Inr (Success, p\<lparr>buffer := snd (bip_discard n (buffer p)), deser := d\<rparr>, s))"
    using parse_frame_classify [OF wf _ inv dinv, of "workers cfg ! unat (lut cfg ! unat x)" s] conf
    by (simp add: xs judge_def Let_def)
  then show ?thesis using True by (simp add: runtime_parse_def judge_def Let_def)
next
  case False
  then show ?thesis by (simp add: runtime_parse_def judge_def Let_def)
qed

lemma judge_frame_pos:
  assumes "wf_config cfg" and "judge cfg xs = Frame n ev"
  shows "0 < n"
proof -
  obtain x ys where xs: "xs = x # ys" using assms(2) by (cases xs) (simp_all add: judge_def)
  let ?i = "unat (lut cfg ! unat x)"
  have i: "?i < length (workers cfg)"
    and "classify (calculate_max_frame_size (packets cfg)) (workers cfg ! ?i) xs = Frame n ev"
    using assms(2) by (simp_all add: judge_def xs Let_def split: if_splits)
  then have "header_size (w_protocol (workers cfg ! ?i)) \<le> n"
    by (auto simp: classify_def Let_def split: if_splits prod.splits)
  moreover have "wf_protocol (w_protocol (workers cfg ! ?i))"
    using assms(1) nth_mem [OF i] by (simp add: wf_config_def)
  ultimately show ?thesis by (simp add: wf_protocol_def)
qed

text \<open>
  \<open>bip_slack N b\<close>: when the ring has wrapped, the end of region A is within \<open>N\<close> bytes of the end of the
  array, because a write of at most \<open>N\<close> bytes did not fit behind it. It bounds the room lost to wrapping.
\<close>

definition bip_slack :: "nat \<Rightarrow> bip \<Rightarrow> bool" where
  "bip_slack N b \<longleftrightarrow> (region_b_size b > 0 \<longrightarrow> bip_size b < region_a_start b + region_a_size b + N)"

lemma bip_discard_slack: "bip_slack N b \<Longrightarrow> bip_slack N (snd (bip_discard len b))"
  by (auto simp: bip_slack_def bip_discard_def Let_def)

text \<open>An empty ring starts at the front of the array, so that it takes a write of its whole size.\<close>

definition bip_home :: "bip \<Rightarrow> bool" where
  "bip_home b \<longleftrightarrow> (bip_available b = 0 \<longrightarrow> region_a_start b = 0)"

lemma bip_discard_home: "bip_home b \<Longrightarrow> bip_home (snd (bip_discard len b))"
  by (auto simp: bip_home_def bip_discard_def bip_available_def Let_def)

lemma bip_fits_home: "bip_inv b \<Longrightarrow> bip_home b \<Longrightarrow> bip_available b = 0 \<Longrightarrow> len \<le> bip_size b \<Longrightarrow> bip_fits len b"
  by (auto simp: bip_home_def bip_fits_def bip_available_def bip_inv_def)

lemma bip_write_home: "bip_home b \<Longrightarrow> bip_home (snd (bip_write xs b))"
  by (auto simp: bip_home_def bip_write_def get_write_buffer_def advance_write_index_def bip_available_def Let_def)

definition bip_after :: "bip \<Rightarrow> bip \<Rightarrow> bytes \<Rightarrow> bool" where
  "bip_after b b' r \<longleftrightarrow>
     bip_inv b' \<and> bip_contents b' = r \<and> bip_size b' = bip_size b \<and> (\<forall>N. bip_slack N b \<longrightarrow> bip_slack N b') \<and>
     (bip_home b \<longrightarrow> bip_home b')"

lemma bip_after_discard:
  "bip_inv b \<Longrightarrow> len \<le> bip_available b \<Longrightarrow> bip_after b (snd (bip_discard len b)) (drop len (bip_contents b))"
  by (simp add: bip_after_def bip_discard_inv bip_discard_contents bip_discard_slack bip_discard_home)

lemma bip_after_trans: "bip_after a b r \<Longrightarrow> bip_after b c r' \<Longrightarrow> bip_after a c r'"
  by (auto simp: bip_after_def)

text \<open>The parser after a list of events, with ring \<open>b\<close>.\<close>

definition parsed :: "('m, 's) parser_config \<Rightarrow> (u16 \<times> bytes) list \<Rightarrow> bip \<Rightarrow> 'm parser \<times> 's \<Rightarrow> 'm parser \<times> 's" where
  "parsed cfg evs b ps =
     (let (d, s) = fold (deliver cfg) evs (deser (fst ps), snd ps)
      in ((fst ps)\<lparr>buffer := b, deser := d, monitor := (on_packet_received cfg ^^ length evs) (monitor (fst ps))\<rparr>, s))"

lemma parsed_Nil: "parsed cfg [] b (p, s) = (p\<lparr>buffer := b\<rparr>, s)"
  by (simp add: parsed_def)

lemma parsed_update_buffer: "parsed cfg evs b (p\<lparr>buffer := b'\<rparr>, s) = parsed cfg evs b (p, s)"
  by (simp add: parsed_def)

lemma parsed_Cons:
  assumes "deliver cfg ev (deser p, s) = (d, s')"
  shows "parsed cfg (ev # evs) b (p, s) =
    parsed cfg evs b (p\<lparr>buffer := b', deser := d, monitor := on_packet_received cfg (monitor p)\<rparr>, s')"
  by (simp add: parsed_def assms funpow_swap1 split: prod.split)

lemma contiguous_view:
  assumes "bip_inv b"
  shows "span_bytes b (get_contiguous_read_buffer b) = take (region_a_size b) (bip_contents b)"
    and "bip_contents b \<noteq> [] \<Longrightarrow> 0 < region_a_size b" and "region_a_size b \<le> length (bip_contents b)"
proof -
  show "span_bytes b (get_contiguous_read_buffer b) = take (region_a_size b) (bip_contents b)"
    by (rule get_contiguous_read_buffer_prefix [OF assms])
  show "region_a_size b \<le> length (bip_contents b)" using assms by (simp add: bip_available_def)
  show "bip_contents b \<noteq> [] \<Longrightarrow> 0 < region_a_size b"
    using assms by (cases "region_a_size b") (auto simp: bip_inv_def bip_contents_def)
qed

text \<open>A turn that finds no start byte drops the whole view.\<close>

lemma scan_turn_none:
  assumes inv: "bip_inv (buffer p)" and "bip_contents (buffer p) \<noteq> []"
    and none: "scan_start cfg (span_bytes (buffer p) (get_contiguous_read_buffer (buffer p))) = None"
  obtains n b where "scan_turn cfg (bip_available (buffer p)) p s = Inr (True, bip_available b, p\<lparr>buffer := b\<rparr>, s)"
    and "0 < n" and "n \<le> length (bip_contents (buffer p))"
    and "bip_after (buffer p) b (drop n (bip_contents (buffer p)))"
    and "scan (is_start cfg) (judge cfg) (bip_contents (buffer p)) =
         scan (is_start cfg) (judge cfg) (drop n (bip_contents (buffer p)))"
proof -
  let ?b = "buffer p" let ?n = "region_a_size ?b"
  note view = contiguous_view [OF inv]
  have n: "?n \<le> bip_available ?b" using view(3) inv by simp
  have "\<forall>x\<in>set (take ?n (bip_contents ?b)). \<not> is_start cfg x"
    using scan_start_None [OF none] unfolding view(1) .
  then have "scan (is_start cfg) (judge cfg) (take ?n (bip_contents ?b) @ drop ?n (bip_contents ?b)) =
      scan (is_start cfg) (judge cfg) (drop ?n (bip_contents ?b))" by (rule scan_skip)
  moreover have "scan_turn cfg (bip_available ?b) p s =
      Inr (True, bip_available (snd (bip_discard ?n ?b)), p\<lparr>buffer := snd (bip_discard ?n ?b)\<rparr>, s)"
    using none n view(3) by (simp add: scan_turn_def Let_def view(1) bip_discard_available)
  ultimately show thesis
    using that [of "snd (bip_discard ?n ?b)" ?n] bip_after_discard [OF inv n] view(2,3) assms(2) by simp
qed

text \<open>A turn that finds one drops what is before it and asks for the verdict on the rest.\<close>

lemma scan_turn_some:
  assumes inv: "bip_inv (buffer p)"
    and some: "scan_start cfg (span_bytes (buffer p) (get_contiguous_read_buffer (buffer p))) = Some (i, idx)"
  obtains x xs b where "bip_after (buffer p) b (x # xs)" and "is_start cfg x" and "bip_inv b"
    and "length (x # xs) \<le> length (bip_contents (buffer p))"
    and "scan (is_start cfg) (judge cfg) (bip_contents (buffer p)) = scan (is_start cfg) (judge cfg) (x # xs)"
    and "scan_turn cfg (bip_available (buffer p)) p s =
      (case runtime_parse cfg (lut cfg ! unat x) (p\<lparr>buffer := b\<rparr>) s of
         Inl f \<Rightarrow> Inl f
       | Inr (Success, p, s) \<Rightarrow>
           Inr (True, bip_available (buffer p), p\<lparr>monitor := on_packet_received cfg (monitor p)\<rparr>, s)
       | Inr (Failure, p, s) \<Rightarrow>
           Inr (True, bip_available b - 1, p\<lparr>buffer := snd (bip_discard 1 (buffer p))\<rparr>, s)
       | Inr (Incomplete, p, s) \<Rightarrow> Inr (False, bip_available b, p, s))"
proof -
  let ?b = "buffer p" and ?c = "bip_contents (buffer p)"
  note view = contiguous_view [OF inv]
  note start = scan_start_Some [OF some]
  have i: "i < length ?c" and i_a: "i < region_a_size ?b" using start(1) by (simp_all add: view(1))
  have x: "span_bytes ?b (get_contiguous_read_buffer ?b) ! i = ?c ! i" using i_a by (simp add: view(1))
  have le: "i \<le> bip_available ?b" using i inv by simp
  have drop: "drop i ?c = ?c ! i # drop (Suc i) ?c" using i by (rule Cons_nth_drop_Suc [symmetric])
  have "\<forall>x\<in>set (take i ?c). \<not> is_start cfg x"
    using start(3) i_a by (simp add: view(1) min_def)
  then have "scan (is_start cfg) (judge cfg) (take i ?c @ drop i ?c) = scan (is_start cfg) (judge cfg) (drop i ?c)"
    by (rule scan_skip)
  then have sc: "scan (is_start cfg) (judge cfg) ?c = scan (is_start cfg) (judge cfg) (?c ! i # drop (Suc i) ?c)"
    unfolding append_take_drop_id unfolding drop .
  let ?b' = "snd (bip_discard i ?b)"
  have b0: "bip_discard 0 ?b = (True, ?b)" by (simp add: bip_discard_def)
  have pair: "(if i > 0 then (bip_available ?b - i, p\<lparr>buffer := ?b'\<rparr>) else (bip_available ?b, p)) =
      (bip_available ?b', p\<lparr>buffer := ?b'\<rparr>)"
    using b0 by (simp add: bip_discard_available [OF le])
  have turn: "scan_turn cfg (bip_available ?b) p s =
      (case runtime_parse cfg (lut cfg ! unat (?c ! i)) (p\<lparr>buffer := ?b'\<rparr>) s of
         Inl f \<Rightarrow> Inl f
       | Inr (Success, p, s) \<Rightarrow>
           Inr (True, bip_available (buffer p), p\<lparr>monitor := on_packet_received cfg (monitor p)\<rparr>, s)
       | Inr (Failure, p, s) \<Rightarrow>
           Inr (True, bip_available ?b' - 1, p\<lparr>buffer := snd (bip_discard 1 (buffer p))\<rparr>, s)
       | Inr (Incomplete, p, s) \<Rightarrow> Inr (False, bip_available ?b', p, s))"
    unfolding scan_turn_def Let_def some option.case prod.case pair start(4) x by (rule refl)
  have "bip_after ?b ?b' (?c ! i # drop (Suc i) ?c)"
    using bip_after_discard [OF inv le] by (simp only: drop)
  moreover have "is_start cfg (?c ! i)" using start(2) by (simp add: x)
  ultimately show thesis using that [of ?b' "?c ! i" "drop (Suc i) ?c"] turn sc i
    by (simp add: bip_after_def)
qed

lemma try_parse_loop_go:
  assumes "0 < bip_available (buffer p)"
    and "scan_turn cfg (bip_available (buffer p)) p s = Inr (True, bip_available (buffer p'), p', s')"
  shows "try_parse_loop cfg (bip_available (buffer p)) p s = try_parse_loop cfg (bip_available (buffer p')) p' s'"
  using assms by (subst try_parse_loop.simps) simp

text \<open>The loop ends, and what it leaves is the scan of the queue.\<close>

lemma try_parse_loop_scan:
  assumes "wf_config cfg" and "bip_inv (buffer p)" and "des_inv (packets cfg) (deser p)"
    and "scan (is_start cfg) (judge cfg) (bip_contents (buffer p)) = (evs, r)" and "list_all (conforming cfg) evs"
  shows "\<exists>b'. try_parse_loop cfg (bip_available (buffer p)) p s = Some (Inr (parsed cfg evs b' (p, s)))
    \<and> bip_after (buffer p) b' r"
  using assms
proof (induction "length (bip_contents (buffer p))" arbitrary: p s evs rule: less_induct)
  case less
  note wf = less.prems(1) and inv = less.prems(2) and dinv = less.prems(3)
  let ?c = "bip_contents (buffer p)" and ?scan = "scan (is_start cfg) (judge cfg)"
  have len: "bip_available (buffer p) = length ?c" using inv by simp
  show ?case
  proof (cases "?c = []")
    case True
    then have "evs = []" "r = []" using less.prems(4) by simp_all
    moreover have "bip_available (buffer p) = 0" using len True by simp
    ultimately show ?thesis using inv True
      by (subst try_parse_loop.simps) (auto simp: parsed_Nil bip_after_def intro!: exI [of _ "buffer p"])
  next
    case False
    then have pos: "0 < bip_available (buffer p)" by (simp add: len)
    have step: "\<exists>b'. try_parse_loop cfg (bip_available (buffer p)) p s = Some (Inr (parsed cfg evs' b' (p', s')))
        \<and> bip_after (buffer p) b' r"
      if H: "scan_turn cfg (bip_available (buffer p)) p s = Inr (True, bip_available (buffer p'), p', s')"
        "bip_after (buffer p) (buffer p') c" "length c < length ?c" "?scan c = (evs', r)"
        "des_inv (packets cfg) (deser p')" "list_all (conforming cfg) evs'" for p' s' c evs'
    proof -
      have "bip_inv (buffer p')" "bip_contents (buffer p') = c" using H(2) by (auto simp: bip_after_def)
      then obtain b' where "try_parse_loop cfg (bip_available (buffer p')) p' s' = Some (Inr (parsed cfg evs' b' (p', s')))"
        and "bip_after (buffer p') b' r"
        using less.hyps [of p' evs' s'] H wf by auto
      then show ?thesis
        using try_parse_loop_go [OF pos H(1)] bip_after_trans [OF H(2)] by auto
    qed
    show ?thesis
    proof (cases "scan_start cfg (span_bytes (buffer p) (get_contiguous_read_buffer (buffer p)))")
      case None
      obtain n b where turn: "scan_turn cfg (bip_available (buffer p)) p s = Inr (True, bip_available b, p\<lparr>buffer := b\<rparr>, s)"
        and n: "0 < n" "n \<le> length ?c" and aft: "bip_after (buffer p) b (drop n ?c)"
        and sc: "?scan ?c = ?scan (drop n ?c)"
        by (rule scan_turn_none [OF inv False None])
      show ?thesis
        using step [of "p\<lparr>buffer := b\<rparr>" s "drop n ?c" evs] turn n aft sc less.prems by (simp add: parsed_update_buffer)
    next
      case (Some a)
      obtain i idx where a: "a = (i, idx)" by (cases a)
      obtain x xs b where aft: "bip_after (buffer p) b (x # xs)" and st: "is_start cfg x" and binv: "bip_inv b"
        and le: "length (x # xs) \<le> length ?c" and sc: "?scan ?c = ?scan (x # xs)"
        and turn: "scan_turn cfg (bip_available (buffer p)) p s =
          (case runtime_parse cfg (lut cfg ! unat x) (p\<lparr>buffer := b\<rparr>) s of
             Inl f \<Rightarrow> Inl f
           | Inr (Success, p, s) \<Rightarrow>
               Inr (True, bip_available (buffer p), p\<lparr>monitor := on_packet_received cfg (monitor p)\<rparr>, s)
           | Inr (Failure, p, s) \<Rightarrow>
               Inr (True, bip_available b - 1, p\<lparr>buffer := snd (bip_discard 1 (buffer p))\<rparr>, s)
           | Inr (Incomplete, p, s) \<Rightarrow> Inr (False, bip_available b, p, s))"
        by (rule scan_turn_some [OF inv Some [unfolded a]])
      have bc: "bip_contents b = x # xs" using aft by (simp add: bip_after_def)
      have avail: "bip_available b = Suc (length xs)" using binv bc by (metis length_bip_contents length_Cons)
      have conf: "conforming cfg ev" if "judge cfg (x # xs) = Frame n ev" for n ev
        using less.prems(4,5) st that by (auto simp: sc split: prod.splits)
      note rp = runtime_parse_judge [OF wf, of "p\<lparr>buffer := b\<rparr>" x xs s, simplified, OF binv dinv bc conf]
      show ?thesis
      proof (cases "judge cfg (x # xs)")
        case Need
        then have "evs = []" "r = x # xs" using less.prems(4) st by (simp_all add: sc)
        then show ?thesis using pos turn rp Need aft
          by (subst try_parse_loop.simps) (auto simp: parsed_Nil)
      next
        case Bad
        have d: "bip_after b (snd (bip_discard 1 b)) xs"
          using bip_after_discard [OF binv, of 1] avail bc by simp
        show ?thesis
          using step [of "p\<lparr>buffer := snd (bip_discard 1 b)\<rparr>" s xs evs] turn rp Bad st le sc less.prems
            bip_after_trans [OF aft d] bip_discard_available [of 1 b] avail
          by (simp add: parsed_update_buffer)
      next
        case (Frame n ev)
        obtain d s' where ds: "deliver cfg ev (deser p, s) = (d, s')" by fastforce
        obtain evs' where evs: "evs = ev # evs'" and rest: "?scan (drop n (x # xs)) = (evs', r)"
          using less.prems(4) st Frame judge_frame_pos [OF wf Frame]
          by (cases n) (auto simp: sc split: prod.splits)
        have n: "n \<le> bip_available b" using fs.frame_length [OF Frame] avail by simp
        have d: "bip_after b (snd (bip_discard n b)) (drop n (x # xs))"
          using bip_after_discard [OF binv n] by (simp only: bc)
        have dinv': "des_inv (packets cfg) d"
          using deliver_inv [OF wf conf [OF Frame], of "(deser p, s)"] dinv by (simp add: ds)
        let ?p' = "p\<lparr>buffer := snd (bip_discard n b), deser := d, monitor := on_packet_received cfg (monitor p)\<rparr>"
        have "scan_turn cfg (bip_available (buffer p)) p s = Inr (True, bip_available (buffer ?p'), ?p', s')"
          using turn rp Frame ds by simp
        moreover have "length (drop n (x # xs)) < length ?c" using judge_frame_pos [OF wf Frame] le by simp
        ultimately have "\<exists>b'. try_parse_loop cfg (bip_available (buffer p)) p s = Some (Inr (parsed cfg evs' b' (?p', s')))
            \<and> bip_after (buffer p) b' r"
          using less.prems(5) evs rest dinv' bip_after_trans [OF aft d]
          by (intro step [where c = "drop n (x # xs)"]) simp_all
        then show ?thesis using parsed_Cons [OF ds] evs by metis
      qed
    qed
  qed
qed

end
