(* ===== verification/Parser_Stream.thy ===== *)
theory Parser_Stream
  imports Parser_Spec
begin

text \<open>
  The parser as a stream transducer: any cut of a stream into chunks of at most \<open>N\<close> bytes is accepted
  without overflow, and the events delivered are those of the uncut stream. The byte count left in the
  ring stays below one frame.
\<close>

section \<open>Room in the ring\<close>

lemma bip_fits_slack:
  assumes "bip_inv b" and "bip_slack N b" and "bip_available b < M" and "len \<le> N" and "2 * N + 2 * M \<le> bip_size b"
  shows "bip_fits len b"
  using assms by (auto simp: bip_fits_def bip_inv_def bip_slack_def bip_available_def)

lemma bip_write_slack:
  assumes "bip_inv b" and "bip_slack N b" and "length xs \<le> N" and "bip_fits (length xs) b"
  shows "bip_slack N (snd (bip_write xs b))"
  using assms
  by (auto simp: bip_write_def get_write_buffer_def advance_write_index_def bip_slack_def bip_fits_def
      bip_inv_def Let_def)

lemma bip_advance_slack:
  assumes "bip_inv b" and "bip_slack N b" and "get_write_buffer b = (off, n)" and "length xs \<le> n" and "length xs \<le> N"
  shows "bip_slack N (snd (advance_write_index (length xs) (b\<lparr>bip_mem := mem_write (bip_mem b) off xs\<rparr>)))"
proof -
  have "xs = [] \<or> 0 < N" using assms(5) by (cases xs) auto
  then show ?thesis using assms bip_write_free_contents(2) [OF assms(1,3,4)]
    by (auto simp: get_write_buffer_def advance_write_index_def bip_slack_def bip_inv_def Let_def split: if_splits)
qed

section \<open>What is left is less than a frame\<close>

lemma judge_need_short:
  assumes "wf_config cfg" and "r = [] \<or> is_start cfg (hd r) \<and> judge cfg r = Need" and "workers cfg \<noteq> []"
  shows "length r < calculate_max_frame_size (packets cfg)"
proof (cases r)
  case Nil
  have "wf_protocol (w_protocol (hd (workers cfg)))"
    and "header_size (w_protocol (hd (workers cfg))) + fixed_size (hd (workers cfg)) + tail_size (w_protocol (hd (workers cfg)))
      \<le> calculate_max_frame_size (packets cfg)"
    using assms(1,3) hd_in_set by (auto simp: wf_config_def)
  then show ?thesis using Nil by (simp add: wf_protocol_def)
next
  case (Cons x xs)
  let ?i = "unat (lut cfg ! unat x)" and ?M = "calculate_max_frame_size (packets cfg)"
  let ?W = "workers cfg ! ?i"
  have i: "?i < length (workers cfg)" using assms(1,2) by (auto simp: Cons wf_config_def)
  then have need: "classify ?M ?W r = Need" using assms(2) by (simp add: Cons judge_def Let_def)
  have W: "wf_protocol (w_protocol ?W)"
    and M: "header_size (w_protocol ?W) + fixed_size ?W + tail_size (w_protocol ?W) \<le> ?M"
    using assms(1) nth_mem [OF i] by (auto simp: wf_config_def)
  obtain n cmd where f: "worker_fields ?W (take (header_size (w_protocol ?W)) r) = (n, cmd)" by fastforce
  have "n = fixed_size ?W" if "is_fixed ?W" using f that by (simp add: worker_fields_def Let_def)
  then show ?thesis using need M by (auto simp: classify_def Let_def f split: if_splits)
qed

section \<open>Pushing chunks\<close>

definition parser_ready :: "('m, 's) parser_config \<Rightarrow> nat \<Rightarrow> 'm parser \<Rightarrow> bool" where
  "parser_ready cfg N p \<longleftrightarrow>
     bip_inv (buffer p) \<and> des_inv (packets cfg) (deser p) \<and> bip_slack N (buffer p) \<and> bip_home (buffer p) \<and>
     bip_available (buffer p) < calculate_max_frame_size (packets cfg) \<and>
     2 * N + 2 * calculate_max_frame_size (packets cfg) \<le> bip_size (buffer p)"

lemma parsed_buffer [simp]: "buffer (fst (parsed cfg evs b ps)) = b"
  by (simp add: parsed_def split: prod.split)

lemma fold_deliver_inv:
  "wf_config cfg \<Longrightarrow> list_all (conforming cfg) evs \<Longrightarrow> des_inv (packets cfg) (fst ds) \<Longrightarrow>
     des_inv (packets cfg) (fst (fold (deliver cfg) evs ds))"
  by (induction evs arbitrary: ds) (simp_all add: deliver_inv)

lemma parsed_deser:
  "deser (fst (parsed cfg evs b (p, s))) = fst (fold (deliver cfg) evs (deser p, s))"
  by (simp add: parsed_def split: prod.split)

text \<open>After the scan of a ring with the new bytes, whichever way they came in.\<close>

lemma try_parse_ready:
  assumes "wf_config cfg" and "workers cfg \<noteq> []" and "bip_inv (buffer p)" and "des_inv (packets cfg) (deser p)"
    and "bip_slack N (buffer p) \<or> r = []" and "bip_home (buffer p)"
    and "2 * N + 2 * calculate_max_frame_size (packets cfg) \<le> bip_size (buffer p)"
    and "scan (is_start cfg) (judge cfg) (bip_contents (buffer p)) = (evs, r)" and "list_all (conforming cfg) evs"
  shows "\<exists>b'. try_parse_packets cfg p s = Some (Inr (parsed cfg evs b' (p, s))) \<and> bip_contents b' = r \<and>
    bip_size b' = bip_size (buffer p) \<and> parser_ready cfg N (fst (parsed cfg evs b' (p, s)))"
proof -
  obtain b' where t: "try_parse_packets cfg p s = Some (Inr (parsed cfg evs b' (p, s)))" and aft: "bip_after (buffer p) b' r"
    using try_parse_loop_scan [OF assms(1,3,4,8,9)] unfolding try_parse_packets_def by blast
  have "length r < calculate_max_frame_size (packets cfg)"
    using judge_need_short [OF assms(1) _ assms(2)] fs.scan_rest [OF assms(8)] by blast
  moreover have b': "bip_inv b'" "bip_contents b' = r" "bip_size b' = bip_size (buffer p)" "bip_home b'"
    using aft assms(6) by (auto simp: bip_after_def)
  moreover have "bip_available b' = length r" using b'(1,2) length_bip_contents by metis
  then have "bip_slack N b'" using aft assms(5) by (auto simp: bip_after_def bip_slack_def bip_available_def)
  moreover have "des_inv (packets cfg) (deser (fst (parsed cfg evs b' (p, s))))"
    using fold_deliver_inv [OF assms(1,9), of "(deser p, s)"] assms(4) by (simp add: parsed_deser)
  ultimately show ?thesis using t assms(7) length_bip_contents [of b'] by (auto simp: parser_ready_def)
qed

text \<open>A chunk of at most \<open>N\<close> bytes is taken at any time, a chunk of the size of the ring when the ring is empty.\<close>

lemma push_data_ready:
  assumes wf: "wf_config cfg" and ne: "workers cfg \<noteq> []" and ready: "parser_ready cfg N p"
    and len: "length xs \<le> N \<or> bip_contents (buffer p) = [] \<and> length xs \<le> bip_size (buffer p) \<and> r = []"
    and sc: "scan (is_start cfg) (judge cfg) (bip_contents (buffer p) @ xs) = (evs, r)"
    and conf: "list_all (conforming cfg) evs"
  shows "\<exists>b'. push_data cfg xs p s = Some (Inr (Inr (), parsed cfg evs b' (p, s))) \<and> bip_contents b' = r \<and>
    bip_size b' = bip_size (buffer p) \<and> parser_ready cfg N (fst (parsed cfg evs b' (p, s)))"
proof -
  let ?b = "buffer p"
  obtain ok b1 where w: "bip_write xs ?b = (ok, b1)" by fastforce
  have r: "bip_inv ?b" "des_inv (packets cfg) (deser p)" "bip_slack N ?b"
    "bip_available ?b < calculate_max_frame_size (packets cfg)"
    "2 * N + 2 * calculate_max_frame_size (packets cfg) \<le> bip_size ?b" "bip_home ?b"
    using ready by (auto simp: parser_ready_def)
  have "bip_available ?b = length (bip_contents ?b)" using r(1) by simp
  then have fits: "bip_fits (length xs) ?b" using bip_fits_slack [OF r(1,3,4) _ r(5)] bip_fits_home [OF r(1,6)] len by auto
  have b1: "ok" "bip_inv b1" "bip_contents b1 = bip_contents ?b @ xs" "bip_size b1 = bip_size ?b" "bip_home b1"
    using bip_write_accepted [OF r(1) fits w] bip_write_home [OF r(6), of xs] w by auto
  have "bip_slack N b1 \<or> r = []" using bip_write_slack [OF r(1,3) _ fits] w len by auto
  then obtain b' where "try_parse_packets cfg (p\<lparr>buffer := b1\<rparr>) s = Some (Inr (parsed cfg evs b' (p\<lparr>buffer := b1\<rparr>, s)))"
    and "bip_contents b' = r" and "bip_size b' = bip_size ?b" and "parser_ready cfg N (fst (parsed cfg evs b' (p\<lparr>buffer := b1\<rparr>, s)))"
    using try_parse_ready [OF wf ne, of "p\<lparr>buffer := b1\<rparr>" N r evs s] b1 r sc conf by auto
  then show ?thesis using w b1(1) by (auto simp: push_data_def parsed_update_buffer split: prod.split)
qed

text \<open>Pushing the chunks of a stream one after the other, with the result of every call.\<close>

fun push_chunks ::
  "('m, 's) parser_config \<Rightarrow> bytes list \<Rightarrow> 'm parser \<Rightarrow> 's
     \<Rightarrow> (fault + (Error + unit) list \<times> 'm parser \<times> 's) option" where
  "push_chunks cfg [] p s = Some (Inr ([], p, s))"
| "push_chunks cfg (c # cs) p s =
     (case push_data cfg c p s of
        None \<Rightarrow> None
      | Some (Inl f) \<Rightarrow> Some (Inl f)
      | Some (Inr (res, p, s)) \<Rightarrow>
          map_option (map_sum id (\<lambda>(rs, p, s). (res # rs, p, s))) (push_chunks cfg cs p s))"

lemma parsed_parsed: "parsed cfg es' b' (parsed cfg es b (p, s)) = parsed cfg (es @ es') b' (p, s)"
  by (simp add: parsed_def funpow_add add.commute [of "length es"] split: prod.split)

lemma push_chunks_scan:
  assumes "wf_config cfg" and "workers cfg \<noteq> []" and "parser_ready cfg N p"
    and "scan (is_start cfg) (judge cfg) (bip_contents (buffer p)) = ([], bip_contents (buffer p))"
    and "\<forall>c\<in>set cs. length c \<le> N"
    and "scan (is_start cfg) (judge cfg) (bip_contents (buffer p) @ concat cs) = (evs, r)"
    and "list_all (conforming cfg) evs"
  shows "\<exists>b'. push_chunks cfg cs p s = Some (Inr (replicate (length cs) (Inr ()), parsed cfg evs b' (p, s))) \<and>
    bip_contents b' = r \<and> parser_ready cfg N (fst (parsed cfg evs b' (p, s)))"
  using assms(3-)
proof (induction cs arbitrary: p s evs)
  case Nil
  then show ?case by (auto simp: parsed_Nil intro!: exI [of _ "buffer p"])
next
  case (Cons c cs)
  let ?scan = "scan (is_start cfg) (judge cfg)"
  obtain es1 r1 where s1: "?scan (bip_contents (buffer p) @ c) = (es1, r1)" by fastforce
  obtain es2 r2 where s2: "?scan (r1 @ concat cs) = (es2, r2)" by fastforce
  have evs: "evs = es1 @ es2" "r2 = r"
    using Cons.prems(4) fs.scan_append [OF s1, of "concat cs"] s2 by simp_all
  obtain b1 where p1: "push_data cfg c p s = Some (Inr (Inr (), parsed cfg es1 b1 (p, s)))"
    and b1: "bip_contents b1 = r1" and ready: "parser_ready cfg N (fst (parsed cfg es1 b1 (p, s)))"
    using push_data_ready [OF assms(1,2) Cons.prems(1) _ s1] Cons.prems(3,5) evs by auto
  obtain p' s' where ps: "parsed cfg es1 b1 (p, s) = (p', s')" by (rule prod.exhaust)
  have bp': "bip_contents (buffer p') = r1" using b1 ps parsed_buffer [of cfg es1 b1 "(p, s)"] by simp
  obtain b2 where "push_chunks cfg cs p' s' = Some (Inr (replicate (length cs) (Inr ()), parsed cfg es2 b2 (p', s')))"
    and "bip_contents b2 = r" and "parser_ready cfg N (fst (parsed cfg es2 b2 (p', s')))"
    using Cons.IH [of p' es2 s'] ready ps bp' fs.scan_rest [OF s1] s2 evs Cons.prems by auto
  then show ?case using p1 ps parsed_parsed [of cfg es2 b2 es1 b1 p s] by (auto simp: evs)
qed

section \<open>The default protocol\<close>

lemma bit_ceil_from_ge: "n \<le> p * 2 ^ k \<Longrightarrow> n \<le> bit_ceil_from k p n"
  by (induction k p n rule: bit_ceil_from.induct) (simp_all add: ac_simps)

lemma bit_ceil_ge: "n \<le> bit_ceil n"
  using bit_ceil_from_ge [of n 1 n] less_exp [of n] by (simp add: bit_ceil_def)

lemma buffer_size_ge: "4 * calculate_max_frame_size Ts \<le> calculate_buffer_size Ts"
  using bit_ceil_ge [of "calculate_max_frame_size Ts * 4"] by (simp add: calculate_buffer_size_def Let_def)

lemma calculate_max_frame_size_eq: "calculate_max_frame_size Ts = max_frame_size Ts"
proof -
  have "(\<lambda>T m. let size = header_size (pt_protocol T) + pt_size T + tail_size (pt_protocol T)
      in if size > m then size else m) = (\<lambda>T m. max m (frame_size T))"
    by (auto simp: frame_size_def Let_def fun_eq_iff)
  then show ?thesis by (simp add: calculate_max_frame_size_def max_frame_size_def)
qed

definition default_worker :: worker where
  "default_worker = \<lparr>w_protocol = DefaultProtocol, is_fixed = False, fixed_cmd = 0, fixed_size = 0\<rparr>"

definition default_packets :: "packet_traits list \<Rightarrow> bool" where
  "default_packets Ts \<longleftrightarrow>
     Ts \<noteq> [] \<and> distinct (map pt_cmd Ts) \<and>
     list_all (\<lambda>T. pt_protocol T = DefaultProtocol \<and> sizeof (pt_type T) = pt_size T \<and> 0 < pt_size T \<and>
       pt_size T < 2 ^ 16) Ts"

definition default_lut :: "u8 list" where
  "default_lut = (replicate 256 0xFF)[165 := 0]"

definition default_config ::
  "packet_traits list \<Rightarrow> (packet_traits \<Rightarrow> bytes \<Rightarrow> 's \<Rightarrow> 's) \<Rightarrow> ('m \<Rightarrow> 'm) \<Rightarrow> ('m, 's) parser_config" where
  "default_config Ts ap mon = \<lparr>packets = Ts, workers = [default_worker], lut = default_lut,
     after_parse = ap, on_packet_received = mon\<rparr>"

lemma default_config_simps [simp]:
  "packets (default_config Ts ap mon) = Ts" "workers (default_config Ts ap mon) = [default_worker]"
  "lut (default_config Ts ap mon) = default_lut" "after_parse (default_config Ts ap mon) = ap"
  "on_packet_received (default_config Ts ap mon) = mon"
  by (simp_all add: default_config_def)

lemma default_lut_start [simp]: "default_lut ! 165 = 0"
  by (simp add: default_lut_def)

lemma default_worker_simps [simp]:
  "w_protocol default_worker = DefaultProtocol" "is_fixed default_worker = False" "fixed_size default_worker = 0"
  by (simp_all add: default_worker_def)

lemma UniqueWorkers_default:
  assumes "default_packets Ts"
  shows "UniqueWorkers Ts = [default_worker]"
proof -
  have "map GetWorker Ts = replicate (length Ts) default_worker"
    using assms by (auto simp: default_packets_def list_all_iff GetWorker_def default_worker_def Let_def
        intro!: replicate_eqI)
  moreover have "UniqueImpl (replicate n default_worker) [default_worker] = [default_worker]" for n
    by (induction n) (simp_all add: same_worker_def)
  ultimately show ?thesis using assms
    by (cases "length Ts") (simp_all add: UniqueWorkers_def default_packets_def)
qed

lemma parser_config_of_default:
  "default_packets Ts \<Longrightarrow> parser_config_of Ts ap mon = Some (default_config Ts ap mon)"
  by (simp add: parser_config_of_def header_lut_def UniqueWorkers_default register_packet_def default_worker_def
      default_config_def default_lut_def Let_def)

lemma unique_start_byte_default: "unique_start_byte default_lut = 0xA5"
  by code_simp

lemma is_start_default [simp]: "is_start (default_config Ts ap mon) x \<longleftrightarrow> x = 0xA5"
  by (simp add: is_start_def unique_start_byte_default)

lemma judge_default:
  "judge (default_config Ts ap mon) (0xA5 # xs) = classify (max_frame_size Ts) default_worker (0xA5 # xs)"
  by (simp add: judge_def calculate_max_frame_size_eq)

lemma le_bytes_2_pair: "[ucast w, ucast (drop_bit 8 w)] = le_bytes 2 (w :: u16)"
  by (rule le_bytes_2 [symmetric])

lemma classify_default:
  "classify M default_worker xs =
     (let n = unat (le_val (mem_read xs 1 2) :: u16)
      in if length xs < 7 then Need
         else if crc_calc ProtocolCRC8 (take 4 xs) (null_crc ProtocolCRC8) \<noteq> xs ! 4 then Bad
         else if n > M - 9 then Bad
         else if length xs < 9 + n then Need
         else if crc_calc ProtocolCRC16 (take (7 + n) xs) (null_crc ProtocolCRC16) \<noteq> le_val (mem_read xs (7 + n) 2)
         then Bad
         else Frame (9 + n) (le_val (mem_read xs 5 2), mem_read xs 7 n))"
  by (simp add: classify_def default_worker_def worker_fields_def Let_def mem_read_def drop_take)

lemma default_frame_fields:
  assumes "length payload < 2 ^ 16"
  shows "mem_read (default_frame seq cmd payload) 1 2 = le_bytes 2 (of_nat (length payload) :: u16)"
    and "mem_read (default_frame seq cmd payload) 5 2 = le_bytes 2 cmd"
    and "mem_read (default_frame seq cmd payload) 7 (length payload) = payload"
    and "take (7 + length payload) (default_frame seq cmd payload) = default_body seq cmd payload"
    and "mem_read (default_frame seq cmd payload) (7 + length payload) 2 =
      le_bytes 2 (crc_calc ProtocolCRC16 (default_body seq cmd payload) (null_crc ProtocolCRC16))"
    and "crc_calc ProtocolCRC8 (take 4 (default_frame seq cmd payload)) (null_crc ProtocolCRC8) =
      default_frame seq cmd payload ! 4"
    and "hd (default_frame seq cmd payload) = 0xA5"
  by (simp_all add: default_frame_def default_body_def default_header_def Let_def mem_read_def le_bytes_2
      numeral_eq_Suc le_bytes_Suc_Suc)

lemma classify_default_frame:
  assumes "length payload < 2 ^ 16" and "length payload + 9 \<le> M"
  shows "classify M default_worker (default_frame seq cmd payload) =
    Frame (length (default_frame seq cmd payload)) (cmd, payload)"
proof -
  have "unat (of_nat (length payload) :: u16) = length payload"
    using assms(1) by (simp add: unat_of_nat)
  then show ?thesis using assms(2) default_frame_fields [OF assms(1), of seq cmd]
    by (simp add: classify_default Let_def le_val_le_bytes)
qed

lemma wf_DefaultProtocol: "wf_protocol DefaultProtocol"
  by (simp add: wf_protocol_def crc_calc_append [OF ProtocolCRC16_reflected])

lemma wf_default_config:
  assumes "default_packets Ts"
  shows "wf_config (default_config Ts ap mon)"
proof -
  obtain T where T: "T \<in> set Ts" using assms by (cases Ts) (auto simp: default_packets_def)
  then have "9 \<le> frame_size T" using assms by (simp add: default_packets_def list_all_iff frame_size_def)
  then have "9 \<le> max_frame_size Ts" using max_frame_size_ge [OF T] by linarith
  then show ?thesis using assms
    by (auto simp: wf_config_def default_packets_def list_all_iff wf_DefaultProtocol calculate_max_frame_size_eq)
qed

section \<open>Round trip\<close>

text \<open>What a peer sends: noise without a start byte, then the frame of a packet.\<close>

type_synonym sent = "bytes \<times> u8 \<times> packet_traits \<times> bytes"

definition sent_bytes :: "sent list \<Rightarrow> bytes" where
  "sent_bytes ms = concat (map (\<lambda>(noise, seq, p). noise @ packet_frame seq p) ms)"

definition sent_events :: "sent list \<Rightarrow> (u16 \<times> bytes) list" where
  "sent_events ms = map (\<lambda>(noise, seq, T, packet). (pt_cmd T, packet)) ms"

definition sent_ok :: "packet_traits list \<Rightarrow> sent list \<Rightarrow> bool" where
  "sent_ok Ts ms \<longleftrightarrow>
     list_all (\<lambda>(noise, seq, T, packet). list_all (\<lambda>b. b \<noteq> 0xA5) noise \<and> List.member Ts T \<and> length packet = pt_size T) ms"

lemma judge_packet_frame:
  assumes "default_packets Ts" and "T \<in> set Ts" and "length packet = pt_size T"
  shows "judge (default_config Ts ap mon) (packet_frame seq (T, packet)) =
    Frame (length (packet_frame seq (T, packet))) (pt_cmd T, packet)"
proof -
  let ?f = "default_frame seq (pt_cmd T) packet"
  have l: "length packet < 2 ^ 16" using assms by (simp add: default_packets_def list_all_iff)
  have "frame_size T = 9 + length packet"
    using assms by (simp add: default_packets_def list_all_iff frame_size_def)
  then have "length packet + 9 \<le> max_frame_size Ts" using max_frame_size_ge [OF assms(2)] by simp
  note c = classify_default_frame [OF l this, of seq "pt_cmd T"]
  obtain x xs where f: "?f = x # xs" by (cases ?f) (auto dest: arg_cong [where f = length])
  then have "x = 0xA5" using default_frame_fields(7) [OF l, of seq "pt_cmd T"] by simp
  then show ?thesis using c f by (simp add: packet_frame_def judge_default)
qed

lemma default_scan:
  assumes "default_packets Ts" and "sent_ok Ts ms"
  shows "scan (is_start (default_config Ts ap mon)) (judge (default_config Ts ap mon)) (sent_bytes ms)
    = (sent_events ms, [])"
proof -
  let ?cfg = "default_config Ts ap mon"
  let ?fs = "map (\<lambda>(noise, seq, T, packet). (noise, packet_frame seq (T, packet), (pt_cmd T, packet))) ms"
  have "\<forall>(g, f, e)\<in>set ?fs. (\<forall>x\<in>set g. \<not> is_start ?cfg x) \<and> f \<noteq> [] \<and> is_start ?cfg (hd f)
      \<and> judge ?cfg f = Frame (length f) e"
  proof -
    have "(\<forall>x\<in>set noise. \<not> is_start ?cfg x) \<and> packet_frame seq (T, packet) \<noteq> [] \<and>
        is_start ?cfg (hd (packet_frame seq (T, packet))) \<and>
        judge ?cfg (packet_frame seq (T, packet)) = Frame (length (packet_frame seq (T, packet))) (pt_cmd T, packet)"
      if "(noise, seq, T, packet) \<in> set ms" for noise seq T packet
    proof -
      have m: "\<forall>x\<in>set noise. x \<noteq> 0xA5" "T \<in> set Ts" "length packet = pt_size T"
        using assms(2) that by (fastforce simp: sent_ok_def list_all_iff)+
      have "length packet < 2 ^ 16" using m assms(1) by (simp add: default_packets_def list_all_iff)
      from default_frame_fields(7) [OF this, of seq "pt_cmd T"]
      have "hd (packet_frame seq (T, packet)) = 0xA5" by (simp add: packet_frame_def)
      moreover have "packet_frame seq (T, packet) \<noteq> []"
        by (auto simp: packet_frame_def dest: arg_cong [where f = length])
      ultimately show ?thesis using judge_packet_frame [OF assms(1) m(2,3)] m(1) by simp
    qed
    then show ?thesis by fastforce
  qed
  from fs.scan_frames [OF this]
  have "scan (is_start ?cfg) (judge ?cfg) (concat (map (\<lambda>(g, f, e). g @ f) ?fs)) = (map (\<lambda>(g, f, e). e) ?fs, [])" .
  moreover have "map (\<lambda>(g, f, e). g @ f) ?fs = map (\<lambda>(noise, seq, p). noise @ packet_frame seq p) ms"
    and "map (\<lambda>(g, f, e). e) ?fs = sent_events ms"
    by (auto simp: sent_events_def)
  ultimately show ?thesis by (simp only: sent_bytes_def)
qed

lemma sent_conforming:
  assumes "default_packets Ts" and "sent_ok Ts ms"
  shows "list_all (conforming (default_config Ts ap mon)) (sent_events ms)"
proof -
  have "length packet = pt_size T'"
    if "(noise, seq, T, packet) \<in> set ms" "T' \<in> set Ts" "pt_cmd T' = pt_cmd T" for noise seq T packet T'
  proof -
    have "T \<in> set Ts" "length packet = pt_size T"
      using assms(2) that(1) by (fastforce simp: sent_ok_def list_all_iff)+
    moreover have "inj_on pt_cmd (set Ts)" using assms(1) by (simp add: default_packets_def distinct_map)
    ultimately show ?thesis using that(2,3) by (metis inj_onD)
  qed
  then show ?thesis by (fastforce simp: list_all_iff conforming_def sent_events_def)
qed

lemma parser_init_ready:
  assumes "default_packets Ts" and "2 * N + 2 * max_frame_size Ts \<le> calculate_buffer_size Ts"
  shows "parser_ready (default_config Ts ap mon) N (parser_init Ts m)"
proof -
  have "0 < max_frame_size Ts"
    using assms(1) max_frame_size_ge [of "hd Ts" Ts] by (cases Ts) (auto simp: default_packets_def frame_size_def)
  then show ?thesis using assms
    by (simp add: parser_ready_def parser_init_def bip_slack_def bip_home_def bip_init_def bip_available_def bip_inv_def
        calculate_max_frame_size_eq)
qed

lemma default_stream:
  assumes "default_packets Ts" and "sent_ok Ts ms"
    and "2 * N + 2 * max_frame_size Ts \<le> calculate_buffer_size Ts"
    and "concat cs = sent_bytes ms" and "list_all (\<lambda>c. length c \<le> N) cs"
  shows "\<exists>b'. push_chunks (default_config Ts ap mon) cs (parser_init Ts m) s =
      Some (Inr (replicate (length cs) (Inr ()), parsed (default_config Ts ap mon) (sent_events ms) b' (parser_init Ts m, s)))
    \<and> bip_contents b' = []"
proof -
  have init: "bip_contents (buffer (parser_init Ts m)) = []" by (simp add: parser_init_def)
  let ?cfg = "default_config Ts ap mon"
  have "\<exists>b'. push_chunks ?cfg cs (parser_init Ts m) s =
      Some (Inr (replicate (length cs) (Inr ()), parsed ?cfg (sent_events ms) b' (parser_init Ts m, s)))
    \<and> bip_contents b' = [] \<and> parser_ready ?cfg N (fst (parsed ?cfg (sent_events ms) b' (parser_init Ts m, s)))"
  proof (rule push_chunks_scan)
    show "wf_config ?cfg" by (rule wf_default_config [OF assms(1)])
    show "parser_ready ?cfg N (parser_init Ts m)" by (rule parser_init_ready [OF assms(1,3)])
    show "\<forall>c\<in>set cs. length c \<le> N" using assms(5) by (simp add: list_all_iff)
    show "scan (is_start ?cfg) (judge ?cfg) (bip_contents (buffer (parser_init Ts m)) @ concat cs) = (sent_events ms, [])"
      using default_scan [OF assms(1,2)] by (simp add: init assms(4))
    show "list_all (conforming ?cfg) (sent_events ms)" by (rule sent_conforming [OF assms(1,2)])
  qed (simp_all add: init)
  then show ?thesis by blast
qed

end
