(* ===== verification/Isr_Ring.thy ===== *)
theory Isr_Ring
  imports Fifo
begin

text \<open>
  \<open>ISRRingBuffer<Capacity>\<close>: a power-of-two array addressed by free-running \<open>size_t\<close> counters that
  wrap at the word size. The word size is a type variable, so the results hold of the 32-bit firmware
  and of the 64-bit host. \<open>write\<close>, \<open>read\<close>, \<open>available\<close>, \<open>dropped_writes\<close> and \<open>clear\<close> are modelled
  with their index arithmetic on words; the abstraction is the queue of unread bytes.
\<close>

section \<open>State and operations\<close>

record 'size_t isr_ring =
  rb_buf :: bytes
  rb_write_idx :: 'size_t
  rb_drop_count :: 'size_t
  rb_read_idx :: 'size_t

abbreviation rb_capacity :: "'s isr_ring \<Rightarrow> nat" where
  "rb_capacity r \<equiv> length (rb_buf r)"

definition isr_init :: "nat \<Rightarrow> 'w::len word isr_ring" where
  "isr_init capacity =
     \<lparr>rb_buf = replicate capacity 0, rb_write_idx = 0, rb_drop_count = 0, rb_read_idx = 0\<rparr>"

text \<open>The two-part \<open>memcpy\<close> into and out of the array at a masked index.\<close>

definition ring_put :: "bytes \<Rightarrow> nat \<Rightarrow> bytes \<Rightarrow> bytes" where
  "ring_put buf wi data =
     (let first = length buf - wi
      in if length data \<le> first then mem_write buf wi data
         else mem_write (mem_write buf wi (take first data)) 0 (drop first data))"

definition ring_get :: "bytes \<Rightarrow> nat \<Rightarrow> nat \<Rightarrow> bytes" where
  "ring_get buf ri n =
     (let first = length buf - ri
      in if n \<le> first then mem_read buf ri n
         else mem_read buf ri first @ mem_read buf 0 (n - first))"

definition isr_write :: "bytes \<Rightarrow> 'w::len word isr_ring \<Rightarrow> bool \<times> 'w word isr_ring" where
  "isr_write data r =
     (if length data > rb_capacity r then (False, r\<lparr>rb_drop_count := rb_drop_count r + 1\<rparr>)
      else
        let w = rb_write_idx r;
            avail = of_nat (rb_capacity r) - (w - rb_read_idx r)
        in if length data > unat avail then (False, r\<lparr>rb_drop_count := rb_drop_count r + 1\<rparr>)
           else
             let wi = unat (w AND (of_nat (rb_capacity r) - 1))
             in (True, r\<lparr>rb_buf := ring_put (rb_buf r) wi data, rb_write_idx := w + of_nat (length data)\<rparr>))"

definition isr_available :: "'w::len word isr_ring \<Rightarrow> nat" where
  "isr_available r = unat (rb_write_idx r - rb_read_idx r)"

definition isr_dropped_writes :: "'w::len word isr_ring \<Rightarrow> 'w word" where
  "isr_dropped_writes r = rb_drop_count r"

definition isr_read :: "nat \<Rightarrow> 'w::len word isr_ring \<Rightarrow> bytes \<times> 'w word isr_ring" where
  "isr_read mx r =
     (let avail = isr_available r
      in if avail = 0 \<or> mx = 0 then ([], r)
         else
           let n = (if mx < avail then mx else avail);
               ri = unat (rb_read_idx r AND (of_nat (rb_capacity r) - 1))
           in (ring_get (rb_buf r) ri n, r\<lparr>rb_read_idx := rb_read_idx r + of_nat n\<rparr>))"

definition isr_clear :: "'w::len word isr_ring \<Rightarrow> 'w word isr_ring" where
  "isr_clear r = r\<lparr>rb_write_idx := 0, rb_drop_count := 0, rb_read_idx := 0\<rparr>"

section \<open>The circular view\<close>

definition ring_view :: "bytes \<Rightarrow> nat \<Rightarrow> nat \<Rightarrow> bytes" where
  "ring_view buf s n = map (\<lambda>i. buf ! ((s + i) mod length buf)) [0..<n]"

lemma length_ring_view [simp]: "length (ring_view buf s n) = n"
  by (simp add: ring_view_def)

lemma wrap_index: "s < c \<Longrightarrow> i \<le> c \<Longrightarrow> (s + i) mod c = (if s + i < c then s + i else s + i - c)" for s :: nat
  by (simp add: mod_if)

lemma ring_get_view:
  assumes "ri < length buf" and "n \<le> length buf"
  shows "ring_get buf ri n = ring_view buf ri n"
proof (rule nth_equalityI)
  show "length (ring_get buf ri n) = length (ring_view buf ri n)"
    using assms by (simp add: ring_get_def Let_def)
next
  fix i
  assume "i < length (ring_get buf ri n)"
  then have i: "i < n" using assms by (simp add: ring_get_def Let_def split: if_splits)
  show "ring_get buf ri n ! i = ring_view buf ri n ! i"
    using assms i
    by (auto simp: ring_get_def ring_view_def Let_def nth_append mem_read_nth wrap_index add.commute)
qed

lemma length_ring_put [simp]:
  "wi \<le> length buf \<Longrightarrow> length data \<le> length buf \<Longrightarrow> length (ring_put buf wi data) = length buf"
  by (simp add: ring_put_def Let_def)

lemma ring_put_nth:
  assumes "wi < length buf" and "length data \<le> length buf" and "p < length buf"
  shows "ring_put buf wi data ! p =
    (if wi \<le> p \<and> p < wi + length data then data ! (p - wi)
     else if p + length buf < wi + length data then data ! (p + length buf - wi)
     else buf ! p)"
  using assms
  by (auto simp: ring_put_def mem_write_def Let_def nth_append min_def add.commute)

text \<open>Writing right after \<open>n\<close> pending bytes, with room for both, appends to them.\<close>

lemma ring_view_put:
  assumes "0 < length buf" and "n + length data \<le> length buf" and "wi = (s + n) mod length buf"
  shows "ring_view (ring_put buf wi data) s (n + length data) = ring_view buf s n @ data"
proof (rule nth_equalityI)
  show "length (ring_view (ring_put buf wi data) s (n + length data)) = length (ring_view buf s n @ data)"
    by simp
next
  fix i
  assume "i < length (ring_view (ring_put buf wi data) s (n + length data))"
  then have i: "i < n + length data" by simp
  let ?c = "length buf"
  define t where "t = s mod ?c"
  have t: "t < ?c" using assms(1) by (simp add: t_def)
  have idx: "(s + j) mod ?c = (t + j) mod ?c" for j by (simp add: t_def mod_add_left_eq)
  have wi: "wi = (if t + n < ?c then t + n else t + n - ?c)"
    using assms t by (simp add: idx wrap_index)
  have wi_less: "wi < ?c" using assms by simp
  have len: "length data \<le> ?c" using assms by simp
  have lp: "length (ring_put buf wi data) = ?c" using wi_less len by simp
  have p: "(t + i) mod ?c = (if t + i < ?c then t + i else t + i - ?c)"
    using i assms t by (simp add: wrap_index)
  have pl: "(t + i) mod ?c < ?c" using assms(1) by simp
  have eq: "ring_view (ring_put buf wi data) s (n + length data) ! i = ring_put buf wi data ! ((t + i) mod ?c)"
    using i by (simp add: ring_view_def lp idx)
  show "ring_view (ring_put buf wi data) s (n + length data) ! i = (ring_view buf s n @ data) ! i"
  proof (cases "i < n")
    case True
    then have "ring_put buf wi data ! ((t + i) mod ?c) = buf ! ((t + i) mod ?c)"
      unfolding ring_put_nth [OF wi_less len pl] using assms(2) t by (auto simp: p wi split: if_splits)
    then show ?thesis using True eq by (simp add: nth_append ring_view_def idx)
  next
    case False
    then have "ring_put buf wi data ! ((t + i) mod ?c) = data ! (i - n)"
      unfolding ring_put_nth [OF wi_less len pl] using assms(2) t i
      by (auto simp: p wi intro!: arg_cong [where f = "nth data"])
    then show ?thesis using False eq by (simp add: nth_append)
  qed
qed

lemma ring_view_append: "ring_view buf s (m + n) = ring_view buf s m @ ring_view buf (s + m) n"
proof -
  have "[0..<m + n] = [0..<m] @ map (\<lambda>i. m + i) [0..<n]"
    by (simp add: map_add_upt add.commute upt_add_eq_append [of 0 m n])
  then show ?thesis by (simp add: ring_view_def add.assoc)
qed

lemma ring_view_mod: "ring_view buf (s mod length buf) n = ring_view buf s n"
  by (simp add: ring_view_def mod_add_left_eq)

section \<open>Invariant and refinement\<close>

text \<open>
  The class's \<open>static_assert\<close> (a power of two, below the range of \<open>size_t\<close>) and the distance of the
  two counters, which is taken modulo the word size.
\<close>

definition isr_inv :: "'w::len word isr_ring \<Rightarrow> bool" where
  "isr_inv r \<longleftrightarrow>
     (\<exists>k. k < LENGTH('w) \<and> rb_capacity r = 2 ^ k) \<and> isr_available r \<le> rb_capacity r"

definition isr_contents :: "'w::len word isr_ring \<Rightarrow> bytes" where
  "isr_contents r = ring_view (rb_buf r) (unat (rb_read_idx r)) (isr_available r)"

lemma isr_init_inv: "k < LENGTH('w::len) \<Longrightarrow> isr_inv (isr_init (2 ^ k) :: 'w word isr_ring)"
  by (auto simp: isr_inv_def isr_init_def isr_available_def)

lemma isr_init_contents [simp]: "isr_contents (isr_init c) = []"
  by (simp add: isr_contents_def isr_init_def isr_available_def ring_view_def)

lemma isr_clear_inv: "isr_inv r \<Longrightarrow> isr_inv (isr_clear r) \<and> isr_contents (isr_clear r) = []"
  by (auto simp: isr_inv_def isr_clear_def isr_available_def isr_contents_def ring_view_def)

lemma isr_mask_index:
  assumes "isr_inv (r :: 'w::len word isr_ring)"
  shows "unat (x AND (of_nat (rb_capacity r) - 1)) = unat x mod rb_capacity r"
proof -
  from assms obtain k where k: "k < LENGTH('w)" "rb_capacity r = 2 ^ k" by (auto simp: isr_inv_def)
  then have "x AND (of_nat (rb_capacity r) - 1) = x AND mask k"
    by (simp add: mask_eq_exp_minus_1)
  with k show ?thesis by (simp only: and_mask_mod)
qed

text \<open>Moving a counter by \<open>n\<close> moves the masked index by \<open>n\<close>, also across the wrap of the counter.\<close>

lemma isr_index_add:
  assumes "isr_inv (r :: 'w::len word isr_ring)"
  shows "unat (x + of_nat n) mod rb_capacity r = (unat (x :: 'w word) + n) mod rb_capacity r"
proof -
  from assms obtain k where k: "k < LENGTH('w)" "rb_capacity r = 2 ^ k" by (auto simp: isr_inv_def)
  then have "rb_capacity r dvd 2 ^ LENGTH('w)" by (simp add: le_imp_power_dvd)
  then show ?thesis
    by (simp add: unat_word_ariths unat_of_nat mod_mod_cancel mod_add_right_eq)
qed

lemma isr_capacity_bounds:
  assumes "isr_inv (r :: 'w::len word isr_ring)"
  shows "0 < rb_capacity r" and "rb_capacity r < 2 ^ LENGTH('w)"
  using assms by (auto simp: isr_inv_def)

lemma isr_free:
  assumes "isr_inv (r :: 'w::len word isr_ring)"
  shows "unat (of_nat (rb_capacity r) - (rb_write_idx r - rb_read_idx r)) = rb_capacity r - isr_available r"
proof -
  have "isr_available r \<le> rb_capacity r" using assms by (simp add: isr_inv_def)
  moreover have "unat (of_nat (rb_capacity r) :: 'w word) = rb_capacity r"
    using isr_capacity_bounds [OF assms] by (simp add: unat_of_nat)
  ultimately show ?thesis
    by (simp add: isr_available_def unat_sub word_le_nat_alt)
qed

lemma isr_write_cases:
  assumes "isr_inv (r :: 'w::len word isr_ring)"
  shows "isr_write data r =
    (if length data \<le> rb_capacity r - isr_available r
     then (True, r\<lparr>rb_buf := ring_put (rb_buf r) (unat (rb_write_idx r) mod rb_capacity r) data,
                   rb_write_idx := rb_write_idx r + of_nat (length data)\<rparr>)
     else (False, r\<lparr>rb_drop_count := rb_drop_count r + 1\<rparr>))"
  by (auto simp: isr_write_def Let_def isr_free [OF assms] isr_mask_index [OF assms])

lemma isr_write_index:
  assumes "isr_inv (r :: 'w::len word isr_ring)"
  shows "unat (rb_write_idx r) mod rb_capacity r = (unat (rb_read_idx r) + isr_available r) mod rb_capacity r"
  using isr_index_add [OF assms, of "rb_read_idx r" "isr_available r"] by (simp add: isr_available_def)

lemma isr_available_add:
  assumes "isr_available (r :: 'w::len word isr_ring) + n < 2 ^ LENGTH('w)"
  shows "unat (rb_write_idx r + of_nat n - rb_read_idx r) = isr_available r + n"
proof -
  have "rb_write_idx r + of_nat n - rb_read_idx r = of_nat (isr_available r + n)"
    by (simp add: isr_available_def)
  then show ?thesis using assms by (simp only: unat_of_nat) simp
qed

lemma isr_write_accepted:
  assumes inv: "isr_inv (r :: 'w::len word isr_ring)" and room: "length data \<le> rb_capacity r - isr_available r"
    and w: "isr_write data r = (ok, r')"
  shows "ok \<and> isr_inv r' \<and> isr_contents r' = isr_contents r @ data \<and> rb_capacity r' = rb_capacity r"
proof -
  let ?wi = "unat (rb_write_idx r) mod rb_capacity r"
  note cap = isr_capacity_bounds [OF inv]
  have fit: "isr_available r + length data \<le> rb_capacity r"
    using room inv unfolding isr_inv_def by linarith
  have r': "ok" "r' = r\<lparr>rb_buf := ring_put (rb_buf r) ?wi data, rb_write_idx := rb_write_idx r + of_nat (length data)\<rparr>"
    using w room by (simp_all add: isr_write_cases [OF inv])
  have len: "rb_capacity r' = rb_capacity r" using cap fit by (simp add: r')
  have av: "isr_available r' = isr_available r + length data"
    using isr_available_add [of r "length data"] fit cap by (simp add: r' isr_available_def)
  have "isr_contents r' = ring_view (ring_put (rb_buf r) ?wi data) (unat (rb_read_idx r)) (isr_available r + length data)"
    by (simp add: isr_contents_def av) (simp add: r')
  also have "\<dots> = isr_contents r @ data"
    unfolding isr_contents_def by (rule ring_view_put) (use cap fit in \<open>simp_all add: isr_write_index [OF inv]\<close>)
  finally show ?thesis using r'(1) len av fit inv by (simp add: isr_inv_def)
qed

lemma isr_advance_read:
  assumes inv: "isr_inv (r :: 'w::len word isr_ring)" and n: "n \<le> isr_available r"
    and r': "r' = r\<lparr>rb_read_idx := rb_read_idx r + of_nat n\<rparr>"
  shows "isr_inv r'" and "isr_contents r' = drop n (isr_contents r)" and "isr_available r' = isr_available r - n"
proof -
  note cap = isr_capacity_bounds [OF inv]
  have le: "isr_available r \<le> rb_capacity r" using inv by (simp add: isr_inv_def)
  have "rb_write_idx r' - rb_read_idx r' = of_nat (isr_available r - n)"
    using n by (simp add: r' isr_available_def of_nat_diff)
  then show av: "isr_available r' = isr_available r - n"
    using le cap by (simp add: isr_available_def [of r'] unat_of_nat)
  then show "isr_inv r'" using inv le by (simp add: isr_inv_def) (simp add: r')
  have "isr_contents r' = ring_view (rb_buf r) (unat (rb_read_idx r + of_nat n)) (isr_available r - n)"
    by (simp add: isr_contents_def av) (simp add: r')
  also have "\<dots> = ring_view (rb_buf r) (unat (rb_read_idx r) + n) (isr_available r - n)"
    by (subst (1 2) ring_view_mod [symmetric]) (simp only: isr_index_add [OF inv])
  also have "\<dots> = drop n (isr_contents r)"
    using ring_view_append [of "rb_buf r" "unat (rb_read_idx r)" n "isr_available r - n"] n by (simp add: isr_contents_def)
  finally show "isr_contents r' = drop n (isr_contents r)" .
qed

lemma isr_read_contents:
  assumes inv: "isr_inv (r :: 'w::len word isr_ring)" and rd: "isr_read mx r = (ys, r')"
  shows "isr_inv r' \<and> ys = take mx (isr_contents r) \<and> isr_contents r' = drop mx (isr_contents r)
    \<and> rb_capacity r' = rb_capacity r"
proof (cases "isr_available r = 0 \<or> mx = 0")
  case True
  then show ?thesis using rd inv by (auto simp: isr_read_def isr_contents_def ring_view_def)
next
  case False
  define n where "n = min mx (isr_available r)"
  have n: "n \<le> isr_available r" "isr_available r \<le> rb_capacity r" using inv by (simp_all add: n_def isr_inv_def)
  have ys: "ys = ring_get (rb_buf r) (unat (rb_read_idx r) mod rb_capacity r) n"
    and r': "r' = r\<lparr>rb_read_idx := rb_read_idx r + of_nat n\<rparr>"
    using rd False by (auto simp: isr_read_def Let_def n_def min_def isr_mask_index [OF inv])
  note adv = isr_advance_read [OF inv n(1) r']
  have "ys = ring_view (rb_buf r) (unat (rb_read_idx r)) n"
    using ys isr_capacity_bounds [OF inv] n by (simp add: ring_get_view ring_view_mod)
  also have "\<dots> = take n (isr_contents r)"
    using ring_view_append [of "rb_buf r" "unat (rb_read_idx r)" n "isr_available r - n"] n by (simp add: isr_contents_def)
  finally have "ys = take n (isr_contents r)" .
  moreover have "take n (isr_contents r) = take mx (isr_contents r)" "drop n (isr_contents r) = drop mx (isr_contents r)"
    by (simp_all add: n_def min_def isr_contents_def)
  ultimately show ?thesis using adv r' by simp
qed

interpretation isr: bounded_fifo isr_contents isr_inv isr_write isr_read rb_capacity
proof (unfold_locales, goal_cases)
  case (1 q xs q')
  then show ?case using isr_write_accepted [OF 1(1) _ 1(2)] by (auto simp: isr_write_cases split: if_splits)
next
  case (2 q xs q')
  then have "q' = q\<lparr>rb_drop_count := rb_drop_count q + 1\<rparr>" by (auto simp: isr_write_cases split: if_splits)
  then show ?case using 2(1) by (simp add: isr_inv_def isr_contents_def isr_available_def)
next
  case (3 q n ys q')
  then show ?case using isr_read_contents [OF 3] by simp
next
  case (4 q)
  then show ?case by (simp add: isr_inv_def isr_contents_def)
next
  case (5 q xs ok q')
  then show ?case using isr_write_accepted [OF 5(1) _ 5(2)]
    by (cases "length xs \<le> rb_capacity q - isr_available q") (auto simp: isr_write_cases)
next
  case (6 q n ys q')
  then show ?case using isr_read_contents [OF 6] by simp
qed

end
