(* ===== verification/Id_Ring.thy ===== *)
theory Id_Ring
  imports Prelude
begin

text \<open>
  \<open>IdRingBuffer<T, Capacity>\<close>, the fixed-size memory of recent identifiers, and \<open>compose_dedup_key\<close>.
  The contract its client relies on is the locale \<open>dedup_window\<close>: a sliding window over the last
  \<open>Capacity\<close> fresh identifiers. The ring is its interpretation.
\<close>

section \<open>The ring\<close>

record 'k id_ring =
  ids :: "'k list"
  write_idx :: nat

definition id_ring_init :: "nat \<Rightarrow> 'k::zero id_ring" where
  "id_ring_init capacity = \<lparr>ids = replicate capacity 0, write_idx = 0\<rparr>"

definition test_and_insert :: "'k \<Rightarrow> 'k id_ring \<Rightarrow> bool \<times> 'k id_ring" where
  "test_and_insert k r =
     (if List.member (ids r) k then (True, r)
      else (False, r\<lparr>ids := (ids r)[write_idx r := k],
                     write_idx := (write_idx r + 1) AND (length (ids r) - 1)\<rparr>))"

definition id_ring_clear :: "'k::zero id_ring \<Rightarrow> 'k id_ring" where
  "id_ring_clear r = r\<lparr>ids := replicate (length (ids r)) 0, write_idx := 0\<rparr>"

definition id_ring_size :: "'k id_ring \<Rightarrow> nat" where
  "id_ring_size r = length (ids r)"

definition compose_dedup_key :: "u16 \<Rightarrow> u32 \<Rightarrow> u64" where
  "compose_dedup_key cmd_id tx_id = push_bit 32 (ucast cmd_id) OR ucast tx_id"

section \<open>The sliding-window contract\<close>

fun dedup_run :: "('k \<Rightarrow> 'r \<Rightarrow> bool \<times> 'r) \<Rightarrow> 'k list \<Rightarrow> 'r \<Rightarrow> 'r" where
  "dedup_run tai [] r = r"
| "dedup_run tai (k # ks) r = dedup_run tai ks (snd (tai k r))"

locale dedup_window =
  fixes window :: "'r \<Rightarrow> 'k list"
    and invar :: "'r \<Rightarrow> bool"
    and tai :: "'k \<Rightarrow> 'r \<Rightarrow> bool \<times> 'r"
  assumes tai_seen: "invar r \<Longrightarrow> k \<in> set (window r) \<Longrightarrow> tai k r = (True, r)"
    and tai_fresh: "invar r \<Longrightarrow> k \<notin> set (window r) \<Longrightarrow>
      \<exists>r'. tai k r = (False, r') \<and> invar r' \<and> window r' = tl (window r) @ [k]"
    and window_nonempty: "invar r \<Longrightarrow> window r \<noteq> []"
begin

lemma tai_invar: "invar r \<Longrightarrow> invar (snd (tai k r))"
  using tai_seen tai_fresh by (cases "k \<in> set (window r)") fastforce+

lemma tai_result: "invar r \<Longrightarrow> fst (tai k r) \<longleftrightarrow> k \<in> set (window r)"
  using tai_seen tai_fresh by (cases "k \<in> set (window r)") fastforce+

lemma tai_window_length: "invar r \<Longrightarrow> length (window (snd (tai k r))) = length (window r)"
  using tai_seen tai_fresh window_nonempty [of r] by (cases "k \<in> set (window r)") fastforce+

text \<open>A key leaves the window only when it is oldest and a fresh key arrives.\<close>

lemma tai_keeps:
  assumes "invar r" and "i < length (window r)" and "window r ! i = k" and "0 < i"
  shows "\<exists>j. window (snd (tai k' r)) ! j = k \<and> j < length (window r) \<and> i - 1 \<le> j"
proof (cases "k' \<in> set (window r)")
  case True
  then show ?thesis using assms tai_seen [OF assms(1) True] by (intro exI [of _ i]) auto
next
  case False
  from tai_fresh [OF assms(1) False] obtain r' where "tai k' r = (False, r')" and "window r' = tl (window r) @ [k']"
    by blast
  then show ?thesis using assms by (intro exI [of _ "i - 1"]) (auto simp: nth_append nth_tl)
qed

lemma run_keeps:
  "invar r \<Longrightarrow> i < length (window r) \<Longrightarrow> window r ! i = k \<Longrightarrow> length ks \<le> i \<Longrightarrow>
     invar (dedup_run tai ks r) \<and> k \<in> set (window (dedup_run tai ks r))"
proof (induction ks arbitrary: r i)
  case Nil
  then show ?case by auto
next
  case (Cons k' ks)
  then have "0 < i" by simp
  from tai_keeps [OF Cons.prems(1-3) this] obtain j where
    j: "window (snd (tai k' r)) ! j = k" "j < length (window r)" "i - 1 \<le> j" by blast
  have "invar (dedup_run tai ks (snd (tai k' r))) \<and> k \<in> set (window (dedup_run tai ks (snd (tai k' r))))"
    by (rule Cons.IH [of _ j]) (use Cons.prems j in \<open>simp_all add: tai_invar tai_window_length\<close>)
  then show ?case by simp
qed

text \<open>After a key is seen, it is recognised through any \<open>length (window r) - 1\<close> further tests.\<close>

lemma recognised_after_fresh:
  assumes "invar r" and "k \<notin> set (window r)" and "length ks < length (window r)"
  shows "fst (tai k (dedup_run tai ks (snd (tai k r))))"
proof -
  from tai_fresh [OF assms(1,2)] obtain r' where r': "tai k r = (False, r')" "invar r'" "window r' = tl (window r) @ [k]"
    by blast
  have pos: "0 < length (window r)" using window_nonempty [OF assms(1)] by simp
  have "window r' ! (length (window r) - 1) = k" and "length (window r') = length (window r)"
    using r' pos by (simp_all add: nth_append)
  then have "invar (dedup_run tai ks r') \<and> k \<in> set (window (dedup_run tai ks r'))"
    using run_keeps [OF r'(2), of "length (window r) - 1" k ks] assms(3) pos by auto
  then show ?thesis using r' by (simp add: tai_result)
qed

end

section \<open>The ring implements the window\<close>

definition id_ring_inv :: "'k id_ring \<Rightarrow> bool" where
  "id_ring_inv r \<longleftrightarrow> (\<exists>n. length (ids r) = 2 ^ n) \<and> write_idx r < length (ids r)"

definition id_ring_window :: "'k id_ring \<Rightarrow> 'k list" where
  "id_ring_window r = drop (write_idx r) (ids r) @ take (write_idx r) (ids r)"

lemma id_ring_init_inv: "id_ring_inv (id_ring_init (2 ^ n))"
  by (auto simp: id_ring_inv_def id_ring_init_def)

lemma id_ring_clear_inv: "id_ring_inv r \<Longrightarrow> id_ring_inv (id_ring_clear r)"
  by (auto simp: id_ring_inv_def id_ring_clear_def)

lemma set_id_ring_window [simp]: "set (id_ring_window r) = set (ids r)"
  by (metis id_ring_window_def append_take_drop_id set_append sup_commute)

lemma length_id_ring_window [simp]: "length (id_ring_window r) = length (ids r)"
  by (simp add: id_ring_window_def)

lemma id_ring_next_idx:
  "id_ring_inv r \<Longrightarrow> (write_idx r + 1) AND (length (ids r) - 1) = (write_idx r + 1) mod length (ids r)"
proof -
  assume "id_ring_inv r"
  then obtain n where n: "length (ids r) = 2 ^ n" by (auto simp: id_ring_inv_def)
  have "(write_idx r + 1) AND (2 ^ n - 1) = take_bit n (write_idx r + 1)"
    by (simp only: take_bit_eq_mask mask_nat_def)
  then show ?thesis by (simp only: n take_bit_eq_mod)
qed

lemma id_ring_insert_window:
  assumes "id_ring_inv r"
  shows "id_ring_window (r\<lparr>ids := (ids r)[write_idx r := k],
      write_idx := (write_idx r + 1) mod length (ids r)\<rparr>) = tl (id_ring_window r) @ [k]"
proof -
  from assms have w: "write_idx r < length (ids r)" by (simp add: id_ring_inv_def)
  then have upd: "(ids r)[write_idx r := k] = take (write_idx r) (ids r) @ k # drop (Suc (write_idx r)) (ids r)"
    by (rule upd_conv_take_nth_drop)
  have "drop (write_idx r) (ids r) \<noteq> []" using w by simp
  then have tl: "tl (id_ring_window r) = drop (Suc (write_idx r)) (ids r) @ take (write_idx r) (ids r)"
    by (simp add: id_ring_window_def tl_append2 drop_Suc tl_drop)
  show ?thesis
  proof (cases "Suc (write_idx r) = length (ids r)")
    case True
    then show ?thesis using w by (simp add: tl) (simp add: id_ring_window_def upd)
  next
    case False
    then show ?thesis using w by (simp add: tl) (simp add: id_ring_window_def upd)
  qed
qed

interpretation idr: dedup_window id_ring_window id_ring_inv test_and_insert
proof (unfold_locales, goal_cases)
  case (1 r k)
  then show ?case by (simp add: test_and_insert_def)
next
  case (2 r k)
  then have "0 < length (ids r)" by (auto simp: id_ring_inv_def)
  then show ?case using 2 id_ring_insert_window [OF 2(1), of k]
    by (auto simp: test_and_insert_def id_ring_next_idx [OF 2(1), simplified] id_ring_inv_def)
next
  case (3 r)
  then show ?case by (auto simp: id_ring_inv_def id_ring_window_def)
qed

lemma test_and_insert_length: "length (ids (snd (test_and_insert k r))) = length (ids r)"
  by (simp add: test_and_insert_def)

section \<open>Keys\<close>

lemma compose_dedup_key_inject:
  "compose_dedup_key c t = compose_dedup_key c' t' \<longleftrightarrow> c = c' \<and> t = t'"
proof
  assume eq: "compose_dedup_key c t = compose_dedup_key c' t'"
  have bits: "bit (compose_dedup_key a b) i = (if i < 32 then bit b i else bit a (i - 32))" for a b i
    by (auto simp: compose_dedup_key_def bit_or_iff bit_push_bit_iff bit_word_ucast_iff dest: bit_imp_le_length)
  have "bit t i = bit t' i" if "i < 32" for i
    using arg_cong [OF eq, of "\<lambda>w. bit w i"] that by (simp add: bits)
  moreover have "bit c i = bit c' i" for i
    using arg_cong [OF eq, of "\<lambda>w. bit w (i + 32)"] by (simp add: bits)
  ultimately show "c = c' \<and> t = t'" by (auto intro: bit_word_eqI)
qed simp

lemma compose_dedup_key_nonzero: "t \<noteq> 0 \<Longrightarrow> compose_dedup_key c t \<noteq> 0"
  using compose_dedup_key_inject [of c t 0 0] by (auto simp: compose_dedup_key_def)

end
