(* ===== verification/Reliable_Session.thy ===== *)
theory Reliable_Session
  imports Id_Ring
begin

text \<open>
  \<open>ReliableSession<Clock>\<close>. Every reading of \<open>Clock::now()\<close> is an argument; \<open>std::function\<close> callbacks are
  identifiers, and an operation returns the calls it makes. The hash map \<open>unordered_dense::map\<close> is a
  partial map; where the code iterates over it, the order is an argument (a list of its keys). The byte
  arrays with a length are lists, cut at \<open>MAX_PACKET_SIZE\<close> as the code cuts them.
\<close>

section \<open>State\<close>

datatype SessionError = TransportFailure | Timeout

record session_config =
  window_size :: nat
  cfg_timeout :: int
  cfg_max_retries :: u8
  device_cache_capacity :: nat

record ('r, 'e) PendingEntry =
  pe_tx_id :: u32
  pe_request_cmd :: u16
  pe_response_cmd :: u16
  pe_request_bytes :: bytes
  pe_on_response :: "'r option"
  pe_on_error :: "'e option"
  pe_timeout :: int
  pe_max_retries :: u8
  pe_retry_count :: u8
  pe_inflight :: bool
  pe_deadline :: int

record CompletedResponse =
  cr_response_cmd :: u16
  cr_response_bytes :: bytes

record ('r, 'e) session =
  m_config :: session_config
  m_next_tx_id :: u32
  m_inflight_count :: nat
  m_pending_by_tx :: "u32 \<rightharpoonup> ('r, 'e) PendingEntry"
  m_outbound_queue :: "u32 list"
  m_completed_cache :: "u64 \<rightharpoonup> CompletedResponse"
  m_completed_order :: "u64 list"
  m_seen_requests :: "u64 id_ring"
  m_seen_responses :: "u64 id_ring"

record RequestResult =
  should_ack :: bool
  is_duplicate :: bool
  cached_response :: "CompletedResponse option"

record RetransmitEntry =
  re_tx_id :: u32
  re_request_cmd :: u16
  re_request_bytes :: bytes

text \<open>The calls of user callbacks an operation makes.\<close>

datatype ('r, 'e) callback = Call_Response 'r bytes | Call_Error 'e SessionError

definition MAX_PACKET_SIZE :: nat where
  "MAX_PACKET_SIZE = 256"

definition default_session_config :: session_config where
  "default_session_config =
     \<lparr>window_size = 1, cfg_timeout = 200000, cfg_max_retries = 3, device_cache_capacity = 64\<rparr>"

definition session_init :: "session_config \<Rightarrow> ('r, 'e) session" where
  "session_init config =
     \<lparr>m_config = (if window_size config = 0 then config\<lparr>window_size := 1\<rparr> else config),
      m_next_tx_id = 1, m_inflight_count = 0, m_pending_by_tx = Map.empty, m_outbound_queue = [],
      m_completed_cache = Map.empty, m_completed_order = [],
      m_seen_requests = id_ring_init 64, m_seen_responses = id_ring_init 64\<rparr>"

section \<open>Host side\<close>

definition next_tx_id :: "('r, 'e) session \<Rightarrow> u32 \<times> ('r, 'e) session" where
  "next_tx_id s = (m_next_tx_id s, s\<lparr>m_next_tx_id := m_next_tx_id s + 1\<rparr>)"

definition set_next_tx_id :: "u32 \<Rightarrow> ('r, 'e) session \<Rightarrow> ('r, 'e) session" where
  "set_next_tx_id next_id s = s\<lparr>m_next_tx_id := (if next_id = 0 then 1 else next_id)\<rparr>"

definition register_pending ::
  "u32 \<Rightarrow> u16 \<Rightarrow> u16 \<Rightarrow> bytes \<Rightarrow> 'r option \<Rightarrow> 'e option \<Rightarrow> int \<Rightarrow> u8 \<Rightarrow> int \<Rightarrow> ('r, 'e) session \<Rightarrow> ('r, 'e) session" where
  "register_pending tx_id request_cmd response_cmd request on_resp on_err timeout max_retries now s =
     (let pending = \<lparr>pe_tx_id = tx_id, pe_request_cmd = request_cmd, pe_response_cmd = response_cmd,
            pe_request_bytes = take MAX_PACKET_SIZE request, pe_on_response = on_resp, pe_on_error = on_err,
            pe_timeout = timeout, pe_max_retries = max_retries, pe_retry_count = 0, pe_inflight = False,
            pe_deadline = now + timeout\<rparr>
      in s\<lparr>m_pending_by_tx := (m_pending_by_tx s)(tx_id \<mapsto> pending),
           m_outbound_queue := m_outbound_queue s @ [tx_id]\<rparr>)"

definition on_ack :: "u32 \<Rightarrow> int \<Rightarrow> ('r, 'e) session \<Rightarrow> ('r, 'e) session" where
  "on_ack tx_id now s =
     (case m_pending_by_tx s tx_id of
        None \<Rightarrow> s
      | Some p \<Rightarrow>
          if \<not> pe_inflight p then s
          else s\<lparr>m_pending_by_tx := (m_pending_by_tx s)(tx_id \<mapsto> p\<lparr>pe_deadline := now + pe_timeout p\<rparr>)\<rparr>)"

definition erase_pending :: "u32 \<Rightarrow> ('r, 'e) PendingEntry \<Rightarrow> ('r, 'e) session \<Rightarrow> ('r, 'e) session" where
  "erase_pending tx_id p s =
     s\<lparr>m_inflight_count := (if pe_inflight p \<and> m_inflight_count s > 0 then m_inflight_count s - 1
                             else m_inflight_count s),
       m_pending_by_tx := (m_pending_by_tx s)(tx_id := None)\<rparr>"

definition on_response ::
  "u16 \<Rightarrow> u32 \<Rightarrow> bytes \<Rightarrow> ('r, 'e) session \<Rightarrow> ('r, 'e) callback list \<times> ('r, 'e) session" where
  "on_response cmd_id tx_id data s =
     (let (seen, ring) = test_and_insert (compose_dedup_key cmd_id tx_id) (m_seen_responses s);
          s = s\<lparr>m_seen_responses := ring\<rparr>
      in if seen then ([], s)
         else case m_pending_by_tx s tx_id of
                None \<Rightarrow> ([], s)
              | Some p \<Rightarrow>
                  ((case pe_on_response p of
                      Some cb \<Rightarrow> if pe_response_cmd p = cmd_id then [Call_Response cb data] else []
                    | None \<Rightarrow> []),
                   erase_pending tx_id p s))"

definition retransmit_entry :: "('r, 'e) PendingEntry \<Rightarrow> RetransmitEntry" where
  "retransmit_entry p =
     \<lparr>re_tx_id = pe_tx_id p, re_request_cmd = pe_request_cmd p, re_request_bytes = pe_request_bytes p\<rparr>"

text \<open>
  The loop of \<open>poll\<close> over the keys \<open>ks\<close>; \<open>nows k\<close> is the clock when entry \<open>k\<close> is rescheduled. The
  retries and the error callbacks, each in order.
\<close>

fun poll_loop ::
  "int \<Rightarrow> (u32 \<Rightarrow> int) \<Rightarrow> u32 list \<Rightarrow> ('r, 'e) session
     \<Rightarrow> RetransmitEntry list \<times> ('r, 'e) callback list \<times> ('r, 'e) session" where
  "poll_loop now nows [] s = ([], [], s)"
| "poll_loop now nows (k # ks) s =
     (case m_pending_by_tx s k of
        None \<Rightarrow> poll_loop now nows ks s
      | Some p \<Rightarrow>
          if \<not> pe_inflight p \<or> now < pe_deadline p then poll_loop now nows ks s
          else if pe_retry_count p \<ge> pe_max_retries p then
            (let (retries, callbacks, s) = poll_loop now nows ks (erase_pending k p s)
             in (retries,
                 (case pe_on_error p of Some cb \<Rightarrow> [Call_Error cb Timeout] | None \<Rightarrow> []) @ callbacks, s))
          else
            (let p = p\<lparr>pe_retry_count := pe_retry_count p + 1, pe_deadline := nows k + pe_timeout p\<rparr>;
                 (retries, callbacks, s) =
                   poll_loop now nows ks (s\<lparr>m_pending_by_tx := (m_pending_by_tx s)(k \<mapsto> p)\<rparr>)
             in (retransmit_entry p # retries, callbacks, s)))"

definition poll ::
  "int \<Rightarrow> (u32 \<Rightarrow> int) \<Rightarrow> u32 list \<Rightarrow> ('r, 'e) session
     \<Rightarrow> RetransmitEntry list \<times> ('r, 'e) callback list \<times> ('r, 'e) session" where
  "poll now nows ks s = poll_loop now nows ks s"

fun next_outbound_loop ::
  "int \<Rightarrow> u32 list \<Rightarrow> ('r, 'e) session \<Rightarrow> RetransmitEntry option \<times> ('r, 'e) session" where
  "next_outbound_loop now [] s = (None, s\<lparr>m_outbound_queue := []\<rparr>)"
| "next_outbound_loop now (tx_id # q) s =
     (if m_inflight_count s < window_size (m_config s) then
        case m_pending_by_tx s tx_id of
          None \<Rightarrow> next_outbound_loop now q s
        | Some p \<Rightarrow>
            let p = p\<lparr>pe_inflight := True, pe_deadline := now + pe_timeout p\<rparr>
            in (Some (retransmit_entry p),
                s\<lparr>m_outbound_queue := q, m_pending_by_tx := (m_pending_by_tx s)(tx_id \<mapsto> p),
                  m_inflight_count := m_inflight_count s + 1\<rparr>)
      else (None, s\<lparr>m_outbound_queue := tx_id # q\<rparr>))"

definition next_outbound :: "int \<Rightarrow> ('r, 'e) session \<Rightarrow> RetransmitEntry option \<times> ('r, 'e) session" where
  "next_outbound now s = next_outbound_loop now (m_outbound_queue s) s"

definition inflight_count :: "('r, 'e) session \<Rightarrow> nat" where
  "inflight_count s = m_inflight_count s"

definition earlier_deadline :: "('r, 'e) session \<Rightarrow> u32 \<Rightarrow> int option \<Rightarrow> int option" where
  "earlier_deadline s k earliest =
     (case m_pending_by_tx s k of
        None \<Rightarrow> earliest
      | Some p \<Rightarrow>
          if \<not> pe_inflight p then earliest
          else case earliest of
                 None \<Rightarrow> Some (pe_deadline p)
               | Some e \<Rightarrow> if pe_deadline p < e then Some (pe_deadline p) else earliest)"

definition next_deadline :: "u32 list \<Rightarrow> ('r, 'e) session \<Rightarrow> int option" where
  "next_deadline ks s = fold (earlier_deadline s) ks None"

section \<open>Device side\<close>

definition on_request :: "u16 \<Rightarrow> u32 \<Rightarrow> ('r, 'e) session \<Rightarrow> RequestResult \<times> ('r, 'e) session" where
  "on_request cmd_id tx_id s =
     (let dk = compose_dedup_key cmd_id tx_id;
          (seen, ring) = test_and_insert dk (m_seen_requests s)
      in if seen then
           (\<lparr>should_ack = True, is_duplicate = True, cached_response = m_completed_cache s dk\<rparr>,
            s\<lparr>m_seen_requests := ring\<rparr>)
         else
           (\<lparr>should_ack = True, is_duplicate = False, cached_response = None\<rparr>, s\<lparr>m_seen_requests := ring\<rparr>))"

function shrink_device_cache :: "('r, 'e) session \<Rightarrow> ('r, 'e) session" where
  "shrink_device_cache s =
     (if length (m_completed_order s) > device_cache_capacity (m_config s) then
        shrink_device_cache
          (s\<lparr>m_completed_order := tl (m_completed_order s),
             m_completed_cache := (m_completed_cache s)(hd (m_completed_order s) := None)\<rparr>)
      else s)"
  by pat_completeness auto
termination by (relation "measure (\<lambda>s. length (m_completed_order s))") auto

declare shrink_device_cache.simps [simp del]

definition cache_response :: "u16 \<Rightarrow> u32 \<Rightarrow> u16 \<Rightarrow> bytes \<Rightarrow> ('r, 'e) session \<Rightarrow> ('r, 'e) session" where
  "cache_response cmd_id tx_id response_cmd response s =
     (let dk = compose_dedup_key cmd_id tx_id;
          completed = \<lparr>cr_response_cmd = response_cmd, cr_response_bytes = take MAX_PACKET_SIZE response\<rparr>
      in shrink_device_cache
           (s\<lparr>m_completed_cache := (m_completed_cache s)(dk \<mapsto> completed),
              m_completed_order := m_completed_order s @ [dk]\<rparr>))"

definition reset_device_state :: "('r, 'e) session \<Rightarrow> ('r, 'e) session" where
  "reset_device_state s =
     s\<lparr>m_seen_requests := id_ring_clear (m_seen_requests s), m_seen_responses := id_ring_clear (m_seen_responses s),
       m_completed_cache := Map.empty, m_completed_order := []\<rparr>"

end
