(* ===== verification/Session_Steps.thy ===== *)
theory Session_Steps
  imports Reliable_Session "HOL-Library.Sublist"
begin

text \<open>
  Runs of session operations, and the abstract specification of what an operation does to the pending
  requests: a sequence of steps, each of which leaves the entries alone, postpones one, ends one with its
  response or its error, or transmits one, or the next id is changed. Every operation but the registration
  of a request is such a sequence. A request is registered as \<open>ProtocolStack::send\<close> does it, under the id that
  \<open>next_tx_id\<close> gives.
\<close>

section \<open>Runs\<close>

datatype ('r, 'e) session_op =
    Op_Send u16 u16 bytes "'r option" "'e option" int u8 int
  | Op_Ack u32 int
  | Op_Response u16 u32 bytes
  | Op_Poll int "u32 \<Rightarrow> int" "u32 list"
  | Op_Pump int
  | Op_Request u16 u32
  | Op_Cache u16 u32 u16 bytes
  | Op_Reset
  | Op_Set_Next u32

type_synonym ('r, 'e) outputs = "(u32 \<times> u8) list \<times> RetransmitEntry list \<times> ('r, 'e) callback list"

text \<open>\<open>ProtocolStack::send\<close> on the session: allocate an id and register the request under it.\<close>

definition session_send ::
  "u16 \<Rightarrow> u16 \<Rightarrow> (u32 \<Rightarrow> bytes) \<Rightarrow> 'r option \<Rightarrow> 'e option \<Rightarrow> int \<Rightarrow> u8 \<Rightarrow> int \<Rightarrow> ('r, 'e) session \<Rightarrow> u32 \<times> ('r, 'e) session" where
  "session_send cmd rcmd request on_resp on_err timeout retries now s =
     (let (tx_id, s) = next_tx_id s
      in (tx_id, register_pending tx_id cmd rcmd (request tx_id) on_resp on_err timeout retries now s))"

fun session_exec :: "('r, 'e) session_op \<Rightarrow> ('r, 'e) session \<Rightarrow> ('r, 'e) outputs \<times> ('r, 'e) session" where
  "session_exec (Op_Send cmd rcmd request on_resp on_err timeout retries now) s =
     (let (tx_id, s) = session_send cmd rcmd (\<lambda>_. request) on_resp on_err timeout retries now s
      in (([(tx_id, retries)], [], []), s))"
| "session_exec (Op_Ack tx_id now) s = (([], [], []), on_ack tx_id now s)"
| "session_exec (Op_Response cmd tx_id data) s = (let (cbs, s) = on_response cmd tx_id data s in (([], [], cbs), s))"
| "session_exec (Op_Poll now nows ks) s = (let (res, cbs, s) = poll now nows ks s in (([], res, cbs), s))"
| "session_exec (Op_Pump now) s = (let (re, s) = next_outbound now s in (([], case re of None \<Rightarrow> [] | Some e \<Rightarrow> [e], []), s))"
| "session_exec (Op_Request cmd tx_id) s = (([], [], []), snd (on_request cmd tx_id s))"
| "session_exec (Op_Cache cmd tx_id rcmd data) s = (([], [], []), cache_response cmd tx_id rcmd data s)"
| "session_exec Op_Reset s = (([], [], []), reset_device_state s)"
| "session_exec (Op_Set_Next next_id) s = (([], [], []), set_next_tx_id next_id s)"

fun session_run :: "('r, 'e) session_op list \<Rightarrow> ('r, 'e) session \<Rightarrow> ('r, 'e) outputs \<times> ('r, 'e) session" where
  "session_run [] s = (([], [], []), s)"
| "session_run (op # ops) s =
     (let ((g, t, c), s) = session_exec op s; ((g', t', c'), s) = session_run ops s
      in ((g @ g', t @ t', c @ c'), s))"

lemma session_run_append:
  "session_run (ops @ ops') s =
     (let ((g, t, c), s) = session_run ops s; ((g', t', c'), s) = session_run ops' s in ((g @ g', t @ t', c @ c'), s))"
  by (induction ops arbitrary: s) (simp_all split: prod.split)

section \<open>Operations seen at one entry\<close>

lemma shrink_device_cache_host [simp]:
  "m_pending_by_tx (shrink_device_cache s) = m_pending_by_tx s"
  "m_outbound_queue (shrink_device_cache s) = m_outbound_queue s"
  "m_inflight_count (shrink_device_cache s) = m_inflight_count s"
  "m_config (shrink_device_cache s) = m_config s"
  "m_next_tx_id (shrink_device_cache s) = m_next_tx_id s"
  by (induction s rule: shrink_device_cache.induct; subst shrink_device_cache.simps; simp)+

lemma cache_response_host [simp]:
  "m_pending_by_tx (cache_response cmd tx rcmd bs s) = m_pending_by_tx s"
  "m_outbound_queue (cache_response cmd tx rcmd bs s) = m_outbound_queue s"
  "m_inflight_count (cache_response cmd tx rcmd bs s) = m_inflight_count s"
  "m_config (cache_response cmd tx rcmd bs s) = m_config s"
  "m_next_tx_id (cache_response cmd tx rcmd bs s) = m_next_tx_id s"
  by (simp_all add: cache_response_def Let_def)

lemma on_request_host [simp]:
  "m_pending_by_tx (snd (on_request cmd tx s)) = m_pending_by_tx s"
  "m_outbound_queue (snd (on_request cmd tx s)) = m_outbound_queue s"
  "m_inflight_count (snd (on_request cmd tx s)) = m_inflight_count s"
  "m_config (snd (on_request cmd tx s)) = m_config s"
  "m_next_tx_id (snd (on_request cmd tx s)) = m_next_tx_id s"
  by (simp_all add: on_request_def Let_def split: prod.split)

lemma reset_device_state_host [simp]:
  "m_pending_by_tx (reset_device_state s) = m_pending_by_tx s"
  "m_outbound_queue (reset_device_state s) = m_outbound_queue s"
  "m_inflight_count (reset_device_state s) = m_inflight_count s"
  "m_config (reset_device_state s) = m_config s"
  "m_next_tx_id (reset_device_state s) = m_next_tx_id s"
  by (simp_all add: reset_device_state_def)

text \<open>\<open>on_response\<close> either changes only the ring of seen responses or erases the entry.\<close>

lemma on_response_cases:
  obtains (ignored) ring where "on_response cmd tx data s = ([], s\<lparr>m_seen_responses := ring\<rparr>)"
  | (erased) ring p cbs where "m_pending_by_tx s tx = Some p"
    and "on_response cmd tx data s = (cbs, erase_pending tx p (s\<lparr>m_seen_responses := ring\<rparr>))"
    and "cbs = (case pe_on_response p of Some cb \<Rightarrow> if pe_response_cmd p = cmd then [Call_Response cb data] else [] | None \<Rightarrow> [])"
proof -
  obtain seen ring where t: "test_and_insert (compose_dedup_key cmd tx) (m_seen_responses s) = (seen, ring)"
    by fastforce
  show thesis
  proof (cases "seen \<or> m_pending_by_tx s tx = None")
    case True
    then show ?thesis by (intro ignored [of ring]) (auto simp: on_response_def t Let_def)
  next
    case False
    then obtain p where "m_pending_by_tx s tx = Some p" by auto
    then show ?thesis using False by (intro erased [of p _ ring]) (auto simp: on_response_def t Let_def)
  qed
qed

text \<open>\<open>next_outbound\<close> drops the ids that are gone and sends the first that is there.\<close>

lemma next_outbound_loop_cases:
  obtains (none) q' where "next_outbound_loop now q s = (None, s\<lparr>m_outbound_queue := q'\<rparr>)" and "suffix q' q"
  | (sent) tx p q' where "suffix (tx # q') q" and "m_pending_by_tx s tx = Some p"
    and "m_inflight_count s < window_size (m_config s)"
    and "next_outbound_loop now q s =
      (Some (retransmit_entry p),
       s\<lparr>m_outbound_queue := q',
         m_pending_by_tx := (m_pending_by_tx s)(tx \<mapsto> p\<lparr>pe_inflight := True, pe_deadline := now + pe_timeout p\<rparr>),
         m_inflight_count := m_inflight_count s + 1\<rparr>)"
proof (induction q arbitrary: thesis)
  case Nil
  then show ?case by simp
next
  case (Cons k q)
  show ?case
  proof (cases "m_inflight_count s < window_size (m_config s)")
    case False
    then show ?thesis using Cons.prems(1) [of "k # q"] by simp
  next
    case True
    show ?thesis
    proof (cases "m_pending_by_tx s k")
      case None
      show ?thesis
      proof (rule Cons.IH)
        fix q' assume "next_outbound_loop now q s = (None, s\<lparr>m_outbound_queue := q'\<rparr>)" and "suffix q' q"
        then show thesis using None True by (intro Cons.prems(1) [of q']) (simp_all add: suffix_ConsI)
      next
        fix tx q' p
        assume "suffix (tx # q') q" and "m_pending_by_tx s tx = Some p" and "m_inflight_count s < window_size (m_config s)"
          and "next_outbound_loop now q s = (Some (retransmit_entry p), s\<lparr>m_outbound_queue := q',
            m_pending_by_tx := (m_pending_by_tx s)(tx \<mapsto> p\<lparr>pe_inflight := True, pe_deadline := now + pe_timeout p\<rparr>),
            m_inflight_count := m_inflight_count s + 1\<rparr>)"
        then show thesis using None by (intro Cons.prems(2) [of tx q' p]) (simp_all add: suffix_ConsI fun_upd_def)
      qed
    next
      case (Some p)
      then show ?thesis using True Cons.prems(2) [of k q p] by (simp add: retransmit_entry_def fun_upd_def)
    qed
  qed
qed

section \<open>One entry of a poll\<close>

lemma unat_Suc_retry:
  assumes "r < m"
  shows "unat (r + 1 :: u8) = unat r + 1"
proof -
  have "unat r < unat m" and "unat m < 2 ^ 8"
    using assms unsigned_less [of m, where 'a = nat] by (simp_all add: word_less_nat_alt)
  then show ?thesis by (simp add: unat_word_ariths)
qed

lemma retry_counts:
  assumes "r < (m :: u8)"
  shows "unat m - unat (r + 1) = unat m - unat r - 1" and "unat r < unat m"
  using assms unat_Suc_retry [OF assms] by (simp_all add: word_less_nat_alt)

abbreviation entry_expired :: "int \<Rightarrow> ('r, 'e) PendingEntry \<Rightarrow> bool" where
  "entry_expired now p \<equiv> pe_inflight p \<and> pe_deadline p \<le> now"

definition rescheduled :: "(u32 \<Rightarrow> int) \<Rightarrow> u32 \<Rightarrow> ('r, 'e) PendingEntry \<Rightarrow> ('r, 'e) PendingEntry" where
  "rescheduled nows k p = p\<lparr>pe_retry_count := pe_retry_count p + 1, pe_deadline := nows k + pe_timeout p\<rparr>"

lemma rescheduled_simps [simp]:
  "pe_tx_id (rescheduled nows k p) = pe_tx_id p" "pe_max_retries (rescheduled nows k p) = pe_max_retries p"
  "pe_retry_count (rescheduled nows k p) = pe_retry_count p + 1" "pe_inflight (rescheduled nows k p) = pe_inflight p"
  "pe_deadline (rescheduled nows k p) = nows k + pe_timeout p" "pe_timeout (rescheduled nows k p) = pe_timeout p"
  "pe_on_error (rescheduled nows k p) = pe_on_error p" "pe_on_response (rescheduled nows k p) = pe_on_response p"
  "retransmit_entry (rescheduled nows k p) = retransmit_entry p"
  by (simp_all add: rescheduled_def retransmit_entry_def)

definition poll_entry ::
  "int \<Rightarrow> (u32 \<Rightarrow> int) \<Rightarrow> u32 \<Rightarrow> ('r, 'e) PendingEntry option \<Rightarrow> ('r, 'e) PendingEntry option" where
  "poll_entry now nows k po =
     (case po of
        None \<Rightarrow> None
      | Some p \<Rightarrow>
          if \<not> entry_expired now p then Some p
          else if pe_max_retries p \<le> pe_retry_count p then None
          else Some (rescheduled nows k p))"

definition poll_retry :: "int \<Rightarrow> ('r, 'e) PendingEntry option \<Rightarrow> RetransmitEntry list" where
  "poll_retry now po =
     (case po of
        None \<Rightarrow> []
      | Some p \<Rightarrow> if entry_expired now p \<and> pe_retry_count p < pe_max_retries p then [retransmit_entry p] else [])"

definition poll_give_up :: "int \<Rightarrow> ('r, 'e) PendingEntry option \<Rightarrow> ('r, 'e) callback list" where
  "poll_give_up now po =
     (case po of
        None \<Rightarrow> []
      | Some p \<Rightarrow>
          if entry_expired now p \<and> pe_max_retries p \<le> pe_retry_count p then
            (case pe_on_error p of Some cb \<Rightarrow> [Call_Error cb Timeout] | None \<Rightarrow> [])
          else [])"

definition poll_at :: "int \<Rightarrow> (u32 \<Rightarrow> int) \<Rightarrow> u32 \<Rightarrow> ('r, 'e) session \<Rightarrow> ('r, 'e) session" where
  "poll_at now nows k s =
     (case m_pending_by_tx s k of
        None \<Rightarrow> s
      | Some p \<Rightarrow>
          if \<not> entry_expired now p then s
          else if pe_max_retries p \<le> pe_retry_count p then erase_pending k p s
          else s\<lparr>m_pending_by_tx := (m_pending_by_tx s)(k \<mapsto> rescheduled nows k p)\<rparr>)"

lemma poll_loop_Cons:
  "poll_loop now nows (k # ks) s =
     (let (re, cbs, s') = poll_loop now nows ks (poll_at now nows k s)
      in (poll_retry now (m_pending_by_tx s k) @ re, poll_give_up now (m_pending_by_tx s k) @ cbs, s'))"
proof (cases "m_pending_by_tx s k")
  case None
  then show ?thesis by (simp add: poll_at_def poll_retry_def poll_give_up_def)
next
  case (Some p)
  have "retransmit_entry (p\<lparr>pe_retry_count := pe_retry_count p + 1, pe_deadline := d\<rparr>) = retransmit_entry p" for d
    by (simp add: retransmit_entry_def)
  with Some show ?thesis
    by (auto simp: poll_at_def poll_retry_def poll_give_up_def rescheduled_def Let_def not_less not_le split: prod.split)
qed

lemma poll_at_pending:
  "m_pending_by_tx (poll_at now nows k s) j =
     (if j = k then poll_entry now nows k (m_pending_by_tx s k) else m_pending_by_tx s j)"
  by (simp add: poll_at_def poll_entry_def erase_pending_def split: option.split)

section \<open>Steps\<close>

text \<open>The queue may lose ids at its front; the host's other fields stay.\<close>

definition host_same :: "('r, 'e) session \<Rightarrow> ('r, 'e) session \<Rightarrow> bool" where
  "host_same s s' \<longleftrightarrow>
     m_pending_by_tx s' = m_pending_by_tx s \<and> suffix (m_outbound_queue s') (m_outbound_queue s) \<and>
     m_inflight_count s' = m_inflight_count s \<and> m_config s' = m_config s \<and> m_next_tx_id s' = m_next_tx_id s"

inductive session_step ::
  "('r, 'e) session \<Rightarrow> RetransmitEntry list \<Rightarrow> ('r, 'e) callback list \<Rightarrow> ('r, 'e) session \<Rightarrow> bool" where
  step_quiet: "host_same s s' \<Longrightarrow> session_step s [] [] s'"
| step_postponed: "m_pending_by_tx s k = Some p \<Longrightarrow>
    session_step s [] [] (s\<lparr>m_pending_by_tx := (m_pending_by_tx s)(k \<mapsto> p\<lparr>pe_deadline := d\<rparr>)\<rparr>)"
| step_ignored: "m_pending_by_tx s k = Some p \<Longrightarrow> session_step s [] [] (erase_pending k p s)"
| step_answered: "m_pending_by_tx s k = Some p \<Longrightarrow> pe_on_response p = Some cb \<Longrightarrow>
    session_step s [] [Call_Response cb data] (erase_pending k p s)"
| step_failed: "m_pending_by_tx s k = Some p \<Longrightarrow> pe_on_error p = Some cb \<Longrightarrow> pe_max_retries p \<le> pe_retry_count p \<Longrightarrow>
    session_step s [] [Call_Error cb Timeout] (erase_pending k p s)"
| step_retried: "m_pending_by_tx s k = Some p \<Longrightarrow> pe_inflight p \<Longrightarrow> pe_retry_count p < pe_max_retries p \<Longrightarrow>
    session_step s [retransmit_entry p] []
      (s\<lparr>m_pending_by_tx := (m_pending_by_tx s)(k \<mapsto> p\<lparr>pe_retry_count := pe_retry_count p + 1, pe_deadline := d\<rparr>)\<rparr>)"
| step_sent: "suffix (k # q) (m_outbound_queue s) \<Longrightarrow> m_pending_by_tx s k = Some p \<Longrightarrow>
    m_inflight_count s < window_size (m_config s) \<Longrightarrow>
    session_step s [retransmit_entry p] []
      (s\<lparr>m_outbound_queue := q, m_pending_by_tx := (m_pending_by_tx s)(k \<mapsto> p\<lparr>pe_inflight := True, pe_deadline := d\<rparr>),
        m_inflight_count := m_inflight_count s + 1\<rparr>)"
| step_renumbered: "k \<noteq> 0 \<Longrightarrow> session_step s [] [] (s\<lparr>m_next_tx_id := k\<rparr>)"

inductive session_steps ::
  "('r, 'e) session \<Rightarrow> RetransmitEntry list \<Rightarrow> ('r, 'e) callback list \<Rightarrow> ('r, 'e) session \<Rightarrow> bool" where
  steps_done: "session_steps s [] [] s"
| steps_more: "session_step s t c s1 \<Longrightarrow> session_steps s1 ts cs s2 \<Longrightarrow> session_steps s (t @ ts) (c @ cs) s2"

lemma steps_one: "session_step s t c s' \<Longrightarrow> session_steps s t c s'"
  using steps_more [OF _ steps_done] by fastforce

lemma steps_quiet: "host_same s s' \<Longrightarrow> session_steps s [] [] s'"
  by (rule steps_one [OF step_quiet])

text \<open>
  An invariant \<open>I\<close> that every step keeps, and a weight of the outputs that every step pays for out of a
  measure, carry over to sequences of steps.
\<close>

lemma session_steps_measure:
  fixes weight :: "RetransmitEntry list \<Rightarrow> ('r, 'e) callback list \<Rightarrow> nat"
  assumes step: "\<And>s t c s'. I s \<Longrightarrow> session_step s t c s' \<Longrightarrow> I s' \<and> weight t c + m s' \<le> m s"
    and weight: "weight [] [] = 0" "\<And>t c t' c'. weight (t @ t') (c @ c') = weight t c + weight t' c'"
  shows "session_steps s t c s' \<Longrightarrow> I s \<Longrightarrow> I s' \<and> weight t c + m s' \<le> m s"
proof (induction rule: session_steps.induct)
  case (steps_more s t c s1 ts cs s2)
  from step [OF steps_more.prems steps_more.hyps(1)] steps_more.IH show ?case by (simp add: weight)
qed (simp add: weight)

section \<open>The operations are sequences of steps\<close>

lemma poll_at_step:
  "session_step s (poll_retry now (m_pending_by_tx s k)) (poll_give_up now (m_pending_by_tx s k)) (poll_at now nows k s)"
proof (cases "m_pending_by_tx s k")
  case None
  then show ?thesis by (simp add: poll_at_def poll_retry_def poll_give_up_def step_quiet host_same_def)
next
  case (Some p)
  have "pe_max_retries p \<le> pe_retry_count p \<Longrightarrow> session_step s []
      (case pe_on_error p of Some cb \<Rightarrow> [Call_Error cb Timeout] | None \<Rightarrow> []) (erase_pending k p s)"
    using step_failed [OF Some] step_ignored [OF Some] by (auto split: option.split)
  then show ?thesis using Some step_retried [OF Some, of "nows k + pe_timeout p"]
    by (auto simp: poll_at_def poll_retry_def poll_give_up_def rescheduled_def step_quiet host_same_def not_le)
qed

lemma poll_loop_steps: "poll_loop now nows ks s = (re, cbs, s') \<Longrightarrow> session_steps s re cbs s'"
proof (induction ks arbitrary: s re cbs)
  case Nil
  then show ?case by (simp add: steps_done)
next
  case (Cons k ks)
  then show ?case by (auto simp: poll_loop_Cons simp del: poll_loop.simps split: prod.splits intro!: steps_more [OF poll_at_step])
qed

lemma on_response_steps:
  assumes "on_response cmd tx data s = (cbs, s')"
  shows "session_steps s [] cbs s'"
proof (rule on_response_cases [of cmd tx data s])
  fix ring assume "on_response cmd tx data s = ([], s\<lparr>m_seen_responses := ring\<rparr>)"
  then show ?thesis using assms by (auto intro!: steps_quiet simp: host_same_def)
next
  fix ring p cbs'
  let ?s = "s\<lparr>m_seen_responses := ring\<rparr>"
  assume p: "m_pending_by_tx s tx = Some p" and o: "on_response cmd tx data s = (cbs', erase_pending tx p ?s)"
    and cbs': "cbs' = (case pe_on_response p of Some cb \<Rightarrow> if pe_response_cmd p = cmd then [Call_Response cb data] else [] | None \<Rightarrow> [])"
  have p': "m_pending_by_tx ?s tx = Some p" using p by simp
  have "session_step ?s [] cbs' (erase_pending tx p ?s)"
    unfolding cbs' using step_ignored [OF p'] step_answered [OF p'] by (auto split: option.split)
  moreover have "session_step s [] [] ?s" by (simp add: step_quiet host_same_def)
  ultimately have "session_steps s [] cbs' (erase_pending tx p ?s)" using steps_more steps_one by fastforce
  then show ?thesis using assms o by simp
qed

lemma next_outbound_steps:
  assumes "next_outbound now s = (re, s')"
  shows "session_steps s (case re of None \<Rightarrow> [] | Some e \<Rightarrow> [e]) [] s'"
proof (rule next_outbound_loop_cases [of now "m_outbound_queue s" s])
  fix q' assume "next_outbound_loop now (m_outbound_queue s) s = (None, s\<lparr>m_outbound_queue := q'\<rparr>)"
    and "suffix q' (m_outbound_queue s)"
  then show ?thesis using assms by (auto simp: next_outbound_def host_same_def intro!: steps_quiet)
next
  fix k q' p
  assume k: "suffix (k # q') (m_outbound_queue s)" "m_pending_by_tx s k = Some p" "m_inflight_count s < window_size (m_config s)"
    and "next_outbound_loop now (m_outbound_queue s) s = (Some (retransmit_entry p), s\<lparr>m_outbound_queue := q',
          m_pending_by_tx := (m_pending_by_tx s)(k \<mapsto> p\<lparr>pe_inflight := True, pe_deadline := now + pe_timeout p\<rparr>),
          m_inflight_count := m_inflight_count s + 1\<rparr>)"
  then show ?thesis using assms steps_one [OF step_sent [OF k]] by (auto simp: next_outbound_def)
qed

lemma on_ack_steps: "session_steps s [] [] (on_ack tx now s)"
proof (cases "m_pending_by_tx s tx")
  case None
  then show ?thesis by (simp add: on_ack_def steps_done)
next
  case (Some p)
  then show ?thesis using steps_one [OF step_postponed [OF Some]] by (simp add: on_ack_def steps_done)
qed

text \<open>The refinement: an operation registers a request, or it is a sequence of steps.\<close>

lemma session_exec_steps:
  assumes "session_exec op s = ((g, t, c), s')"
  obtains (send) cmd rcmd request on_resp on_err timeout retries now
    where "op = Op_Send cmd rcmd request on_resp on_err timeout retries now" and "g = [(m_next_tx_id s, retries)]" and "t = []" and "c = []"
      and "s' = snd (session_send cmd rcmd (\<lambda>_. request) on_resp on_err timeout retries now s)"
  | (steps) "g = []" and "session_steps s t c s'"
proof (cases op)
  case (Op_Send cmd rcmd request on_resp on_err timeout retries now)
  then show ?thesis using assms by (intro send) (auto simp: session_send_def next_tx_id_def split: prod.splits)
next
  case (Op_Ack tx now)
  then show ?thesis using assms on_ack_steps by (intro steps) auto
next
  case (Op_Response cmd tx data)
  then show ?thesis using assms on_response_steps by (intro steps) (auto split: prod.splits)
next
  case (Op_Poll now nows ks)
  then show ?thesis using assms poll_loop_steps by (intro steps) (auto simp: poll_def split: prod.splits)
next
  case (Op_Pump now)
  then show ?thesis using assms next_outbound_steps by (intro steps) (auto split: prod.splits)
next
  case (Op_Set_Next next_id)
  then show ?thesis using assms steps_one [OF step_renumbered [of "if next_id = 0 then 1 else next_id" s]]
    by (intro steps) (auto simp: set_next_tx_id_def)
qed (use assms in \<open>auto intro!: steps steps_quiet simp: host_same_def\<close>)

lemma session_run_ConsE:
  assumes "session_run (op # ops) s = ((g, t, c), s')"
  obtains g1 t1 c1 s1 g2 t2 c2 where "session_exec op s = ((g1, t1, c1), s1)" and "session_run ops s1 = ((g2, t2, c2), s')"
    and "g = g1 @ g2" and "t = t1 @ t2" and "c = c1 @ c2"
  using assms by (auto simp: Let_def split: prod.splits)

end
