(* ===== verification/Session_Inv.thy ===== *)
theory Session_Inv
  imports Session_Steps
begin

text \<open>
  What a run of session operations keeps: the bound on transmissions, the at-most-once callbacks, the window
  and the agreement of \<open>m_inflight_count\<close> with the entries in flight. Each is proved of the steps of the
  abstract specification and of the registration of a request.
\<close>

section \<open>How often a request is transmitted\<close>

definition keyed :: "('r, 'e) session \<Rightarrow> bool" where
  "keyed s \<longleftrightarrow> (\<forall>k p. m_pending_by_tx s k = Some p \<longrightarrow> pe_tx_id p = k)"

definition retries_left :: "('r, 'e) session \<Rightarrow> u32 \<Rightarrow> nat" where
  "retries_left s tx =
     (case m_pending_by_tx s tx of None \<Rightarrow> 0 | Some p \<Rightarrow> unat (pe_max_retries p) - unat (pe_retry_count p))"

definition budget :: "('r, 'e) session \<Rightarrow> u32 \<Rightarrow> nat" where
  "budget s tx = retries_left s tx + count_list (m_outbound_queue s) tx"

definition sent_count :: "RetransmitEntry list \<Rightarrow> u32 \<Rightarrow> nat" where
  "sent_count ts tx = length (filter (\<lambda>e. re_tx_id e = tx) ts)"

text \<open>One transmission and the retries of every registration under an id.\<close>

definition granted :: "(u32 \<times> u8) list \<Rightarrow> u32 \<Rightarrow> nat" where
  "granted g tx = sum_list (map (\<lambda>(t, retries). if t = tx then 1 + unat retries else 0) g)"

lemma sent_count_simps [simp]:
  "sent_count [] tx = 0" "sent_count (e # ts) tx = (if re_tx_id e = tx then 1 else 0) + sent_count ts tx"
  "sent_count (ts @ ts') tx = sent_count ts tx + sent_count ts' tx"
  by (simp_all add: sent_count_def)

lemma granted_simps [simp]:
  "granted [] tx = 0" "granted [(t, r)] tx = (if t = tx then 1 + unat r else 0)"
  "granted (g @ g') tx = granted g tx + granted g' tx"
  by (simp_all add: granted_def)

lemma keyed_upd: "keyed s \<Longrightarrow> pe_tx_id p = k \<Longrightarrow> keyed (s\<lparr>m_pending_by_tx := (m_pending_by_tx s)(k \<mapsto> p)\<rparr>)"
  by (auto simp: keyed_def)

lemma keyed_erase: "keyed s \<Longrightarrow> keyed (erase_pending k p s)"
  by (auto simp: keyed_def erase_pending_def)

lemma retries_left_erase: "retries_left (erase_pending k p s) tx = (if tx = k then 0 else retries_left s tx)"
  by (simp add: retries_left_def erase_pending_def)

lemma retries_left_upd:
  "retries_left (s\<lparr>m_pending_by_tx := (m_pending_by_tx s)(k \<mapsto> p)\<rparr>) tx =
     (if tx = k then unat (pe_max_retries p) - unat (pe_retry_count p) else retries_left s tx)"
  by (simp add: retries_left_def)

lemma session_step_sent:
  assumes "session_step s t c s'" and "keyed s"
  shows "keyed s' \<and> sent_count t tx + budget s' tx \<le> budget s tx"
  using assms
proof cases
  case step_quiet
  then show ?thesis using assms(2) by (auto simp: host_same_def keyed_def budget_def retries_left_def suffix_def)
next
  case (step_retried k p d)
  note r = retry_counts [OF step_retried(6)]
  show ?thesis using step_retried assms(2) r
    by (auto simp: keyed_def budget_def retries_left_def retransmit_entry_def)
next
  case (step_sent k q p d)
  then show ?thesis using assms(2)
    by (auto simp: keyed_def budget_def retries_left_def suffix_def retransmit_entry_def split: if_splits)
qed (use assms(2) in \<open>auto simp: keyed_def budget_def retries_left_def erase_pending_def\<close>)

lemma session_send_sent:
  assumes "keyed s" and "s' = snd (session_send cmd rcmd (\<lambda>_. request) on_resp on_err timeout retries now s)"
  shows "keyed s' \<and> budget s' tx \<le> budget s tx + granted [(m_next_tx_id s, retries)] tx"
  using assms by (auto simp: session_send_def next_tx_id_def register_pending_def Let_def keyed_def budget_def
      retries_left_def split: if_splits)

lemma session_exec_sent:
  assumes "keyed s" and "session_exec op s = ((g, t, c), s')"
  shows "keyed s' \<and> sent_count t tx + budget s' tx \<le> budget s tx + granted g tx"
  using assms(2)
proof (cases rule: session_exec_steps)
  case (send cmd rcmd request on_resp on_err timeout retries now)
  then show ?thesis using session_send_sent [OF assms(1) send(5), of tx] by simp
next
  case steps
  then show ?thesis
    using session_steps_measure [where I = keyed and weight = "\<lambda>t c. sent_count t tx" and m = "\<lambda>s. budget s tx",
        OF session_step_sent _ _ steps(2) assms(1)] by simp
qed

lemma session_run_sent:
  "keyed s \<Longrightarrow> session_run ops s = ((g, t, c), s') \<Longrightarrow>
     keyed s' \<and> sent_count t tx + budget s' tx \<le> budget s tx + granted g tx"
proof (induction ops arbitrary: s g t c)
  case (Cons op ops)
  from Cons.prems(2) show ?case
  proof (rule session_run_ConsE)
    fix g1 t1 c1 s1 g2 t2 c2
    assume "session_exec op s = ((g1, t1, c1), s1)" and "session_run ops s1 = ((g2, t2, c2), s')"
      and "g = g1 @ g2" and "t = t1 @ t2" and "c = c1 @ c2"
    then show ?thesis using session_exec_sent [OF Cons.prems(1), of op g1 t1 c1 s1 tx] Cons.IH [of s1 g2 t2 c2] by simp
  qed
qed simp

lemma session_init_keyed [simp]: "keyed (session_init config)"
  by (simp add: keyed_def session_init_def)

lemma session_init_budget [simp]: "budget (session_init config) tx = 0"
  by (simp add: budget_def retries_left_def session_init_def)

section \<open>How often a callback runs\<close>

text \<open>The entries and the registrations that carry the response callback \<open>r\<close> or the error callback \<open>e\<close>.\<close>

definition carries :: "'r \<Rightarrow> 'e \<Rightarrow> ('r, 'e) PendingEntry \<Rightarrow> bool" where
  "carries r e p \<longleftrightarrow> pe_on_response p = Some r \<or> pe_on_error p = Some e"

definition carriers :: "'r \<Rightarrow> 'e \<Rightarrow> ('r, 'e) session \<Rightarrow> u32 set" where
  "carriers r e s = {k. \<exists>p. m_pending_by_tx s k = Some p \<and> carries r e p}"

fun registers :: "'r \<Rightarrow> 'e \<Rightarrow> ('r, 'e) session_op \<Rightarrow> nat" where
  "registers r e (Op_Send cmd rcmd request on_resp on_err timeout retries now) =
     (if on_resp = Some r \<or> on_err = Some e then 1 else 0)"
| "registers r e _ = 0"

definition calls :: "'r \<Rightarrow> 'e \<Rightarrow> ('r, 'e) callback list \<Rightarrow> nat" where
  "calls r e cbs =
     length (filter (\<lambda>cb. case cb of Call_Response r' _ \<Rightarrow> r' = r | Call_Error e' _ \<Rightarrow> e' = e) cbs)"

lemma calls_simps [simp]:
  "calls r e [] = 0" "calls r e (xs @ ys) = calls r e xs + calls r e ys"
  "calls r e [Call_Response r' d] = (if r' = r then 1 else 0)"
  "calls r e [Call_Error e' err] = (if e' = e then 1 else 0)"
  by (simp_all add: calls_def)

lemma finite_pending: "finite (A :: u32 set)"
  by (rule finite)

lemma carriers_erase: "carriers r e (erase_pending k p s) = carriers r e s - {k}"
  by (auto simp: carriers_def erase_pending_def)

lemma card_carriers_erase:
  assumes "m_pending_by_tx s k = Some p"
  shows "card (carriers r e (erase_pending k p s)) + (if carries r e p then 1 else 0) \<le> card (carriers r e s)"
proof (cases "carries r e p")
  case True
  then have "k \<in> carriers r e s" using assms by (auto simp: carriers_def)
  then show ?thesis using card_Suc_Diff1 [OF finite_pending, of k "carriers r e s"] True
    by (simp add: carriers_erase)
next
  case False
  then show ?thesis by (simp add: carriers_erase card_mono [OF finite_pending])
qed

lemma carriers_same:
  assumes "m_pending_by_tx s k = Some p" and "carries r e p' \<longleftrightarrow> carries r e p"
  shows "carriers r e (s\<lparr>m_pending_by_tx := (m_pending_by_tx s)(k \<mapsto> p')\<rparr>) = carriers r e s"
  using assms by (auto simp: carriers_def)

lemma carriers_cong: "m_pending_by_tx s' = m_pending_by_tx s \<Longrightarrow> carriers r e s' = carriers r e s"
  by (simp add: carriers_def)

lemma session_step_calls:
  assumes "session_step s t c s'"
  shows "calls r e c + card (carriers r e s') \<le> card (carriers r e s)"
  using assms
proof cases
  case step_quiet
  then show ?thesis using carriers_cong [of s' s r e] by (simp add: host_same_def)
next
  case (step_postponed k p d)
  then show ?thesis using carriers_same [OF step_postponed(4), of r e "p\<lparr>pe_deadline := d\<rparr>"] by (simp add: carries_def)
next
  case (step_ignored k p)
  then show ?thesis using card_carriers_erase [OF step_ignored(4), of r e] by simp
next
  case (step_answered k p cb data)
  then show ?thesis using card_carriers_erase [OF step_answered(4), of r e] by (auto simp: carries_def split: if_splits)
next
  case (step_failed k p cb)
  then show ?thesis using card_carriers_erase [OF step_failed(4), of r e] by (auto simp: carries_def split: if_splits)
next
  case (step_retried k p d)
  then show ?thesis
    using carriers_same [OF step_retried(4), of r e "p\<lparr>pe_retry_count := pe_retry_count p + 1, pe_deadline := d\<rparr>"]
    by (simp add: carries_def)
next
  case (step_sent k q p d)
  let ?p = "p\<lparr>pe_inflight := True, pe_deadline := d\<rparr>"
  show ?thesis using step_sent carriers_same [OF step_sent(5), of r e ?p]
      carriers_cong [of s' "s\<lparr>m_pending_by_tx := (m_pending_by_tx s)(k \<mapsto> ?p)\<rparr>" r e] by (simp add: carries_def)
next
  case (step_renumbered k)
  then show ?thesis using carriers_cong [of s' s r e] by simp
qed

lemma session_send_calls:
  assumes "s' = snd (session_send cmd rcmd request on_resp on_err timeout retries now s)"
  shows "card (carriers r e s') \<le> card (carriers r e s) + (if on_resp = Some r \<or> on_err = Some e then 1 else 0)"
proof -
  have "carriers r e s' \<subseteq>
      (if on_resp = Some r \<or> on_err = Some e then insert (m_next_tx_id s) (carriers r e s) else carriers r e s)"
    by (auto simp: assms session_send_def next_tx_id_def register_pending_def Let_def carriers_def carries_def split: if_splits)
  from card_mono [OF finite_pending this] show ?thesis by (auto simp: card_insert_if split: if_splits)
qed

lemma session_exec_calls:
  assumes "session_exec op s = ((g, t, c), s')"
  shows "calls r e c + card (carriers r e s') \<le> card (carriers r e s) + registers r e op"
  using assms
proof (cases rule: session_exec_steps)
  case (send cmd rcmd request on_resp on_err timeout retries now)
  then show ?thesis using session_send_calls [OF send(5), of r e] by simp
next
  case steps
  then show ?thesis
    using session_steps_measure [where I = "\<lambda>_. True" and weight = "\<lambda>t c. calls r e c" and m = "\<lambda>s. card (carriers r e s)",
        OF _ _ _ steps(2)] session_step_calls by fastforce
qed

lemma session_run_calls:
  "session_run ops s = ((g, t, c), s') \<Longrightarrow>
     calls r e c + card (carriers r e s') \<le> card (carriers r e s) + sum_list (map (registers r e) ops)"
proof (induction ops arbitrary: s g t c)
  case (Cons op ops)
  from Cons.prems show ?case
  proof (rule session_run_ConsE)
    fix g1 t1 c1 s1 g2 t2 c2
    assume "session_exec op s = ((g1, t1, c1), s1)" and "session_run ops s1 = ((g2, t2, c2), s')"
      and "g = g1 @ g2" and "t = t1 @ t2" and "c = c1 @ c2"
    then show ?thesis using session_exec_calls [of op s g1 t1 c1 s1 r e] Cons.IH [of s1 g2 t2 c2] by simp
  qed
qed simp

section \<open>The window\<close>

definition in_flight :: "('r, 'e) session \<Rightarrow> u32 set" where
  "in_flight s = {k. \<exists>p. m_pending_by_tx s k = Some p \<and> pe_inflight p}"

text \<open>
  \<open>fresh_inv used s\<close>: the ids pending or queued are among the \<open>used\<close> ones, an id still queued is not in flight,
  and the counter counts the entries in flight.
\<close>

definition fresh_inv :: "u32 set \<Rightarrow> ('r, 'e) session \<Rightarrow> bool" where
  "fresh_inv used s \<longleftrightarrow>
     dom (m_pending_by_tx s) \<union> set (m_outbound_queue s) \<subseteq> used \<and>
     distinct (m_outbound_queue s) \<and> in_flight s \<inter> set (m_outbound_queue s) = {} \<and>
     m_inflight_count s = card (in_flight s) \<and> m_inflight_count s \<le> window_size (m_config s)"

lemma session_init_fresh: "fresh_inv {} (session_init config)"
  by (auto simp: fresh_inv_def session_init_def in_flight_def)

lemma in_flight_cong: "m_pending_by_tx s' = m_pending_by_tx s \<Longrightarrow> in_flight s' = in_flight s"
  by (simp add: in_flight_def)

lemma in_flight_upd:
  "in_flight (s\<lparr>m_pending_by_tx := (m_pending_by_tx s)(k \<mapsto> p)\<rparr>) =
     (if pe_inflight p then insert k (in_flight s) else in_flight s - {k})"
  by (auto simp: in_flight_def)

lemma in_flight_erase: "in_flight (erase_pending k p s) = in_flight s - {k}"
  by (auto simp: in_flight_def erase_pending_def)

lemma fresh_inv_erase:
  assumes "fresh_inv n s" and "m_pending_by_tx s k = Some p"
  shows "fresh_inv n (erase_pending k p s)"
proof -
  have "card (in_flight s - {k}) = (if pe_inflight p then card (in_flight s) - 1 else card (in_flight s))"
    and "pe_inflight p \<Longrightarrow> 0 < card (in_flight s)"
    using assms(2) finite_pending [of "in_flight s"] by (auto simp: in_flight_def card_gt_0_iff card_Diff_singleton_if)
  then show ?thesis using assms unfolding fresh_inv_def in_flight_erase
    by (auto simp: erase_pending_def)
qed

lemma fresh_inv_same:
  assumes "fresh_inv n s" and "m_pending_by_tx s k = Some p" and "pe_inflight p' = pe_inflight p"
  shows "fresh_inv n (s\<lparr>m_pending_by_tx := (m_pending_by_tx s)(k \<mapsto> p')\<rparr>)"
proof -
  have "in_flight (s\<lparr>m_pending_by_tx := (m_pending_by_tx s)(k \<mapsto> p')\<rparr>) = in_flight s"
    using assms(2,3) by (auto simp: in_flight_def)
  then show ?thesis using assms(1,2) unfolding fresh_inv_def by auto
qed

lemma fresh_inv_host_same:
  assumes "fresh_inv n s" and "host_same s s'"
  shows "fresh_inv n s'"
  using assms in_flight_cong [of s' s] by (auto simp: fresh_inv_def host_same_def suffix_def)

lemma session_send_eq:
  "snd (session_send cmd rcmd request on_resp on_err timeout retries now s) =
     register_pending (m_next_tx_id s) cmd rcmd (request (m_next_tx_id s)) on_resp on_err timeout retries now
       (s\<lparr>m_next_tx_id := m_next_tx_id s + 1\<rparr>)"
  by (simp add: session_send_def next_tx_id_def)

lemma fresh_inv_send:
  assumes inv: "fresh_inv used s" and new: "m_next_tx_id s \<notin> used"
  shows "fresh_inv (insert (m_next_tx_id s) used) (snd (session_send cmd rcmd request on_resp on_err timeout retries now s))"
proof -
  let ?k = "m_next_tx_id s" and ?s = "snd (session_send cmd rcmd request on_resp on_err timeout retries now s)"
  have k: "?k \<notin> dom (m_pending_by_tx s)" "?k \<notin> set (m_outbound_queue s)" using inv new by (auto simp: fresh_inv_def)
  then have "in_flight ?s = in_flight s" by (auto simp: session_send_eq register_pending_def in_flight_def)
  moreover have "m_outbound_queue ?s = m_outbound_queue s @ [?k]" "dom (m_pending_by_tx ?s) = insert ?k (dom (m_pending_by_tx s))"
    "m_inflight_count ?s = m_inflight_count s" "m_config ?s = m_config s"
    by (simp_all add: session_send_eq register_pending_def)
  moreover have "?k \<notin> in_flight s" using k(1) by (auto simp: in_flight_def)
  ultimately show ?thesis using inv k unfolding fresh_inv_def by auto
qed

lemma fresh_inv_pump:
  assumes inv: "fresh_inv n s" and suf: "suffix (k # q') (m_outbound_queue s)" and p: "m_pending_by_tx s k = Some p"
    and room: "m_inflight_count s < window_size (m_config s)" and p': "pe_inflight p'"
  shows "fresh_inv n (s\<lparr>m_outbound_queue := q', m_pending_by_tx := (m_pending_by_tx s)(k \<mapsto> p'),
    m_inflight_count := m_inflight_count s + 1\<rparr>)"
proof -
  let ?s = "s\<lparr>m_outbound_queue := q', m_pending_by_tx := (m_pending_by_tx s)(k \<mapsto> p'), m_inflight_count := m_inflight_count s + 1\<rparr>"
  have q: "k \<in> set (m_outbound_queue s)" "set q' \<subseteq> set (m_outbound_queue s)" "distinct (k # q')"
    using suf inv by (auto simp: suffix_def fresh_inv_def)
  then have k: "k \<notin> in_flight s" using inv by (auto simp: fresh_inv_def)
  have fl: "in_flight ?s = insert k (in_flight s)" using p' by (auto simp: in_flight_def)
  show ?thesis unfolding fresh_inv_def fl
    using inv q k p room finite_pending [of "in_flight s"] by (auto simp: fresh_inv_def)
qed

lemma session_step_fresh: "session_step s t c s' \<Longrightarrow> fresh_inv used s \<Longrightarrow> fresh_inv used s'"
  by (induction rule: session_step.induct)
    (simp_all add: fresh_inv_host_same fresh_inv_erase fresh_inv_same fresh_inv_pump [simplified],
      simp add: fresh_inv_def in_flight_def)

lemma session_exec_fresh:
  assumes "fresh_inv used s" and "session_exec op s = ((g, t, c), s')" and "set (map fst g) \<inter> used = {}"
  shows "fresh_inv (used \<union> set (map fst g)) s'"
  using assms(2)
proof (cases rule: session_exec_steps)
  case (send cmd rcmd request on_resp on_err timeout retries now)
  then have "m_next_tx_id s \<notin> used" using assms(3) by auto
  from fresh_inv_send [OF assms(1) this] send(2,5) show ?thesis by simp
next
  case steps
  then show ?thesis
    using session_steps_measure [where I = "fresh_inv used" and weight = "\<lambda>t c. 0" and m = "\<lambda>s. 0", OF _ _ _ steps(2) assms(1)]
      session_step_fresh by fastforce
qed

lemma session_run_fresh:
  "fresh_inv used s \<Longrightarrow> session_run ops s = ((g, t, c), s') \<Longrightarrow> distinct (map fst g) \<Longrightarrow> set (map fst g) \<inter> used = {} \<Longrightarrow>
     fresh_inv (used \<union> set (map fst g)) s'"
proof (induction ops arbitrary: s g t c used)
  case (Cons op ops)
  from Cons.prems(2) show ?case
  proof (rule session_run_ConsE)
    fix g1 t1 c1 s1 g2 t2 c2
    assume e: "session_exec op s = ((g1, t1, c1), s1)" and r: "session_run ops s1 = ((g2, t2, c2), s')"
      and g: "g = g1 @ g2"
    have "fresh_inv (used \<union> set (map fst g1)) s1"
      by (rule session_exec_fresh [OF Cons.prems(1) e]) (use Cons.prems(4) g in auto)
    from Cons.IH [OF this r] show ?thesis using Cons.prems(3,4) by (simp add: g Un_assoc) blast
  qed
qed simp

text \<open>Without \<open>set_next_tx_id\<close> the ids are handed out one after the other, and repeat only after \<open>2 ^ 32\<close>.\<close>

definition renumbers :: "('r, 'e) session_op \<Rightarrow> bool" where
  "renumbers op = (case op of Op_Set_Next next_id \<Rightarrow> True | _ \<Rightarrow> False)"

lemma session_exec_ids:
  assumes "session_exec op s = ((g, t, c), s')" and "\<not> renumbers op"
  shows "map fst g = map (\<lambda>i. m_next_tx_id s + of_nat i) [0..<length g] \<and> m_next_tx_id s' = m_next_tx_id s + of_nat (length g)"
proof (cases op)
  case (Op_Send cmd rcmd request on_resp on_err timeout retries now)
  then show ?thesis using assms(1) by (auto simp: session_send_def next_tx_id_def register_pending_def Let_def)
next
  case (Op_Ack tx now)
  then show ?thesis using assms(1) by (auto simp: on_ack_def split: option.split)
next
  case (Op_Response cmd tx data)
  show ?thesis
    by (rule on_response_cases [of cmd tx data s]) (use assms(1) Op_Response in \<open>auto simp: erase_pending_def\<close>)
next
  case (Op_Poll now nows ks)
  then have "g = []" and "poll_loop now nows ks s = (t, c, s')" using assms(1) by (auto simp: poll_def split: prod.splits)
  moreover have "poll_loop now nows ks s = (re, cbs, s') \<Longrightarrow> m_next_tx_id s' = m_next_tx_id s" for s :: "('a, 'b) session" and re cbs s'
    by (induction ks arbitrary: s re cbs)
      (auto simp: poll_loop_Cons poll_at_def erase_pending_def simp del: poll_loop.simps(2) split: prod.splits option.splits if_splits)
  ultimately show ?thesis by simp
next
  case (Op_Pump now)
  show ?thesis
    by (rule next_outbound_loop_cases [of now "m_outbound_queue s" s])
      (use assms(1) Op_Pump in \<open>auto simp: next_outbound_def split: prod.splits\<close>)
qed (use assms in \<open>auto simp: renumbers_def\<close>)

lemma session_run_ids:
  "session_run ops s = ((g, t, c), s') \<Longrightarrow> list_all (\<lambda>op. \<not> renumbers op) ops \<Longrightarrow>
     map fst g = map (\<lambda>i. m_next_tx_id s + of_nat i) [0..<length g]"
proof (induction ops arbitrary: s g t c)
  case (Cons op ops)
  from Cons.prems(1) show ?case
  proof (rule session_run_ConsE)
    fix g1 t1 c1 s1 g2 t2 c2
    assume e: "session_exec op s = ((g1, t1, c1), s1)" and r: "session_run ops s1 = ((g2, t2, c2), s')"
      and g: "g = g1 @ g2"
    have "map (\<lambda>i. m_next_tx_id s + of_nat i) [length g1..<length g1 + length g2] =
        map (\<lambda>i. m_next_tx_id s + of_nat (length g1) + of_nat i) [0..<length g2]"
      by (rule nth_equalityI) (simp_all add: add.assoc)
    then show ?thesis using session_exec_ids [OF e] Cons.IH [OF r] Cons.prems(2)
      by (simp add: g upt_add_eq_append [of 0 "length g1" "length g2"] add.commute [of "length g2"])
  qed
qed simp

lemma distinct_ids: "n \<le> 2 ^ 32 \<Longrightarrow> distinct (map (\<lambda>i. k + of_nat i :: u32) [0..<n])"
proof -
  assume n: "n \<le> 2 ^ 32"
  have "inj_on (\<lambda>i. k + of_nat i :: u32) {0..<n}"
  proof (rule inj_onI)
    fix i j assume ij: "i \<in> {0..<n}" "j \<in> {0..<n}" "k + of_nat i = k + (of_nat j :: u32)"
    then have "unat (of_nat i :: u32) = unat (of_nat j :: u32)" by simp
    moreover have "i < 2 ^ 32" "j < 2 ^ 32" using ij n by simp_all
    ultimately show "i = j" by (simp add: unat_of_nat)
  qed
  then show ?thesis by (simp add: distinct_map)
qed

section \<open>A window that leaks\<close>

text \<open>
  When the counter has reached the window and no entry is in flight, nothing takes it down again: \<open>on_response\<close>
  and \<open>poll\<close> only count down for an entry that is in flight, and none gets there.
\<close>

definition stuck :: "('r, 'e) session \<Rightarrow> bool" where
  "stuck s \<longleftrightarrow> window_size (m_config s) \<le> m_inflight_count s \<and> in_flight s = {}"

lemma stuck_upd:
  "stuck s \<Longrightarrow> \<not> pe_inflight p \<Longrightarrow> stuck (s\<lparr>m_pending_by_tx := (m_pending_by_tx s)(k \<mapsto> p)\<rparr>)"
  by (simp add: stuck_def in_flight_upd)

lemma stuck_entry: "stuck s \<Longrightarrow> m_pending_by_tx s k = Some p \<Longrightarrow> \<not> pe_inflight p"
  by (auto simp: stuck_def in_flight_def)

lemma stuck_step: "session_step s t c s' \<Longrightarrow> stuck s \<Longrightarrow> stuck s' \<and> t = []"
proof (induction rule: session_step.induct)
  case (step_quiet s s')
  then show ?case using in_flight_cong [of s' s] by (simp add: stuck_def host_same_def)
next
  case (step_postponed s k p d)
  then show ?case using stuck_entry [OF step_postponed(2,1)] by (simp add: stuck_upd)
next
  case (step_renumbered k s)
  then show ?case by (simp add: stuck_def in_flight_def)
qed (auto simp: stuck_def erase_pending_def in_flight_def)

lemma stuck_steps: "session_steps s t c s' \<Longrightarrow> stuck s \<Longrightarrow> stuck s' \<and> t = []"
  by (induction rule: session_steps.induct) (auto dest: stuck_step)

lemma stuck_exec:
  assumes "session_exec op s = ((g, t, c), s')" and "stuck s"
  shows "stuck s' \<and> t = []"
  using assms(1)
proof (cases rule: session_exec_steps)
  case (send cmd rcmd request on_resp on_err timeout retries now)
  then show ?thesis using assms(2)
    by (auto simp: session_send_eq register_pending_def stuck_def in_flight_def split: if_splits)
qed (use stuck_steps assms(2) in blast)

lemma stuck_run: "session_run ops s = ((g, t, c), s') \<Longrightarrow> stuck s \<Longrightarrow> stuck s' \<and> t = []"
proof (induction ops arbitrary: s g t c)
  case (Cons op ops)
  from Cons.prems(1) show ?case
    by (rule session_run_ConsE) (use Cons.IH Cons.prems(2) in \<open>auto dest!: stuck_exec\<close>)
qed simp

lemma reused_id_stuck:
  assumes "in_flight s = {k}" and "window_size (m_config s) \<le> m_inflight_count s" and "k \<noteq> 0"
  shows "stuck (snd (session_send cmd rcmd request on_resp on_err timeout retries now (set_next_tx_id k s)))"
  using assms by (auto simp: stuck_def in_flight_def session_send_eq set_next_tx_id_def register_pending_def)

end
