(* ===== verification/Session_Spec.thy ===== *)
theory Session_Spec
  imports Session_Inv
begin

text \<open>
  The operations of the session against what they promise: \<open>poll\<close> as a map over the entries, an
  unanswered request timing out after its retries, \<open>next_outbound\<close> in order, \<open>next_deadline\<close> as the
  minimum, and on the device side the recognition of duplicates and the retention of the cache.
\<close>

section \<open>Poll\<close>

lemma poll_loop_spec:
  "distinct ks \<Longrightarrow> poll_loop now nows ks s = (re, cbs, s') \<Longrightarrow>
     re = concat (map (\<lambda>k. poll_retry now (m_pending_by_tx s k)) ks) \<and>
     cbs = concat (map (\<lambda>k. poll_give_up now (m_pending_by_tx s k)) ks) \<and>
     (\<forall>k. m_pending_by_tx s' k =
        (if k \<in> set ks then poll_entry now nows k (m_pending_by_tx s k) else m_pending_by_tx s k))"
proof (induction ks arbitrary: s re cbs)
  case (Cons k ks)
  then have k: "k \<notin> set ks" "distinct ks" by simp_all
  obtain re1 cbs1 where l: "poll_loop now nows ks (poll_at now nows k s) = (re1, cbs1, s')"
    and "re = poll_retry now (m_pending_by_tx s k) @ re1" "cbs = poll_give_up now (m_pending_by_tx s k) @ cbs1"
    using Cons.prems(2) by (auto simp: poll_loop_Cons simp del: poll_loop.simps split: prod.splits)
  then show ?case using Cons.IH [OF k(2) l] k(1)
    by (auto simp: poll_at_pending intro!: arg_cong [where f = concat] map_cong)
qed simp

text \<open>Polls one after the other, each with its clock readings and iteration order.\<close>

type_synonym poll_call = "int \<times> (u32 \<Rightarrow> int) \<times> u32 list"

fun poll_many :: "poll_call list \<Rightarrow> ('r, 'e) session \<Rightarrow> RetransmitEntry list \<times> ('r, 'e) callback list \<times> ('r, 'e) session" where
  "poll_many [] s = ([], [], s)"
| "poll_many ((now, nows, ks) # ps) s =
     (let (re, cbs, s) = poll now nows ks s; (re', cbs', s) = poll_many ps s in (re @ re', cbs @ cbs', s))"

text \<open>Every poll comes when entry \<open>k\<close> is due again.\<close>

fun all_due :: "u32 \<Rightarrow> int \<Rightarrow> int \<Rightarrow> poll_call list \<Rightarrow> bool" where
  "all_due k timeout deadline [] = True"
| "all_due k timeout deadline ((now, nows, ks) # ps) =
     (deadline \<le> now \<and> distinct ks \<and> List.member ks k \<and> all_due k timeout (nows k + timeout) ps)"

lemma poll_loop_at:
  assumes "distinct ks" and "List.member ks k" and "poll_loop now nows ks s = (re, cbs, s')"
  shows "m_pending_by_tx s' k = poll_entry now nows k (m_pending_by_tx s k)"
    and "set (poll_give_up now (m_pending_by_tx s k)) \<subseteq> set cbs"
  using poll_loop_spec [OF assms(1,3)] assms(2) by auto

lemma poll_many_gone:
  "m_pending_by_tx s k = None \<Longrightarrow> all_due k timeout deadline ps \<Longrightarrow> poll_many ps s = (re, cbs, s') \<Longrightarrow>
     m_pending_by_tx s' k = None"
proof (induction ps arbitrary: s re cbs deadline)
  case (Cons c ps)
  obtain now nows ks where c: "c = (now, nows, ks)" by (cases c)
  obtain re1 cbs1 s1 where l: "poll_loop now nows ks s = (re1, cbs1, s1)" by (rule prod_cases3)
  have "m_pending_by_tx s1 k = None"
    using poll_loop_at(1) [OF _ _ l, of k] Cons.prems by (simp add: c poll_entry_def)
  then show ?case using Cons l by (auto simp: c poll_def split: prod.splits)
qed simp

lemma poll_many_times_out:
  assumes "m_pending_by_tx s k = Some p" and "pe_inflight p" and "pe_on_error p = Some e"
    and "all_due k (pe_timeout p) (pe_deadline p) ps"
    and "unat (pe_max_retries p) - unat (pe_retry_count p) < length ps" and "poll_many ps s = (re, cbs, s')"
  shows "Call_Error e Timeout \<in> set cbs \<and> m_pending_by_tx s' k = None"
  using assms
proof (induction ps arbitrary: s p re cbs)
  case Nil
  then show ?case by simp
next
  case (Cons c ps)
  obtain now nows ks where c: "c = (now, nows, ks)" by (cases c)
  obtain re1 cbs1 s1 where l: "poll_loop now nows ks s = (re1, cbs1, s1)" by (rule prod_cases3)
  obtain re2 cbs2 where m: "poll_many ps s1 = (re2, cbs2, s')" and cbs: "cbs = cbs1 @ cbs2"
    using Cons.prems(6) l by (auto simp: c poll_def split: prod.splits)
  have ks: "distinct ks" "List.member ks k" "pe_deadline p \<le> now" "all_due k (pe_timeout p) (nows k + pe_timeout p) ps"
    using Cons.prems(4) by (simp_all add: c)
  have exp: "entry_expired now p" using Cons.prems(2) ks(3) by simp
  note at = poll_loop_at [OF ks(1,2) l, unfolded Cons.prems(1)]
  show ?case
  proof (cases "pe_max_retries p \<le> pe_retry_count p")
    case True
    then have "m_pending_by_tx s1 k = None" "Call_Error e Timeout \<in> set cbs1"
      using at exp Cons.prems(3) by (simp_all add: poll_entry_def poll_give_up_def)
    then show ?thesis using poll_many_gone [OF _ ks(4) m] cbs by simp
  next
    case False
    then have lt: "pe_retry_count p < pe_max_retries p" by simp
    have "m_pending_by_tx s1 k = Some (rescheduled nows k p)" using at(1) exp False by (simp add: poll_entry_def)
    from Cons.IH [OF this _ _ _ _ m] show ?thesis
      using Cons.prems ks(4) retry_counts [OF lt] cbs by simp
  qed
qed

section \<open>Outbound order and deadlines\<close>

text \<open>With room in the window, the first queued id that is still pending is sent, and the ones before it are dropped.\<close>

lemma next_outbound_first:
  assumes "m_inflight_count s < window_size (m_config s)"
  shows "fst (next_outbound now s) =
    (case dropWhile (\<lambda>k. m_pending_by_tx s k = None) (m_outbound_queue s) of
       [] \<Rightarrow> None
     | k # q \<Rightarrow> map_option retransmit_entry (m_pending_by_tx s k))"
proof -
  have "fst (next_outbound_loop now q s) =
    (case dropWhile (\<lambda>k. m_pending_by_tx s k = None) q of
       [] \<Rightarrow> None
     | k # q \<Rightarrow> map_option retransmit_entry (m_pending_by_tx s k))" for q
    using assms by (induction q) (auto simp: retransmit_entry_def Let_def split: option.splits)
  then show ?thesis by (simp add: next_outbound_def)
qed

lemma next_outbound_full:
  "window_size (m_config s) \<le> m_inflight_count s \<Longrightarrow> next_outbound now s = (None, s)"
  by (cases "m_outbound_queue s") (simp_all add: next_outbound_def)

definition deadlines :: "u32 list \<Rightarrow> ('r, 'e) session \<Rightarrow> int list" where
  "deadlines ks s =
     map pe_deadline (filter pe_inflight (List.map_filter (m_pending_by_tx s) ks))"

lemma deadlines_simps:
  "deadlines [] s = []"
  "deadlines (k # ks) s =
     (case m_pending_by_tx s k of
        None \<Rightarrow> deadlines ks s
      | Some p \<Rightarrow> if pe_inflight p then pe_deadline p # deadlines ks s else deadlines ks s)"
  by (simp_all add: deadlines_def List.map_filter_def split: option.splits)

lemma Min_insert2: "Min (insert a (insert b (set xs))) = Min (insert (min a b) (set xs))" for a b :: int
  by (cases "xs = []") (auto simp: min.assoc)

lemma earlier_deadline_simps:
  "m_pending_by_tx s k = None \<Longrightarrow> earlier_deadline s k e = e"
  "m_pending_by_tx s k = Some p \<Longrightarrow> earlier_deadline s k None = (if pe_inflight p then Some (pe_deadline p) else None)"
  "m_pending_by_tx s k = Some p \<Longrightarrow>
     earlier_deadline s k (Some d) = Some (if pe_inflight p \<and> pe_deadline p < d then pe_deadline p else d)"
  by (simp_all add: earlier_deadline_def)

lemma next_deadline_min:
  "next_deadline ks s = (if deadlines ks s = [] then None else Some (Min (set (deadlines ks s))))"
proof -
  let ?f = "earlier_deadline s"
  have some: "fold ?f ks (Some e) = Some (Min (insert e (set (deadlines ks s))))" for e ks
  proof (induction ks arbitrary: e)
    case Nil
    then show ?case by (simp add: deadlines_simps earlier_deadline_simps)
  next
    case (Cons k ks)
    show ?case
    proof (cases "m_pending_by_tx s k")
      case None
      then show ?thesis using Cons by (simp add: deadlines_simps earlier_deadline_simps)
    next
      case (Some p)
      have "min e (pe_deadline p) = (if pe_deadline p < e then pe_deadline p else e)" by auto
      then show ?thesis using Cons Some Min_insert2 [of e "pe_deadline p" "deadlines ks s"] by (simp add: deadlines_simps earlier_deadline_simps)
    qed
  qed
  have "fold ?f ks None = (if deadlines ks s = [] then None else Some (Min (set (deadlines ks s))))"
  proof (induction ks)
    case Nil
    then show ?case by (simp add: deadlines_simps earlier_deadline_simps)
  next
    case (Cons k ks)
    show ?case
    proof (cases "m_pending_by_tx s k")
      case None
      then show ?thesis using Cons by (simp add: deadlines_simps earlier_deadline_simps)
    next
      case (Some p)
      then show ?thesis using Cons some [of ks "pe_deadline p"] by (simp add: deadlines_simps earlier_deadline_simps)
    qed
  qed
  then show ?thesis by (simp add: next_deadline_def)
qed

section \<open>Device side\<close>

text \<open>Requests one after the other, and the device after them.\<close>

fun on_requests :: "(u16 \<times> u32) list \<Rightarrow> ('r, 'e) session \<Rightarrow> ('r, 'e) session" where
  "on_requests [] s = s"
| "on_requests ((cmd, tx) # rs) s = on_requests rs (snd (on_request cmd tx s))"

lemma on_request_ring:
  "is_duplicate (fst (on_request cmd tx s)) = fst (test_and_insert (compose_dedup_key cmd tx) (m_seen_requests s))"
  "m_seen_requests (snd (on_request cmd tx s)) = snd (test_and_insert (compose_dedup_key cmd tx) (m_seen_requests s))"
  by (simp_all add: on_request_def Let_def split: prod.split)

lemma on_requests_ring:
  "m_seen_requests (on_requests rs s) =
     dedup_run test_and_insert (map (\<lambda>(cmd, tx). compose_dedup_key cmd tx) rs) (m_seen_requests s)"
  by (induction rs arbitrary: s) (auto simp: on_request_ring)

lemma on_request_recognised:
  assumes "id_ring_inv (m_seen_requests s)" and "\<not> is_duplicate (fst (on_request cmd tx s))"
    and "length rs < id_ring_size (m_seen_requests s)"
  shows "is_duplicate (fst (on_request cmd tx (on_requests rs (snd (on_request cmd tx s)))))"
proof -
  let ?k = "compose_dedup_key cmd tx" and ?ks = "map (\<lambda>(cmd, tx). compose_dedup_key cmd tx) rs"
  have "?k \<notin> set (id_ring_window (m_seen_requests s))"
    using assms(2) idr.tai_result [OF assms(1)] by (simp add: on_request_ring)
  from idr.recognised_after_fresh [OF assms(1) this, of ?ks] assms(3)
  show ?thesis by (simp add: on_request_ring on_requests_ring id_ring_size_def)
qed

text \<open>The cache after shrinking: the oldest keys are gone.\<close>

lemma shrink_device_cache_eq:
  "m_completed_order (shrink_device_cache s) =
     drop (length (m_completed_order s) - device_cache_capacity (m_config s)) (m_completed_order s)"
  "m_completed_cache (shrink_device_cache s) k =
     (if k \<in> set (take (length (m_completed_order s) - device_cache_capacity (m_config s)) (m_completed_order s))
      then None else m_completed_cache s k)"
proof -
  have "m_completed_order (shrink_device_cache s) =
      drop (length (m_completed_order s) - device_cache_capacity (m_config s)) (m_completed_order s) \<and>
    m_completed_cache (shrink_device_cache s) k =
     (if k \<in> set (take (length (m_completed_order s) - device_cache_capacity (m_config s)) (m_completed_order s))
      then None else m_completed_cache s k)"
  proof (induction s rule: shrink_device_cache.induct)
    case (1 s)
    let ?n = "length (m_completed_order s) - device_cache_capacity (m_config s)"
    show ?case
    proof (cases "device_cache_capacity (m_config s) < length (m_completed_order s)")
      case True
      then obtain a q where q: "m_completed_order s = a # q" by (cases "m_completed_order s") auto
      then have "?n = Suc (length q - device_cache_capacity (m_config s))" using True by simp
      then show ?thesis using 1 [OF True] True by (subst (1 2) shrink_device_cache.simps) (auto simp: q)
    next
      case False
      then show ?thesis by (subst (1 2) shrink_device_cache.simps) simp
    qed
  qed
  then show "m_completed_order (shrink_device_cache s) =
     drop (length (m_completed_order s) - device_cache_capacity (m_config s)) (m_completed_order s)"
    and "m_completed_cache (shrink_device_cache s) k =
     (if k \<in> set (take (length (m_completed_order s) - device_cache_capacity (m_config s)) (m_completed_order s))
      then None else m_completed_cache s k)" by auto
qed

definition cache_inv :: "('r, 'e) session \<Rightarrow> bool" where
  "cache_inv s \<longleftrightarrow>
     length (m_completed_order s) \<le> device_cache_capacity (m_config s) \<and>
     dom (m_completed_cache s) \<subseteq> set (m_completed_order s)"

lemma cache_response_inv:
  assumes "cache_inv s"
  shows "cache_inv (cache_response cmd tx rcmd bs s)"
proof -
  let ?dk = "compose_dedup_key cmd tx" and ?o = "m_completed_order s"
  let ?n = "length ?o + 1 - device_cache_capacity (m_config s)"
  have "set (?o @ [?dk]) \<subseteq> set (take ?n (?o @ [?dk])) \<union> set (drop ?n (?o @ [?dk]))"
    by (metis append_take_drop_id set_append order_refl)
  then show ?thesis using assms
    by (auto simp: cache_inv_def cache_response_def Let_def shrink_device_cache_eq dom_def split: if_splits)
qed

text \<open>Responses cached one after the other.\<close>

fun cache_responses :: "(u16 \<times> u32 \<times> u16 \<times> bytes) list \<Rightarrow> ('r, 'e) session \<Rightarrow> ('r, 'e) session" where
  "cache_responses [] s = s"
| "cache_responses ((cmd, tx, rcmd, bs) # rs) s = cache_responses rs (cache_response cmd tx rcmd bs s)"

abbreviation cached_key :: "u16 \<times> u32 \<times> u16 \<times> bytes \<Rightarrow> u64" where
  "cached_key \<equiv> \<lambda>(cmd, tx, rcmd, bs). compose_dedup_key cmd tx"

lemma cache_responses_keep:
  "m_completed_order s = pre @ k # post \<Longrightarrow> k \<notin> set pre \<Longrightarrow> m_completed_cache s k = Some r \<Longrightarrow>
     length post + length rs < device_cache_capacity (m_config s) \<Longrightarrow> k \<notin> cached_key ` set rs \<Longrightarrow>
     m_completed_cache (cache_responses rs s) k = Some r"
proof (induction rs arbitrary: s pre post)
  case Nil
  then show ?case by simp
next
  case (Cons c rs)
  obtain cmd tx rcmd bs where c: "c = (cmd, tx, rcmd, bs)" by (cases c)
  let ?dk = "compose_dedup_key cmd tx" and ?s = "cache_response cmd tx rcmd bs s"
  let ?n = "length (m_completed_order s) + 1 - device_cache_capacity (m_config s)"
  have n: "?n \<le> length pre" using Cons.prems(1,4) by simp
  then have o: "m_completed_order ?s = drop ?n pre @ k # (post @ [?dk])"
    using Cons.prems(1) by (simp add: cache_response_def Let_def shrink_device_cache_eq)
  have "k \<notin> set (take ?n (m_completed_order s @ [?dk]))"
    using n Cons.prems(1,2) by (auto dest: in_set_takeD)
  moreover have "k \<noteq> ?dk" using Cons.prems(5) by (auto simp: c)
  ultimately have "m_completed_cache ?s k = Some r"
    using Cons.prems(3) by (simp add: cache_response_def Let_def shrink_device_cache_eq)
  moreover have "k \<notin> set (drop ?n pre)" using Cons.prems(2) by (auto dest: in_set_dropD)
  ultimately have "m_completed_cache (cache_responses rs ?s) k = Some r"
    using Cons.IH [OF o] Cons.prems(4,5) by (simp add: c)
  then show ?case by (simp add: c)
qed

text \<open>A response is found in the cache until as many others as the capacity have been cached.\<close>

lemma cache_response_then:
  assumes "cache_inv s" and "compose_dedup_key cmd tx \<notin> set (m_completed_order s)"
    and "0 < device_cache_capacity (m_config s)"
    and "s1 = cache_response cmd tx rcmd bs s"
  shows "\<exists>pre. m_completed_order s1 = pre @ [compose_dedup_key cmd tx] \<and> compose_dedup_key cmd tx \<notin> set pre \<and>
    m_completed_cache s1 (compose_dedup_key cmd tx) =
      Some \<lparr>cr_response_cmd = rcmd, cr_response_bytes = take MAX_PACKET_SIZE bs\<rparr>"
proof -
  let ?k = "compose_dedup_key cmd tx" and ?cap = "device_cache_capacity (m_config s)"
  let ?n = "Suc (length (m_completed_order s)) - ?cap"
  have n: "?n \<le> length (m_completed_order s)" using assms(3) by linarith
  then have order: "m_completed_order s1 = drop ?n (m_completed_order s) @ [?k]"
    by (simp add: assms(4) cache_response_def Let_def shrink_device_cache_eq)
  moreover have "?k \<notin> set (drop ?n (m_completed_order s))" using assms(2) by (meson in_set_dropD)
  moreover have "?k \<notin> set (take ?n (m_completed_order s @ [?k]))" using assms(2) n by (auto dest: in_set_takeD)
  then have "m_completed_cache s1 ?k = Some \<lparr>cr_response_cmd = rcmd, cr_response_bytes = take MAX_PACKET_SIZE bs\<rparr>"
    by (simp add: assms(4) cache_response_def Let_def shrink_device_cache_eq)
  ultimately show ?thesis by blast
qed

lemma cache_responses_inv: "cache_inv s \<Longrightarrow> cache_inv (cache_responses rs s)"
  by (induction rs s rule: cache_responses.induct) (simp_all add: cache_response_inv)

lemma response_stays_cached:
  assumes "cache_inv s" and "compose_dedup_key cmd tx \<notin> set (m_completed_order s)"
    and "length rs < device_cache_capacity (m_config s)" and "compose_dedup_key cmd tx \<notin> cached_key ` set rs"
  shows "m_completed_cache (cache_responses rs (cache_response cmd tx rcmd bs s)) (compose_dedup_key cmd tx) =
    Some \<lparr>cr_response_cmd = rcmd, cr_response_bytes = take MAX_PACKET_SIZE bs\<rparr>"
proof -
  have "0 < device_cache_capacity (m_config s)" using assms(3) by simp
  from cache_response_then [OF assms(1,2) this refl, of rcmd bs] show ?thesis
    using cache_responses_keep [of "cache_response cmd tx rcmd bs s" _ "compose_dedup_key cmd tx" "[]" _ rs] assms(3,4) by auto
qed

text \<open>
  A response cached twice is in the queue of keys twice, and leaves the cache with the first of them: one other
  response earlier than a response cached once.
\<close>

lemma cache_responses_evict_head:
  "m_completed_order s = k # q \<Longrightarrow> length q < device_cache_capacity (m_config s) \<Longrightarrow>
     length q + length rs = device_cache_capacity (m_config s) \<Longrightarrow> k \<notin> cached_key ` set rs \<Longrightarrow>
     m_completed_cache (cache_responses rs s) k = None"
proof (induction rs arbitrary: s q)
  case (Cons c rs)
  obtain cmd tx rcmd bs where c: "c = (cmd, tx, rcmd, bs)" by (cases c)
  let ?dk = "compose_dedup_key cmd tx" and ?s = "cache_response cmd tx rcmd bs s"
  have k: "k \<noteq> ?dk" using Cons.prems(4) by (auto simp: c)
  show ?case
  proof (cases "Suc (length q) < device_cache_capacity (m_config s)")
    case True
    then have "m_completed_order ?s = k # q @ [?dk]"
      using Cons.prems(1) by (simp add: cache_response_def Let_def shrink_device_cache_eq)
    from Cons.IH [OF this] Cons.prems True show ?thesis by (simp add: c)
  next
    case False
    moreover have "Suc (length q + length rs) = device_cache_capacity (m_config s)" using Cons.prems(3) by simp
    ultimately have "length rs = 0" and "Suc (length q) = device_cache_capacity (m_config s)" using Cons.prems(2) by linarith+
    then show ?thesis using Cons.prems(1) by (simp add: c cache_response_def Let_def shrink_device_cache_eq)
  qed
qed simp

lemma recached_response_evicted:
  assumes "m_completed_order s = []" and "Suc (length rs) = device_cache_capacity (m_config s)"
    and "compose_dedup_key cmd tx \<notin> cached_key ` set rs"
  shows "m_completed_cache (cache_responses rs (cache_response cmd tx rcmd bs (cache_response cmd tx rcmd bs s)))
    (compose_dedup_key cmd tx) = None"
proof -
  let ?k = "compose_dedup_key cmd tx" and ?s = "cache_response cmd tx rcmd bs (cache_response cmd tx rcmd bs s)"
  have cfg: "m_config (cache_response cmd tx rcmd bs s') = m_config s'" for s' by simp
  show ?thesis
  proof (cases rs)
    case Nil
    then have "device_cache_capacity (m_config s) = 1" using assms(2) by simp
    then show ?thesis using assms(1) Nil by (simp add: cache_response_def Let_def shrink_device_cache_eq)
  next
    case (Cons r rs')
    then have "m_completed_order ?s = ?k # [?k]"
      using assms(1,2) by (simp add: cache_response_def Let_def shrink_device_cache_eq)
    from cache_responses_evict_head [OF this, of rs] show ?thesis using assms Cons by simp
  qed
qed

end
