(* ===== verification/Arm_Packets.thy ===== *)
theory Arm_Packets
  imports Packet_Traits
begin

text \<open>
  The packets of \<open>ArmStatus.hpp\<close> and \<open>ArmCommand.hpp\<close>: every enumeration, every packed structure as a
  layout with the source's member names and order, and every \<open>PacketTraits\<close> specialisation with its
  command id. Each definition has the name of the C++ type it stands for; \<open>X_type\<close> is the byte an
  enumeration \<open>X\<close> occupies and \<open>PacketTraits_X\<close> the specialisation for packet \<open>X\<close>.
\<close>

section \<open>Enumerations\<close>

datatype ArmMode = ArmMode_INIT | ArmMode_IDLE | ArmMode_RUNNING | ArmMode_FAULT | ArmMode_ESTOP

fun ArmMode_value :: "ArmMode \<Rightarrow> u8" where
  "ArmMode_value ArmMode_INIT = 0"
| "ArmMode_value ArmMode_IDLE = 1"
| "ArmMode_value ArmMode_RUNNING = 2"
| "ArmMode_value ArmMode_FAULT = 3"
| "ArmMode_value ArmMode_ESTOP = 4"

definition ArmMode_type :: cty where
  "ArmMode_type = CEnum (map ArmMode_value [ArmMode_INIT, ArmMode_IDLE, ArmMode_RUNNING, ArmMode_FAULT, ArmMode_ESTOP])"

datatype SetMitLimitStatus = SetMitLimitStatus_Ok | SetMitLimitStatus_InvalidJoint | SetMitLimitStatus_StorageFailed

fun SetMitLimitStatus_value :: "SetMitLimitStatus \<Rightarrow> u8" where
  "SetMitLimitStatus_value SetMitLimitStatus_Ok = 0"
| "SetMitLimitStatus_value SetMitLimitStatus_InvalidJoint = 1"
| "SetMitLimitStatus_value SetMitLimitStatus_StorageFailed = 2"

definition SetMitLimitStatus_type :: cty where
  "SetMitLimitStatus_type = CEnum (map SetMitLimitStatus_value [SetMitLimitStatus_Ok, SetMitLimitStatus_InvalidJoint, SetMitLimitStatus_StorageFailed])"

datatype MotorStateValue = MotorStateValue_Disable | MotorStateValue_Enable

fun MotorStateValue_value :: "MotorStateValue \<Rightarrow> u8" where
  "MotorStateValue_value MotorStateValue_Disable = 0"
| "MotorStateValue_value MotorStateValue_Enable = 1"

definition MotorStateValue_type :: cty where
  "MotorStateValue_type = CEnum (map MotorStateValue_value [MotorStateValue_Disable, MotorStateValue_Enable])"

datatype SetMotorStateStatus = SetMotorStateStatus_Ok | SetMotorStateStatus_UnsupportedInCurrentMode | SetMotorStateStatus_InvalidJoint | SetMotorStateStatus_StorageFailed

fun SetMotorStateStatus_value :: "SetMotorStateStatus \<Rightarrow> u8" where
  "SetMotorStateStatus_value SetMotorStateStatus_Ok = 0"
| "SetMotorStateStatus_value SetMotorStateStatus_UnsupportedInCurrentMode = 1"
| "SetMotorStateStatus_value SetMotorStateStatus_InvalidJoint = 2"
| "SetMotorStateStatus_value SetMotorStateStatus_StorageFailed = 3"

definition SetMotorStateStatus_type :: cty where
  "SetMotorStateStatus_type = CEnum (map SetMotorStateStatus_value [SetMotorStateStatus_Ok, SetMotorStateStatus_UnsupportedInCurrentMode, SetMotorStateStatus_InvalidJoint, SetMotorStateStatus_StorageFailed])"

datatype MotorControlMode = MotorControlMode_Mit | MotorControlMode_PosVel | MotorControlMode_Vel | MotorControlMode_Hybrid

fun MotorControlMode_value :: "MotorControlMode \<Rightarrow> u8" where
  "MotorControlMode_value MotorControlMode_Mit = 1"
| "MotorControlMode_value MotorControlMode_PosVel = 2"
| "MotorControlMode_value MotorControlMode_Vel = 3"
| "MotorControlMode_value MotorControlMode_Hybrid = 4"

definition MotorControlMode_type :: cty where
  "MotorControlMode_type = CEnum (map MotorControlMode_value [MotorControlMode_Mit, MotorControlMode_PosVel, MotorControlMode_Vel, MotorControlMode_Hybrid])"

datatype SetMotorControlModeStatus = SetMotorControlModeStatus_Ok | SetMotorControlModeStatus_UnsupportedInCurrentMode | SetMotorControlModeStatus_InvalidJoint | SetMotorControlModeStatus_InvalidMode | SetMotorControlModeStatus_CanTxFailed

fun SetMotorControlModeStatus_value :: "SetMotorControlModeStatus \<Rightarrow> u8" where
  "SetMotorControlModeStatus_value SetMotorControlModeStatus_Ok = 0"
| "SetMotorControlModeStatus_value SetMotorControlModeStatus_UnsupportedInCurrentMode = 1"
| "SetMotorControlModeStatus_value SetMotorControlModeStatus_InvalidJoint = 2"
| "SetMotorControlModeStatus_value SetMotorControlModeStatus_InvalidMode = 3"
| "SetMotorControlModeStatus_value SetMotorControlModeStatus_CanTxFailed = 4"

definition SetMotorControlModeStatus_type :: cty where
  "SetMotorControlModeStatus_type = CEnum (map SetMotorControlModeStatus_value [SetMotorControlModeStatus_Ok, SetMotorControlModeStatus_UnsupportedInCurrentMode, SetMotorControlModeStatus_InvalidJoint, SetMotorControlModeStatus_InvalidMode, SetMotorControlModeStatus_CanTxFailed])"

datatype SetZeroStatus = SetZeroStatus_Ok | SetZeroStatus_InvalidJoint | SetZeroStatus_CalibrationFailed

fun SetZeroStatus_value :: "SetZeroStatus \<Rightarrow> u8" where
  "SetZeroStatus_value SetZeroStatus_Ok = 0"
| "SetZeroStatus_value SetZeroStatus_InvalidJoint = 1"
| "SetZeroStatus_value SetZeroStatus_CalibrationFailed = 2"

definition SetZeroStatus_type :: cty where
  "SetZeroStatus_type = CEnum (map SetZeroStatus_value [SetZeroStatus_Ok, SetZeroStatus_InvalidJoint, SetZeroStatus_CalibrationFailed])"

datatype ClearErrorStatus = ClearErrorStatus_Ok | ClearErrorStatus_InvalidJoint

fun ClearErrorStatus_value :: "ClearErrorStatus \<Rightarrow> u8" where
  "ClearErrorStatus_value ClearErrorStatus_Ok = 0"
| "ClearErrorStatus_value ClearErrorStatus_InvalidJoint = 1"

definition ClearErrorStatus_type :: cty where
  "ClearErrorStatus_type = CEnum (map ClearErrorStatus_value [ClearErrorStatus_Ok, ClearErrorStatus_InvalidJoint])"

datatype HomeAllStatus = HomeAllStatus_Ok | HomeAllStatus_NotIdle | HomeAllStatus_CalibrationFailed

fun HomeAllStatus_value :: "HomeAllStatus \<Rightarrow> u8" where
  "HomeAllStatus_value HomeAllStatus_Ok = 0"
| "HomeAllStatus_value HomeAllStatus_NotIdle = 1"
| "HomeAllStatus_value HomeAllStatus_CalibrationFailed = 2"

definition HomeAllStatus_type :: cty where
  "HomeAllStatus_type = CEnum (map HomeAllStatus_value [HomeAllStatus_Ok, HomeAllStatus_NotIdle, HomeAllStatus_CalibrationFailed])"

datatype CalibrationType = CalibrationType_Home | CalibrationType_Zero

fun CalibrationType_value :: "CalibrationType \<Rightarrow> u8" where
  "CalibrationType_value CalibrationType_Home = 0"
| "CalibrationType_value CalibrationType_Zero = 1"

definition CalibrationType_type :: cty where
  "CalibrationType_type = CEnum (map CalibrationType_value [CalibrationType_Home, CalibrationType_Zero])"

datatype RunCalibrationStatus = RunCalibrationStatus_Ok | RunCalibrationStatus_NotIdle | RunCalibrationStatus_CalibrationFailed

fun RunCalibrationStatus_value :: "RunCalibrationStatus \<Rightarrow> u8" where
  "RunCalibrationStatus_value RunCalibrationStatus_Ok = 0"
| "RunCalibrationStatus_value RunCalibrationStatus_NotIdle = 1"
| "RunCalibrationStatus_value RunCalibrationStatus_CalibrationFailed = 2"

definition RunCalibrationStatus_type :: cty where
  "RunCalibrationStatus_type = CEnum (map RunCalibrationStatus_value [RunCalibrationStatus_Ok, RunCalibrationStatus_NotIdle, RunCalibrationStatus_CalibrationFailed])"

datatype ClearFaultsStatus = ClearFaultsStatus_Ok

fun ClearFaultsStatus_value :: "ClearFaultsStatus \<Rightarrow> u8" where
  "ClearFaultsStatus_value ClearFaultsStatus_Ok = 0"

definition ClearFaultsStatus_type :: cty where
  "ClearFaultsStatus_type = CEnum (map ClearFaultsStatus_value [ClearFaultsStatus_Ok])"

datatype CollisionSensitivity = CollisionSensitivity_Low | CollisionSensitivity_Medium | CollisionSensitivity_High

fun CollisionSensitivity_value :: "CollisionSensitivity \<Rightarrow> u8" where
  "CollisionSensitivity_value CollisionSensitivity_Low = 0"
| "CollisionSensitivity_value CollisionSensitivity_Medium = 1"
| "CollisionSensitivity_value CollisionSensitivity_High = 2"

definition CollisionSensitivity_type :: cty where
  "CollisionSensitivity_type = CEnum (map CollisionSensitivity_value [CollisionSensitivity_Low, CollisionSensitivity_Medium, CollisionSensitivity_High])"

datatype SetSafetyStatus = SetSafetyStatus_Ok | SetSafetyStatus_StorageFailed

fun SetSafetyStatus_value :: "SetSafetyStatus \<Rightarrow> u8" where
  "SetSafetyStatus_value SetSafetyStatus_Ok = 0"
| "SetSafetyStatus_value SetSafetyStatus_StorageFailed = 1"

definition SetSafetyStatus_type :: cty where
  "SetSafetyStatus_type = CEnum (map SetSafetyStatus_value [SetSafetyStatus_Ok, SetSafetyStatus_StorageFailed])"

datatype SdkClientNotifyStatus = SdkClientNotifyStatus_Ok

fun SdkClientNotifyStatus_value :: "SdkClientNotifyStatus \<Rightarrow> u8" where
  "SdkClientNotifyStatus_value SdkClientNotifyStatus_Ok = 0"

definition SdkClientNotifyStatus_type :: cty where
  "SdkClientNotifyStatus_type = CEnum (map SdkClientNotifyStatus_value [SdkClientNotifyStatus_Ok])"

datatype HomeDoneStatus = HomeDoneStatus_Ok

fun HomeDoneStatus_value :: "HomeDoneStatus \<Rightarrow> u8" where
  "HomeDoneStatus_value HomeDoneStatus_Ok = 0"

definition HomeDoneStatus_type :: cty where
  "HomeDoneStatus_type = CEnum (map HomeDoneStatus_value [HomeDoneStatus_Ok])"

datatype UsbSessionStartStatus = UsbSessionStartStatus_Ok

fun UsbSessionStartStatus_value :: "UsbSessionStartStatus \<Rightarrow> u8" where
  "UsbSessionStartStatus_value UsbSessionStartStatus_Ok = 0"

definition UsbSessionStartStatus_type :: cty where
  "UsbSessionStartStatus_type = CEnum (map UsbSessionStartStatus_value [UsbSessionStartStatus_Ok])"

datatype UsbSessionStopStatus = UsbSessionStopStatus_Ok

fun UsbSessionStopStatus_value :: "UsbSessionStopStatus \<Rightarrow> u8" where
  "UsbSessionStopStatus_value UsbSessionStopStatus_Ok = 0"

definition UsbSessionStopStatus_type :: cty where
  "UsbSessionStopStatus_type = CEnum (map UsbSessionStopStatus_value [UsbSessionStopStatus_Ok])"

section \<open>Structures\<close>

abbreviation TransactionId :: cty where
  "TransactionId \<equiv> CU32"

definition JointStatus :: cty where
  "JointStatus = CStruct [
     (''q'', CArr 6 CF32),
     (''dq'', CArr 6 CF32),
     (''tau'', CArr 6 CF32)]"

definition GripperStatus :: cty where
  "GripperStatus = CStruct [
     (''q'', CF32),
     (''dq'', CF32),
     (''tau'', CF32),
     (''temp_c'', CF32),
     (''enabled'', CU8),
     (''_pad'', CArr 3 CU8)]"

definition ArmStatus :: cty where
  "ArmStatus = CStruct [
     (''mode'', ArmMode_type),
     (''_pad0'', CArr 3 CU8),
     (''seq'', CU32),
     (''timestamp_us'', CU64),
     (''status'', JointStatus),
     (''base_gravity'', CArr 3 CF32),
     (''gripper'', GripperStatus)]"

definition MotorFeedback :: cty where
  "MotorFeedback = CStruct [
     (''bits'', CBits [(''joint_id'', 3), (''device_status'', 4), (''enabled'', 1)]),
     (''position_rad'', CF32),
     (''speed_rad_s'', CF32),
     (''torque_nm'', CF32),
     (''temp_c'', CF32)]"

definition MotorFeedbackArray :: cty where
  "MotorFeedbackArray = CStruct [
     (''motors'', CArr 7 MotorFeedback)]"

definition SetMitLimitCommand :: cty where
  "SetMitLimitCommand = CStruct [
     (''joint_id'', CU8),
     (''torque_limit_nm'', CF32),
     (''velocity_limit_rps'', CF32)]"

definition SetMotorStateCommand :: cty where
  "SetMotorStateCommand = CStruct [
     (''joint_id'', CU8),
     (''state'', MotorStateValue_type)]"

definition SetMotorControlModeCommand :: cty where
  "SetMotorControlModeCommand = CStruct [
     (''joint_id'', CU8),
     (''mode'', MotorControlMode_type)]"

definition SetZeroCommand :: cty where
  "SetZeroCommand = CStruct [
     (''joint_id'', CU8)]"

definition ClearErrorCommand :: cty where
  "ClearErrorCommand = CStruct [
     (''joint_id'', CU8)]"

definition HomeAllCommand :: cty where
  "HomeAllCommand = CStruct [
     (''dummy'', CU8)]"

definition RunCalibrationCommand :: cty where
  "RunCalibrationCommand = CStruct [
     (''calib_type'', CalibrationType_type)]"

definition ClearFaultsCommand :: cty where
  "ClearFaultsCommand = CStruct [
     (''dummy'', CU8)]"

definition SetSafetyCommand :: cty where
  "SetSafetyCommand = CStruct [
     (''e_stop_deceleration_dps2'', CF32),
     (''max_payload_kg'', CF32)]"

definition SdkClientConnectedCommand :: cty where
  "SdkClientConnectedCommand = CStruct [
     (''dummy'', CU8)]"

definition SdkClientDisconnectedCommand :: cty where
  "SdkClientDisconnectedCommand = CStruct [
     (''dummy'', CU8)]"

definition HomeDoneCommand :: cty where
  "HomeDoneCommand = CStruct [
     (''dummy'', CU8)]"

definition SetMitLimitResponse :: cty where
  "SetMitLimitResponse = CStruct [
     (''status'', SetMitLimitStatus_type)]"

definition SetMotorStateResponse :: cty where
  "SetMotorStateResponse = CStruct [
     (''status'', SetMotorStateStatus_type)]"

definition SetMotorControlModeResponse :: cty where
  "SetMotorControlModeResponse = CStruct [
     (''status'', SetMotorControlModeStatus_type)]"

definition SetZeroResponse :: cty where
  "SetZeroResponse = CStruct [
     (''status'', SetZeroStatus_type)]"

definition ClearErrorResponse :: cty where
  "ClearErrorResponse = CStruct [
     (''status'', ClearErrorStatus_type)]"

definition HomeAllResponse :: cty where
  "HomeAllResponse = CStruct [
     (''status'', HomeAllStatus_type)]"

definition RunCalibrationResponse :: cty where
  "RunCalibrationResponse = CStruct [
     (''status'', RunCalibrationStatus_type)]"

definition ClearFaultsResponse :: cty where
  "ClearFaultsResponse = CStruct [
     (''status'', ClearFaultsStatus_type)]"

definition SetSafetyResponse :: cty where
  "SetSafetyResponse = CStruct [
     (''status'', SetSafetyStatus_type)]"

definition SdkClientNotifyResponse :: cty where
  "SdkClientNotifyResponse = CStruct [
     (''status'', SdkClientNotifyStatus_type)]"

definition HomeDoneResponse :: cty where
  "HomeDoneResponse = CStruct [
     (''status'', HomeDoneStatus_type)]"

definition AckPacket :: cty where
  "AckPacket = CStruct [
     (''tx_id'', TransactionId),
     (''cmd_id'', CU16),
     (''status'', CU8)]"

definition SetMitLimitRequestPacket :: cty where
  "SetMitLimitRequestPacket = CStruct [
     (''tx_id'', TransactionId),
     (''payload'', SetMitLimitCommand)]"

definition SetMotorStateRequestPacket :: cty where
  "SetMotorStateRequestPacket = CStruct [
     (''tx_id'', TransactionId),
     (''payload'', SetMotorStateCommand)]"

definition SetMotorControlModeRequestPacket :: cty where
  "SetMotorControlModeRequestPacket = CStruct [
     (''tx_id'', TransactionId),
     (''payload'', SetMotorControlModeCommand)]"

definition SetZeroRequestPacket :: cty where
  "SetZeroRequestPacket = CStruct [
     (''tx_id'', TransactionId),
     (''payload'', SetZeroCommand)]"

definition ClearErrorRequestPacket :: cty where
  "ClearErrorRequestPacket = CStruct [
     (''tx_id'', TransactionId),
     (''payload'', ClearErrorCommand)]"

definition HomeAllRequestPacket :: cty where
  "HomeAllRequestPacket = CStruct [
     (''tx_id'', TransactionId),
     (''payload'', HomeAllCommand)]"

definition RunCalibrationRequestPacket :: cty where
  "RunCalibrationRequestPacket = CStruct [
     (''tx_id'', TransactionId),
     (''payload'', RunCalibrationCommand)]"

definition ClearFaultsRequestPacket :: cty where
  "ClearFaultsRequestPacket = CStruct [
     (''tx_id'', TransactionId),
     (''payload'', ClearFaultsCommand)]"

definition SetSafetyRequestPacket :: cty where
  "SetSafetyRequestPacket = CStruct [
     (''tx_id'', TransactionId),
     (''payload'', SetSafetyCommand)]"

definition SdkClientConnectedRequestPacket :: cty where
  "SdkClientConnectedRequestPacket = CStruct [
     (''tx_id'', TransactionId),
     (''payload'', SdkClientConnectedCommand)]"

definition SdkClientDisconnectedRequestPacket :: cty where
  "SdkClientDisconnectedRequestPacket = CStruct [
     (''tx_id'', TransactionId),
     (''payload'', SdkClientDisconnectedCommand)]"

definition HomeDoneRequestPacket :: cty where
  "HomeDoneRequestPacket = CStruct [
     (''tx_id'', TransactionId),
     (''payload'', HomeDoneCommand)]"

definition SetMitLimitResponsePacket :: cty where
  "SetMitLimitResponsePacket = CStruct [
     (''tx_id'', TransactionId),
     (''payload'', SetMitLimitResponse)]"

definition SetMotorStateResponsePacket :: cty where
  "SetMotorStateResponsePacket = CStruct [
     (''tx_id'', TransactionId),
     (''payload'', SetMotorStateResponse)]"

definition SetMotorControlModeResponsePacket :: cty where
  "SetMotorControlModeResponsePacket = CStruct [
     (''tx_id'', TransactionId),
     (''payload'', SetMotorControlModeResponse)]"

definition SetZeroResponsePacket :: cty where
  "SetZeroResponsePacket = CStruct [
     (''tx_id'', TransactionId),
     (''payload'', SetZeroResponse)]"

definition ClearErrorResponsePacket :: cty where
  "ClearErrorResponsePacket = CStruct [
     (''tx_id'', TransactionId),
     (''payload'', ClearErrorResponse)]"

definition HomeAllResponsePacket :: cty where
  "HomeAllResponsePacket = CStruct [
     (''tx_id'', TransactionId),
     (''payload'', HomeAllResponse)]"

definition RunCalibrationResponsePacket :: cty where
  "RunCalibrationResponsePacket = CStruct [
     (''tx_id'', TransactionId),
     (''payload'', RunCalibrationResponse)]"

definition ClearFaultsResponsePacket :: cty where
  "ClearFaultsResponsePacket = CStruct [
     (''tx_id'', TransactionId),
     (''payload'', ClearFaultsResponse)]"

definition SetSafetyResponsePacket :: cty where
  "SetSafetyResponsePacket = CStruct [
     (''tx_id'', TransactionId),
     (''payload'', SetSafetyResponse)]"

definition SdkClientConnectedResponsePacket :: cty where
  "SdkClientConnectedResponsePacket = CStruct [
     (''tx_id'', TransactionId),
     (''payload'', SdkClientNotifyResponse)]"

definition SdkClientDisconnectedResponsePacket :: cty where
  "SdkClientDisconnectedResponsePacket = CStruct [
     (''tx_id'', TransactionId),
     (''payload'', SdkClientNotifyResponse)]"

definition HomeDoneResponsePacket :: cty where
  "HomeDoneResponsePacket = CStruct [
     (''tx_id'', TransactionId),
     (''payload'', HomeDoneResponse)]"

definition UsbSessionStartCommand :: cty where
  "UsbSessionStartCommand = CStruct [
     (''dummy'', CU8)]"

definition UsbSessionStopCommand :: cty where
  "UsbSessionStopCommand = CStruct [
     (''dummy'', CU8)]"

definition UsbSessionStartResponse :: cty where
  "UsbSessionStartResponse = CStruct [
     (''status'', UsbSessionStartStatus_type)]"

definition UsbSessionStopResponse :: cty where
  "UsbSessionStopResponse = CStruct [
     (''status'', UsbSessionStopStatus_type)]"

definition UsbSessionStartRequestPacket :: cty where
  "UsbSessionStartRequestPacket = CStruct [
     (''tx_id'', TransactionId),
     (''payload'', UsbSessionStartCommand)]"

definition UsbSessionStartResponsePacket :: cty where
  "UsbSessionStartResponsePacket = CStruct [
     (''tx_id'', TransactionId),
     (''payload'', UsbSessionStartResponse)]"

definition UsbSessionStopRequestPacket :: cty where
  "UsbSessionStopRequestPacket = CStruct [
     (''tx_id'', TransactionId),
     (''payload'', UsbSessionStopCommand)]"

definition UsbSessionStopResponsePacket :: cty where
  "UsbSessionStopResponsePacket = CStruct [
     (''tx_id'', TransactionId),
     (''payload'', UsbSessionStopResponse)]"

definition JointCommandPacket :: cty where
  "JointCommandPacket = CStruct [
     (''q'', CArr 6 CF32),
     (''dq'', CArr 6 CF32),
     (''tau'', CArr 6 CF32),
     (''kp'', CArr 6 CF32),
     (''kd'', CArr 6 CF32),
     (''dt_us'', CU32),
     (''seq'', CU16),
     (''control_mode'', CU8)]"

definition JointPosVelCommandPacket :: cty where
  "JointPosVelCommandPacket = CStruct [
     (''q'', CArr 6 CF32),
     (''dq'', CArr 6 CF32),
     (''enabled_mask'', CU8),
     (''seq'', CU16)]"

definition JointVelocityCommandPacket :: cty where
  "JointVelocityCommandPacket = CStruct [
     (''dq'', CArr 6 CF32),
     (''enabled_mask'', CU8),
     (''seq'', CU16)]"

definition JointHybridCommandPacket :: cty where
  "JointHybridCommandPacket = CStruct [
     (''q'', CArr 6 CF32),
     (''dq_limit'', CArr 6 CF32),
     (''current_limit_norm'', CArr 6 CF32),
     (''enabled_mask'', CU8),
     (''seq'', CU16)]"

definition EmergencyStopPacket :: cty where
  "EmergencyStopPacket = CStruct [
     (''dummy'', CU8)]"

definition GripperCommandPacket :: cty where
  "GripperCommandPacket = CStruct [
     (''q'', CF32),
     (''dq'', CF32),
     (''tau'', CF32),
     (''kp'', CF32),
     (''kd'', CF32),
     (''dt_us'', CU32),
     (''seq'', CU16),
     (''control_mode'', CU8)]"

definition GetMotorFeedbackCommand :: cty where
  "GetMotorFeedbackCommand = CStruct [
     (''dummy'', CU8)]"

definition GetMotorFeedbackResponse :: cty where
  "GetMotorFeedbackResponse = CStruct [
     (''motors'', MotorFeedbackArray)]"

definition GetMotorFeedbackRequestPacket :: cty where
  "GetMotorFeedbackRequestPacket = CStruct [
     (''tx_id'', TransactionId),
     (''payload'', GetMotorFeedbackCommand)]"

definition GetMotorFeedbackResponsePacket :: cty where
  "GetMotorFeedbackResponsePacket = CStruct [
     (''tx_id'', TransactionId),
     (''payload'', GetMotorFeedbackResponse)]"

lemmas layout_defs =
  JointStatus_def
  GripperStatus_def
  ArmStatus_def
  MotorFeedback_def
  MotorFeedbackArray_def
  SetMitLimitCommand_def
  SetMotorStateCommand_def
  SetMotorControlModeCommand_def
  SetZeroCommand_def
  ClearErrorCommand_def
  HomeAllCommand_def
  RunCalibrationCommand_def
  ClearFaultsCommand_def
  SetSafetyCommand_def
  SdkClientConnectedCommand_def
  SdkClientDisconnectedCommand_def
  HomeDoneCommand_def
  SetMitLimitResponse_def
  SetMotorStateResponse_def
  SetMotorControlModeResponse_def
  SetZeroResponse_def
  ClearErrorResponse_def
  HomeAllResponse_def
  RunCalibrationResponse_def
  ClearFaultsResponse_def
  SetSafetyResponse_def
  SdkClientNotifyResponse_def
  HomeDoneResponse_def
  AckPacket_def
  SetMitLimitRequestPacket_def
  SetMotorStateRequestPacket_def
  SetMotorControlModeRequestPacket_def
  SetZeroRequestPacket_def
  ClearErrorRequestPacket_def
  HomeAllRequestPacket_def
  RunCalibrationRequestPacket_def
  ClearFaultsRequestPacket_def
  SetSafetyRequestPacket_def
  SdkClientConnectedRequestPacket_def
  SdkClientDisconnectedRequestPacket_def
  HomeDoneRequestPacket_def
  SetMitLimitResponsePacket_def
  SetMotorStateResponsePacket_def
  SetMotorControlModeResponsePacket_def
  SetZeroResponsePacket_def
  ClearErrorResponsePacket_def
  HomeAllResponsePacket_def
  RunCalibrationResponsePacket_def
  ClearFaultsResponsePacket_def
  SetSafetyResponsePacket_def
  SdkClientConnectedResponsePacket_def
  SdkClientDisconnectedResponsePacket_def
  HomeDoneResponsePacket_def
  UsbSessionStartCommand_def
  UsbSessionStopCommand_def
  UsbSessionStartResponse_def
  UsbSessionStopResponse_def
  UsbSessionStartRequestPacket_def
  UsbSessionStartResponsePacket_def
  UsbSessionStopRequestPacket_def
  UsbSessionStopResponsePacket_def
  JointCommandPacket_def
  JointPosVelCommandPacket_def
  JointVelocityCommandPacket_def
  JointHybridCommandPacket_def
  EmergencyStopPacket_def
  GripperCommandPacket_def
  GetMotorFeedbackCommand_def
  GetMotorFeedbackResponse_def
  GetMotorFeedbackRequestPacket_def
  GetMotorFeedbackResponsePacket_def
  ArmMode_type_def
  SetMitLimitStatus_type_def
  MotorStateValue_type_def
  SetMotorStateStatus_type_def
  MotorControlMode_type_def
  SetMotorControlModeStatus_type_def
  SetZeroStatus_type_def
  ClearErrorStatus_type_def
  HomeAllStatus_type_def
  CalibrationType_type_def
  RunCalibrationStatus_type_def
  ClearFaultsStatus_type_def
  CollisionSensitivity_type_def
  SetSafetyStatus_type_def
  SdkClientNotifyStatus_type_def
  HomeDoneStatus_type_def
  UsbSessionStartStatus_type_def
  UsbSessionStopStatus_type_def

section \<open>Traits\<close>

definition PacketTraits_ArmStatus :: packet_traits where
  "PacketTraits_ArmStatus = (PacketTraitsBase ArmStatus 0x6001 (sizeof ArmStatus))\<lparr>pt_after_parse := True, pt_skip_memory_pool := True\<rparr>"

definition PacketTraits_MotorFeedbackArray :: packet_traits where
  "PacketTraits_MotorFeedbackArray = (PacketTraitsBase MotorFeedbackArray 0x6002 (sizeof MotorFeedbackArray))\<lparr>pt_after_parse := True, pt_skip_memory_pool := True\<rparr>"

definition PacketTraits_GripperStatus :: packet_traits where
  "PacketTraits_GripperStatus = (PacketTraitsBase GripperStatus 0x6003 (sizeof GripperStatus))\<lparr>pt_after_parse := True, pt_skip_memory_pool := True\<rparr>"

definition PacketTraits_AckPacket :: packet_traits where
  "PacketTraits_AckPacket = (PacketTraitsBase AckPacket 0x6FF0 (sizeof AckPacket))\<lparr>pt_after_parse := True, pt_skip_memory_pool := True\<rparr>"

definition PacketTraits_SetMitLimitRequestPacket :: packet_traits where
  "PacketTraits_SetMitLimitRequestPacket = (PacketTraitsBase SetMitLimitRequestPacket 0x6103 (sizeof SetMitLimitRequestPacket))\<lparr>pt_after_parse := True, pt_skip_memory_pool := True\<rparr>"

definition PacketTraits_SetMitLimitResponsePacket :: packet_traits where
  "PacketTraits_SetMitLimitResponsePacket = (PacketTraitsBase SetMitLimitResponsePacket 0x6104 (sizeof SetMitLimitResponsePacket))\<lparr>pt_after_parse := True, pt_skip_memory_pool := True\<rparr>"

definition PacketTraits_SetMotorStateRequestPacket :: packet_traits where
  "PacketTraits_SetMotorStateRequestPacket = (PacketTraitsBase SetMotorStateRequestPacket 0x6105 (sizeof SetMotorStateRequestPacket))\<lparr>pt_after_parse := True, pt_skip_memory_pool := True\<rparr>"

definition PacketTraits_SetMotorStateResponsePacket :: packet_traits where
  "PacketTraits_SetMotorStateResponsePacket = (PacketTraitsBase SetMotorStateResponsePacket 0x6106 (sizeof SetMotorStateResponsePacket))\<lparr>pt_after_parse := True, pt_skip_memory_pool := True\<rparr>"

definition PacketTraits_SetMotorControlModeRequestPacket :: packet_traits where
  "PacketTraits_SetMotorControlModeRequestPacket = (PacketTraitsBase SetMotorControlModeRequestPacket 0x6215 (sizeof SetMotorControlModeRequestPacket))\<lparr>pt_after_parse := True, pt_skip_memory_pool := True\<rparr>"

definition PacketTraits_SetMotorControlModeResponsePacket :: packet_traits where
  "PacketTraits_SetMotorControlModeResponsePacket = (PacketTraitsBase SetMotorControlModeResponsePacket 0x6216 (sizeof SetMotorControlModeResponsePacket))\<lparr>pt_after_parse := True, pt_skip_memory_pool := True\<rparr>"

definition PacketTraits_SetZeroRequestPacket :: packet_traits where
  "PacketTraits_SetZeroRequestPacket = (PacketTraitsBase SetZeroRequestPacket 0x6107 (sizeof SetZeroRequestPacket))\<lparr>pt_after_parse := True, pt_skip_memory_pool := True\<rparr>"

definition PacketTraits_SetZeroResponsePacket :: packet_traits where
  "PacketTraits_SetZeroResponsePacket = (PacketTraitsBase SetZeroResponsePacket 0x6108 (sizeof SetZeroResponsePacket))\<lparr>pt_after_parse := True, pt_skip_memory_pool := True\<rparr>"

definition PacketTraits_ClearErrorRequestPacket :: packet_traits where
  "PacketTraits_ClearErrorRequestPacket = (PacketTraitsBase ClearErrorRequestPacket 0x6109 (sizeof ClearErrorRequestPacket))\<lparr>pt_after_parse := True, pt_skip_memory_pool := True\<rparr>"

definition PacketTraits_ClearErrorResponsePacket :: packet_traits where
  "PacketTraits_ClearErrorResponsePacket = (PacketTraitsBase ClearErrorResponsePacket 0x610A (sizeof ClearErrorResponsePacket))\<lparr>pt_after_parse := True, pt_skip_memory_pool := True\<rparr>"

definition PacketTraits_HomeAllRequestPacket :: packet_traits where
  "PacketTraits_HomeAllRequestPacket = (PacketTraitsBase HomeAllRequestPacket 0x6201 (sizeof HomeAllRequestPacket))\<lparr>pt_after_parse := True, pt_skip_memory_pool := True\<rparr>"

definition PacketTraits_HomeAllResponsePacket :: packet_traits where
  "PacketTraits_HomeAllResponsePacket = (PacketTraitsBase HomeAllResponsePacket 0x6202 (sizeof HomeAllResponsePacket))\<lparr>pt_after_parse := True, pt_skip_memory_pool := True\<rparr>"

definition PacketTraits_RunCalibrationRequestPacket :: packet_traits where
  "PacketTraits_RunCalibrationRequestPacket = (PacketTraitsBase RunCalibrationRequestPacket 0x6203 (sizeof RunCalibrationRequestPacket))\<lparr>pt_after_parse := True, pt_skip_memory_pool := True\<rparr>"

definition PacketTraits_RunCalibrationResponsePacket :: packet_traits where
  "PacketTraits_RunCalibrationResponsePacket = (PacketTraitsBase RunCalibrationResponsePacket 0x6204 (sizeof RunCalibrationResponsePacket))\<lparr>pt_after_parse := True, pt_skip_memory_pool := True\<rparr>"

definition PacketTraits_ClearFaultsRequestPacket :: packet_traits where
  "PacketTraits_ClearFaultsRequestPacket = (PacketTraitsBase ClearFaultsRequestPacket 0x6205 (sizeof ClearFaultsRequestPacket))\<lparr>pt_after_parse := True, pt_skip_memory_pool := True\<rparr>"

definition PacketTraits_ClearFaultsResponsePacket :: packet_traits where
  "PacketTraits_ClearFaultsResponsePacket = (PacketTraitsBase ClearFaultsResponsePacket 0x6206 (sizeof ClearFaultsResponsePacket))\<lparr>pt_after_parse := True, pt_skip_memory_pool := True\<rparr>"

definition PacketTraits_SetSafetyRequestPacket :: packet_traits where
  "PacketTraits_SetSafetyRequestPacket = (PacketTraitsBase SetSafetyRequestPacket 0x6207 (sizeof SetSafetyRequestPacket))\<lparr>pt_after_parse := True, pt_skip_memory_pool := True\<rparr>"

definition PacketTraits_SetSafetyResponsePacket :: packet_traits where
  "PacketTraits_SetSafetyResponsePacket = (PacketTraitsBase SetSafetyResponsePacket 0x6208 (sizeof SetSafetyResponsePacket))\<lparr>pt_after_parse := True, pt_skip_memory_pool := True\<rparr>"

definition PacketTraits_SdkClientConnectedRequestPacket :: packet_traits where
  "PacketTraits_SdkClientConnectedRequestPacket = (PacketTraitsBase SdkClientConnectedRequestPacket 0x6209 (sizeof SdkClientConnectedRequestPacket))\<lparr>pt_after_parse := True, pt_skip_memory_pool := True\<rparr>"

definition PacketTraits_SdkClientConnectedResponsePacket :: packet_traits where
  "PacketTraits_SdkClientConnectedResponsePacket = (PacketTraitsBase SdkClientConnectedResponsePacket 0x620A (sizeof SdkClientConnectedResponsePacket))\<lparr>pt_after_parse := True, pt_skip_memory_pool := True\<rparr>"

definition PacketTraits_SdkClientDisconnectedRequestPacket :: packet_traits where
  "PacketTraits_SdkClientDisconnectedRequestPacket = (PacketTraitsBase SdkClientDisconnectedRequestPacket 0x620B (sizeof SdkClientDisconnectedRequestPacket))\<lparr>pt_after_parse := True, pt_skip_memory_pool := True\<rparr>"

definition PacketTraits_SdkClientDisconnectedResponsePacket :: packet_traits where
  "PacketTraits_SdkClientDisconnectedResponsePacket = (PacketTraitsBase SdkClientDisconnectedResponsePacket 0x620C (sizeof SdkClientDisconnectedResponsePacket))\<lparr>pt_after_parse := True, pt_skip_memory_pool := True\<rparr>"

definition PacketTraits_HomeDoneRequestPacket :: packet_traits where
  "PacketTraits_HomeDoneRequestPacket = (PacketTraitsBase HomeDoneRequestPacket 0x620D (sizeof HomeDoneRequestPacket))\<lparr>pt_after_parse := True, pt_skip_memory_pool := True\<rparr>"

definition PacketTraits_HomeDoneResponsePacket :: packet_traits where
  "PacketTraits_HomeDoneResponsePacket = (PacketTraitsBase HomeDoneResponsePacket 0x620E (sizeof HomeDoneResponsePacket))\<lparr>pt_after_parse := True, pt_skip_memory_pool := True\<rparr>"

definition PacketTraits_UsbSessionStartRequestPacket :: packet_traits where
  "PacketTraits_UsbSessionStartRequestPacket = (PacketTraitsBase UsbSessionStartRequestPacket 0x620F (sizeof UsbSessionStartRequestPacket))\<lparr>pt_after_parse := True, pt_skip_memory_pool := True\<rparr>"

definition PacketTraits_UsbSessionStartResponsePacket :: packet_traits where
  "PacketTraits_UsbSessionStartResponsePacket = (PacketTraitsBase UsbSessionStartResponsePacket 0x6210 (sizeof UsbSessionStartResponsePacket))\<lparr>pt_after_parse := True, pt_skip_memory_pool := True\<rparr>"

definition PacketTraits_UsbSessionStopRequestPacket :: packet_traits where
  "PacketTraits_UsbSessionStopRequestPacket = (PacketTraitsBase UsbSessionStopRequestPacket 0x6211 (sizeof UsbSessionStopRequestPacket))\<lparr>pt_after_parse := True, pt_skip_memory_pool := True\<rparr>"

definition PacketTraits_UsbSessionStopResponsePacket :: packet_traits where
  "PacketTraits_UsbSessionStopResponsePacket = (PacketTraitsBase UsbSessionStopResponsePacket 0x6212 (sizeof UsbSessionStopResponsePacket))\<lparr>pt_after_parse := True, pt_skip_memory_pool := True\<rparr>"

definition PacketTraits_JointCommandPacket :: packet_traits where
  "PacketTraits_JointCommandPacket = (PacketTraitsBase JointCommandPacket 0x6301 (sizeof JointCommandPacket))\<lparr>pt_after_parse := True, pt_skip_memory_pool := True\<rparr>"

definition PacketTraits_EmergencyStopPacket :: packet_traits where
  "PacketTraits_EmergencyStopPacket = (PacketTraitsBase EmergencyStopPacket 0x6303 (sizeof EmergencyStopPacket))\<lparr>pt_after_parse := True, pt_skip_memory_pool := True\<rparr>"

definition PacketTraits_GripperCommandPacket :: packet_traits where
  "PacketTraits_GripperCommandPacket = (PacketTraitsBase GripperCommandPacket 0x6305 (sizeof GripperCommandPacket))\<lparr>pt_after_parse := True, pt_skip_memory_pool := True\<rparr>"

definition PacketTraits_JointPosVelCommandPacket :: packet_traits where
  "PacketTraits_JointPosVelCommandPacket = (PacketTraitsBase JointPosVelCommandPacket 0x6306 (sizeof JointPosVelCommandPacket))\<lparr>pt_after_parse := True, pt_skip_memory_pool := True\<rparr>"

definition PacketTraits_JointVelocityCommandPacket :: packet_traits where
  "PacketTraits_JointVelocityCommandPacket = (PacketTraitsBase JointVelocityCommandPacket 0x6307 (sizeof JointVelocityCommandPacket))\<lparr>pt_after_parse := True, pt_skip_memory_pool := True\<rparr>"

definition PacketTraits_JointHybridCommandPacket :: packet_traits where
  "PacketTraits_JointHybridCommandPacket = (PacketTraitsBase JointHybridCommandPacket 0x6308 (sizeof JointHybridCommandPacket))\<lparr>pt_after_parse := True, pt_skip_memory_pool := True\<rparr>"

definition PacketTraits_GetMotorFeedbackRequestPacket :: packet_traits where
  "PacketTraits_GetMotorFeedbackRequestPacket = (PacketTraitsBase GetMotorFeedbackRequestPacket 0x6213 (sizeof GetMotorFeedbackRequestPacket))\<lparr>pt_after_parse := True, pt_skip_memory_pool := True\<rparr>"

definition PacketTraits_GetMotorFeedbackResponsePacket :: packet_traits where
  "PacketTraits_GetMotorFeedbackResponsePacket = (PacketTraitsBase GetMotorFeedbackResponsePacket 0x6214 (sizeof GetMotorFeedbackResponsePacket))\<lparr>pt_after_parse := True, pt_skip_memory_pool := True\<rparr>"

lemmas traits_defs =
  PacketTraits_ArmStatus_def
  PacketTraits_MotorFeedbackArray_def
  PacketTraits_GripperStatus_def
  PacketTraits_AckPacket_def
  PacketTraits_SetMitLimitRequestPacket_def
  PacketTraits_SetMitLimitResponsePacket_def
  PacketTraits_SetMotorStateRequestPacket_def
  PacketTraits_SetMotorStateResponsePacket_def
  PacketTraits_SetMotorControlModeRequestPacket_def
  PacketTraits_SetMotorControlModeResponsePacket_def
  PacketTraits_SetZeroRequestPacket_def
  PacketTraits_SetZeroResponsePacket_def
  PacketTraits_ClearErrorRequestPacket_def
  PacketTraits_ClearErrorResponsePacket_def
  PacketTraits_HomeAllRequestPacket_def
  PacketTraits_HomeAllResponsePacket_def
  PacketTraits_RunCalibrationRequestPacket_def
  PacketTraits_RunCalibrationResponsePacket_def
  PacketTraits_ClearFaultsRequestPacket_def
  PacketTraits_ClearFaultsResponsePacket_def
  PacketTraits_SetSafetyRequestPacket_def
  PacketTraits_SetSafetyResponsePacket_def
  PacketTraits_SdkClientConnectedRequestPacket_def
  PacketTraits_SdkClientConnectedResponsePacket_def
  PacketTraits_SdkClientDisconnectedRequestPacket_def
  PacketTraits_SdkClientDisconnectedResponsePacket_def
  PacketTraits_HomeDoneRequestPacket_def
  PacketTraits_HomeDoneResponsePacket_def
  PacketTraits_UsbSessionStartRequestPacket_def
  PacketTraits_UsbSessionStartResponsePacket_def
  PacketTraits_UsbSessionStopRequestPacket_def
  PacketTraits_UsbSessionStopResponsePacket_def
  PacketTraits_JointCommandPacket_def
  PacketTraits_EmergencyStopPacket_def
  PacketTraits_GripperCommandPacket_def
  PacketTraits_JointPosVelCommandPacket_def
  PacketTraits_JointVelocityCommandPacket_def
  PacketTraits_JointHybridCommandPacket_def
  PacketTraits_GetMotorFeedbackRequestPacket_def
  PacketTraits_GetMotorFeedbackResponsePacket_def

section \<open>The packets by area\<close>

text \<open>Firmware to host, unsolicited (\<open>0x6000\<close>).\<close>

definition telemetry_packets :: "packet_traits list" where
  "telemetry_packets = [
     PacketTraits_ArmStatus,
     PacketTraits_MotorFeedbackArray,
     PacketTraits_GripperStatus]"

text \<open>Reliable requests, in the order of their responses below.\<close>

definition request_packets :: "packet_traits list" where
  "request_packets = [
     PacketTraits_SetMitLimitRequestPacket,
     PacketTraits_SetMotorStateRequestPacket,
     PacketTraits_SetMotorControlModeRequestPacket,
     PacketTraits_SetZeroRequestPacket,
     PacketTraits_ClearErrorRequestPacket,
     PacketTraits_HomeAllRequestPacket,
     PacketTraits_RunCalibrationRequestPacket,
     PacketTraits_ClearFaultsRequestPacket,
     PacketTraits_SetSafetyRequestPacket,
     PacketTraits_SdkClientConnectedRequestPacket,
     PacketTraits_SdkClientDisconnectedRequestPacket,
     PacketTraits_HomeDoneRequestPacket,
     PacketTraits_UsbSessionStartRequestPacket,
     PacketTraits_UsbSessionStopRequestPacket,
     PacketTraits_GetMotorFeedbackRequestPacket]"

text \<open>Responses to the reliable requests.\<close>

definition response_packets :: "packet_traits list" where
  "response_packets = [
     PacketTraits_SetMitLimitResponsePacket,
     PacketTraits_SetMotorStateResponsePacket,
     PacketTraits_SetMotorControlModeResponsePacket,
     PacketTraits_SetZeroResponsePacket,
     PacketTraits_ClearErrorResponsePacket,
     PacketTraits_HomeAllResponsePacket,
     PacketTraits_RunCalibrationResponsePacket,
     PacketTraits_ClearFaultsResponsePacket,
     PacketTraits_SetSafetyResponsePacket,
     PacketTraits_SdkClientConnectedResponsePacket,
     PacketTraits_SdkClientDisconnectedResponsePacket,
     PacketTraits_HomeDoneResponsePacket,
     PacketTraits_UsbSessionStartResponsePacket,
     PacketTraits_UsbSessionStopResponsePacket,
     PacketTraits_GetMotorFeedbackResponsePacket]"

text \<open>Host to firmware, fire-and-forget (\<open>0x6300\<close>).\<close>

definition realtime_packets :: "packet_traits list" where
  "realtime_packets = [
     PacketTraits_JointCommandPacket,
     PacketTraits_EmergencyStopPacket,
     PacketTraits_GripperCommandPacket,
     PacketTraits_JointPosVelCommandPacket,
     PacketTraits_JointVelocityCommandPacket,
     PacketTraits_JointHybridCommandPacket]"

definition arm_packets :: "packet_traits list" where
  "arm_packets = PacketTraits_AckPacket # telemetry_packets @ request_packets @ response_packets @ realtime_packets"

lemmas packet_list_defs =
  arm_packets_def telemetry_packets_def request_packets_def response_packets_def realtime_packets_def

end
