(* ===== verification/Protocol_Stack.thy ===== *)
theory Protocol_Stack
  imports Parser_Stream Isr_Ring Session_Spec Arm_Packets
begin

text \<open>
  \<open>ProtocolStack<Clock, PacketTypes...>\<close> and \<open>ProtocolDispatch\<close>. The stack is split into the parser, the
  receive ring, and the \<open>core\<close> (session, serializer, transmit queue, handlers), because the callbacks
  that run while the parser is parsing act on the core only. User code is a parameter: handlers and
  session callbacks are identifiers that \<open>stack_env\<close> interprets as functions on the core, so they may
  send, answer and register. A reading of the clock takes the next value of a stream.
\<close>

section \<open>State\<close>

record TxEntry =
  te_frame :: bytes
  te_telemetry :: bool

record ('r, 'e, 'h, 'u) core =
  c_session :: "('r, 'e) session"
  c_sequence :: u8
  c_tx_queue :: "TxEntry list"
  c_handlers :: "u16 \<rightharpoonup> 'h option"
  c_bound :: bool
  c_clock :: "nat \<Rightarrow> int"
  c_ticks :: nat
  c_user :: 'u

record ('r, 'e, 'h, 'u, 'w) stack =
  st_parser :: "unit parser"
  st_rx_ring :: "'w isr_ring"
  st_core :: "('r, 'e, 'h, 'u) core"

text \<open>
  The parameters: the packet list, what the handlers and callbacks do, the iteration order of the hash
  map of pending requests, and \<open>m_send_frame\<close> (\<open>None\<close> when not set).
\<close>

record ('r, 'e, 'h, 'u) stack_env =
  e_packets :: "packet_traits list"
  run_handler :: "'h \<Rightarrow> u16 \<Rightarrow> u32 \<Rightarrow> bytes \<Rightarrow> ('r, 'e, 'h, 'u) core \<Rightarrow> ('r, 'e, 'h, 'u) core"
  run_callback :: "('r, 'e) callback \<Rightarrow> ('r, 'e, 'h, 'u) core \<Rightarrow> ('r, 'e, 'h, 'u) core"
  pending_order :: "('r, 'e) session \<Rightarrow> u32 list"
  send_frame :: "(bytes \<Rightarrow> 'u \<Rightarrow> bool \<times> 'u) option"

definition ACK_CMD :: u16 where "ACK_CMD = 0x6FF0"

definition MAX_FRAME_SIZE :: nat where "MAX_FRAME_SIZE = 512"

definition TX_QUEUE_CAP :: nat where "TX_QUEUE_CAP = 16"

definition core_init :: "session_config \<Rightarrow> (nat \<Rightarrow> int) \<Rightarrow> 'u \<Rightarrow> ('r, 'e, 'h, 'u) core" where
  "core_init config clock u =
     \<lparr>c_session = session_init config, c_sequence = 0, c_tx_queue = [], c_handlers = Map.empty,
      c_bound = True, c_clock = clock, c_ticks = 0, c_user = u\<rparr>"

definition stack_init ::
  "packet_traits list \<Rightarrow> session_config \<Rightarrow> (nat \<Rightarrow> int) \<Rightarrow> 'u \<Rightarrow> ('r, 'e, 'h, 'u, 'w::len word) stack" where
  "stack_init Ts config clock u =
     \<lparr>st_parser = parser_init Ts (), st_rx_ring = isr_init 4096, st_core = core_init config clock u\<rparr>"

definition bind_to_current_thread :: "('r, 'e, 'h, 'u) core \<Rightarrow> ('r, 'e, 'h, 'u) core" where
  "bind_to_current_thread c = c\<lparr>c_bound := True\<rparr>"

text \<open>The destructor of the bound stack, or another stack binding itself to the thread.\<close>

definition unbind :: "('r, 'e, 'h, 'u) core \<Rightarrow> ('r, 'e, 'h, 'u) core" where
  "unbind c = c\<lparr>c_bound := False\<rparr>"

definition clock_now :: "('r, 'e, 'h, 'u) core \<Rightarrow> int \<times> ('r, 'e, 'h, 'u) core" where
  "clock_now c = (c_clock c (c_ticks c), c\<lparr>c_ticks := c_ticks c + 1\<rparr>)"

definition register_handler :: "u16 \<Rightarrow> 'h option \<Rightarrow> ('r, 'e, 'h, 'u) core \<Rightarrow> ('r, 'e, 'h, 'u) core" where
  "register_handler cmd_id handler c = c\<lparr>c_handlers := (c_handlers c)(cmd_id \<mapsto> handler)\<rparr>"

section \<open>Serialization and the transmit queue\<close>

definition serialize_packet_to_frame ::
  "packet_traits \<Rightarrow> bytes \<Rightarrow> ('r, 'e, 'h, 'u) core \<Rightarrow> bytes option \<times> ('r, 'e, 'h, 'u) core" where
  "serialize_packet_to_frame T packet c =
     (case serialize [(T, packet)] (replicate MAX_FRAME_SIZE 0) (c_sequence c) of
        (Inr frame_len, buf, seq) \<Rightarrow> (Some (take frame_len buf), c\<lparr>c_sequence := seq\<rparr>)
      | (Inl _, _, seq) \<Rightarrow> (None, c\<lparr>c_sequence := seq\<rparr>))"

definition is_telemetry_cmd :: "u16 \<Rightarrow> bool" where
  "is_telemetry_cmd cmd_id \<longleftrightarrow> cmd_id \<ge> 0x6000 \<and> cmd_id \<le> 0x60FF"

definition is_telemetry_frame :: "bytes \<Rightarrow> bool" where
  "is_telemetry_frame frame \<longleftrightarrow>
     (if length frame < 7 then False
      else is_telemetry_cmd (ucast (frame ! 5) OR push_bit 8 (ucast (frame ! 6))))"

text \<open>\<open>drop_one_telemetry\<close>: the queue without its first telemetry entry; \<open>None\<close> is \<open>false\<close>.\<close>

fun drop_one_telemetry :: "TxEntry list \<Rightarrow> TxEntry list option" where
  "drop_one_telemetry [] = None"
| "drop_one_telemetry (e # q) =
     (if te_telemetry e then Some q else map_option (\<lambda>q. e # q) (drop_one_telemetry q))"

definition try_serialize_raw ::
  "packet_traits \<Rightarrow> u16 \<Rightarrow> bytes \<Rightarrow> ('r, 'e, 'h, 'u) core \<Rightarrow> bytes option \<times> ('r, 'e, 'h, 'u) core" where
  "try_serialize_raw T cmd_id raw c =
     (if cmd_id \<noteq> pt_cmd T then (None, c)
      else if length raw \<noteq> sizeof (pt_type T) then (None, c)
      else serialize_packet_to_frame T raw c)"

fun serialize_raw_to_frame ::
  "packet_traits list \<Rightarrow> u16 \<Rightarrow> bytes \<Rightarrow> ('r, 'e, 'h, 'u) core \<Rightarrow> bytes option \<times> ('r, 'e, 'h, 'u) core" where
  "serialize_raw_to_frame [] cmd_id raw c = (None, c)"
| "serialize_raw_to_frame (T # Ts) cmd_id raw c =
     (case try_serialize_raw T cmd_id raw c of
        (Some frame, c) \<Rightarrow> (Some frame, c)
      | (None, c) \<Rightarrow> serialize_raw_to_frame Ts cmd_id raw c)"

definition enqueue_pending_frame ::
  "packet_traits list \<Rightarrow> u16 \<Rightarrow> bytes \<Rightarrow> ('r, 'e, 'h, 'u) core \<Rightarrow> bool \<times> ('r, 'e, 'h, 'u) core" where
  "enqueue_pending_frame Ts cmd_id raw c =
     (case (if length (c_tx_queue c) \<ge> TX_QUEUE_CAP then drop_one_telemetry (c_tx_queue c) else Some (c_tx_queue c)) of
        None \<Rightarrow> (False, c)
      | Some q \<Rightarrow>
          let c = c\<lparr>c_tx_queue := q\<rparr>
          in case serialize_raw_to_frame Ts cmd_id raw c of
               (None, c) \<Rightarrow> (False, c)
             | (Some frame, c) \<Rightarrow>
                 (True, c\<lparr>c_tx_queue := c_tx_queue c @
                    [\<lparr>te_frame = frame, te_telemetry = is_telemetry_cmd cmd_id\<rparr>]\<rparr>))"

definition enqueue_prebuilt_frame ::
  "bytes \<Rightarrow> bool \<Rightarrow> ('r, 'e, 'h, 'u) core \<Rightarrow> bool \<times> ('r, 'e, 'h, 'u) core" where
  "enqueue_prebuilt_frame frame priority c =
     (if length frame > MAX_FRAME_SIZE then (False, c)
      else
        let telemetry = is_telemetry_frame frame; q = c_tx_queue c
        in if length q \<ge> TX_QUEUE_CAP \<and> \<not> (priority \<or> telemetry) then (False, c)
           else
             let q = (if length q \<ge> TX_QUEUE_CAP
                      then (case drop_one_telemetry q of Some q \<Rightarrow> q | None \<Rightarrow> butlast q) else q)
             in (True, c\<lparr>c_tx_queue := q @ [\<lparr>te_frame = frame, te_telemetry = telemetry\<rparr>]\<rparr>))"

definition drain_tx :: "('r, 'e, 'h, 'u) stack_env \<Rightarrow> ('r, 'e, 'h, 'u) core \<Rightarrow> ('r, 'e, 'h, 'u) core" where
  "drain_tx env c =
     (case (send_frame env, c_tx_queue c) of
        (Some send, entry # q) \<Rightarrow>
          let (ok, u) = send (te_frame entry) (c_user c)
          in if ok then c\<lparr>c_tx_queue := q, c_user := u\<rparr> else c\<lparr>c_user := u\<rparr>
      | _ \<Rightarrow> c)"

section \<open>Requests and responses\<close>

definition is_request_cmd :: "u16 \<Rightarrow> bool" where
  "is_request_cmd cmd_id \<longleftrightarrow> (cmd_id AND 1) = 1 \<or> cmd_id \<ge> 0x6300 \<and> cmd_id < 0x6400"

fun extract_tx_id_from_raw :: "packet_traits list \<Rightarrow> u16 \<Rightarrow> bytes \<Rightarrow> u32" where
  "extract_tx_id_from_raw [] cmd_id data = 0"
| "extract_tx_id_from_raw (T # Ts) cmd_id data =
     (if cmd_id \<noteq> pt_cmd T then extract_tx_id_from_raw Ts cmd_id data
      else if length data \<noteq> sizeof (pt_type T) then extract_tx_id_from_raw Ts cmd_id data
      else if has_tx_id (pt_type T) then read_tx_id (pt_type T) data
      else 0)"

definition handle_ack_packet :: "bytes \<Rightarrow> ('r, 'e, 'h, 'u) core \<Rightarrow> ('r, 'e, 'h, 'u) core" where
  "handle_ack_packet data c =
     (if length data \<noteq> sizeof AckPacket then c
      else
        let tx_id = read_tx_id AckPacket data; (now, c) = clock_now c
        in c\<lparr>c_session := on_ack tx_id now (c_session c)\<rparr>)"

text \<open>
  The handler is looked up and called in place. A handler that registers another one may make the map move its
  elements, and so the function that is running; this is not modelled: its result is that of the call.
\<close>

definition call_handler ::
  "('r, 'e, 'h, 'u) stack_env \<Rightarrow> u16 \<Rightarrow> u32 \<Rightarrow> bytes \<Rightarrow> ('r, 'e, 'h, 'u) core \<Rightarrow> ('r, 'e, 'h, 'u) core" where
  "call_handler env cmd_id tx_id data c =
     (case c_handlers c cmd_id of
        Some (Some h) \<Rightarrow> run_handler env h cmd_id tx_id data c
      | _ \<Rightarrow> c)"

definition ack_bytes :: "u32 \<Rightarrow> u16 \<Rightarrow> bytes" where
  "ack_bytes tx_id cmd_id = to_bytes AckPacket (VStruct [VU32 tx_id, VU16 cmd_id, VU8 0])"

definition enqueue_ack :: "u32 \<Rightarrow> u16 \<Rightarrow> ('r, 'e, 'h, 'u) core \<Rightarrow> ('r, 'e, 'h, 'u) core" where
  "enqueue_ack tx_id cmd_id c =
     (case serialize_packet_to_frame PacketTraits_AckPacket (ack_bytes tx_id cmd_id) c of
        (Some ack_frame, c) \<Rightarrow> snd (enqueue_prebuilt_frame ack_frame True c)
      | (None, c) \<Rightarrow> c)"

definition handle_request_packet ::
  "('r, 'e, 'h, 'u) stack_env \<Rightarrow> u16 \<Rightarrow> bytes \<Rightarrow> ('r, 'e, 'h, 'u) core \<Rightarrow> ('r, 'e, 'h, 'u) core" where
  "handle_request_packet env cmd_id data c =
     (let tx_id = extract_tx_id_from_raw (e_packets env) cmd_id data
      in if \<not> cmd_id < 0x6300 then call_handler env cmd_id tx_id data c
         else if tx_id = 0 then
           if cmd_id \<ge> 0x6000 \<and> cmd_id < 0x6100 then call_handler env cmd_id tx_id data c else c
         else
           let (result, session) = on_request cmd_id tx_id (c_session c);
               c = enqueue_ack tx_id cmd_id (c\<lparr>c_session := session\<rparr>)
           in if is_duplicate result then
                case cached_response result of
                  Some r \<Rightarrow>
                    if length (cr_response_bytes r) > 0 then snd (enqueue_prebuilt_frame (cr_response_bytes r) True c)
                    else c
                | None \<Rightarrow> c
              else call_handler env cmd_id tx_id data c)"

definition handle_response_packet ::
  "('r, 'e, 'h, 'u) stack_env \<Rightarrow> u16 \<Rightarrow> bytes \<Rightarrow> ('r, 'e, 'h, 'u) core \<Rightarrow> ('r, 'e, 'h, 'u) core" where
  "handle_response_packet env cmd_id data c =
     (let tx_id = extract_tx_id_from_raw (e_packets env) cmd_id data
      in if tx_id = 0 then c
         else
           let (cbs, session) = on_response cmd_id tx_id data (c_session c)
           in fold (run_callback env) cbs (c\<lparr>c_session := session\<rparr>))"

definition handle_packet_internal ::
  "('r, 'e, 'h, 'u) stack_env \<Rightarrow> u16 \<Rightarrow> bytes \<Rightarrow> ('r, 'e, 'h, 'u) core \<Rightarrow> ('r, 'e, 'h, 'u) core" where
  "handle_packet_internal env cmd_id data c =
     (if cmd_id = ACK_CMD then handle_ack_packet data c
      else if is_request_cmd cmd_id then handle_request_packet env cmd_id data c
      else handle_response_packet env cmd_id data c)"

text \<open>\<open>detail::dispatch_after_parse\<close> through the thread-local \<open>ProtocolDispatch::on_packet()\<close>.\<close>

definition dispatch_after_parse ::
  "('r, 'e, 'h, 'u) stack_env \<Rightarrow> packet_traits \<Rightarrow> bytes \<Rightarrow> ('r, 'e, 'h, 'u) core \<Rightarrow> ('r, 'e, 'h, 'u) core" where
  "dispatch_after_parse env T pkt c =
     (if c_bound c then handle_packet_internal env (pt_cmd T) pkt c else c)"

section \<open>Sending\<close>

text \<open>\<open>RequestPacket request{}; request.tx_id = ...; request.payload = ...\<close>\<close>

definition request_bytes :: "cty \<Rightarrow> u32 \<Rightarrow> bytes \<Rightarrow> bytes" where
  "request_bytes t tx_id payload =
     (let put = (\<lambda>f bs m. case member_at f 0 (struct_fields t) of None \<Rightarrow> m | Some (off, _) \<Rightarrow> mem_write m off bs)
      in put ''payload'' payload (put ''tx_id'' (le_bytes 4 tx_id) (replicate (sizeof t) 0)))"

definition send ::
  "packet_traits \<Rightarrow> packet_traits \<Rightarrow> bytes \<Rightarrow> 'r option \<Rightarrow> 'e option \<Rightarrow> int \<Rightarrow> u8
     \<Rightarrow> ('r, 'e, 'h, 'u) core \<Rightarrow> u32 \<times> ('r, 'e, 'h, 'u) core" where
  "send Req Rsp payload on_resp on_err timeout max_retries c =
     (let (now, c) = clock_now c;
          (tx_id, session) = session_send (pt_cmd Req) (pt_cmd Rsp) (\<lambda>tx_id. request_bytes (pt_type Req) tx_id payload)
             on_resp on_err timeout max_retries now (c_session c)
      in (tx_id, c\<lparr>c_session := session\<rparr>))"

definition send_response_and_cache ::
  "packet_traits \<Rightarrow> packet_traits \<Rightarrow> u32 \<Rightarrow> bytes \<Rightarrow> ('r, 'e, 'h, 'u) core \<Rightarrow> bool \<times> ('r, 'e, 'h, 'u) core" where
  "send_response_and_cache Req Rsp tx_id response c =
     (case serialize_packet_to_frame Rsp response c of
        (None, c) \<Rightarrow> (False, c)
      | (Some frame, c) \<Rightarrow>
          (case enqueue_prebuilt_frame frame True c of
             (False, c) \<Rightarrow> (False, c)
           | (True, c) \<Rightarrow>
               (True, c\<lparr>c_session := cache_response (pt_cmd Req) tx_id (pt_cmd Rsp) frame (c_session c)\<rparr>)))"

definition broadcast :: "packet_traits \<Rightarrow> bytes \<Rightarrow> ('r, 'e, 'h, 'u) core \<Rightarrow> bool \<times> ('r, 'e, 'h, 'u) core" where
  "broadcast T packet c =
     (case serialize_packet_to_frame T packet c of
        (None, c) \<Rightarrow> (False, c)
      | (Some frame, c) \<Rightarrow> enqueue_prebuilt_frame frame False c)"

section \<open>The cycle\<close>

function handle_session_outbound ::
  "('r, 'e, 'h, 'u) stack_env \<Rightarrow> ('r, 'e, 'h, 'u) core \<Rightarrow> ('r, 'e, 'h, 'u) core" where
  "handle_session_outbound env c =
     (let (now, c) = clock_now c
      in case next_outbound now (c_session c) of
           (None, session) \<Rightarrow> c\<lparr>c_session := session\<rparr>
         | (Some entry, session) \<Rightarrow>
             (case enqueue_pending_frame (e_packets env) (re_request_cmd entry) (re_request_bytes entry)
                     (c\<lparr>c_session := session\<rparr>) of
                (True, c) \<Rightarrow> handle_session_outbound env c
              | (False, c) \<Rightarrow> c))"
  by pat_completeness auto

text \<open>Every turn of the loop takes an id off the session's queue.\<close>

lemma serialize_raw_to_frame_session: "c_session (snd (serialize_raw_to_frame Ts cmd raw c)) = c_session c"
proof (induction Ts cmd raw c rule: serialize_raw_to_frame.induct)
  case (2 T Ts cmd_id raw c)
  have "c_session (snd (try_serialize_raw T cmd_id raw c)) = c_session c"
    by (auto simp: try_serialize_raw_def serialize_packet_to_frame_def split: prod.split sum.split)
  then show ?case using 2 by (auto split: prod.split option.split)
qed simp

lemma enqueue_pending_frame_session: "c_session (snd (enqueue_pending_frame Ts cmd raw c)) = c_session c"
proof -
  have c: "c_session c' = c_session c" if "serialize_raw_to_frame Ts cmd raw (c\<lparr>c_tx_queue := q\<rparr>) = (r, c')" for q r c'
    using serialize_raw_to_frame_session [of Ts cmd raw "c\<lparr>c_tx_queue := q\<rparr>"] by (simp add: that)
  have c0: "c_session c' = c_session c" if "serialize_raw_to_frame Ts cmd raw c = (r, c')" for r c'
    using c [of "c_tx_queue c"] that by simp
  show ?thesis unfolding enqueue_pending_frame_def Let_def
    by (auto split: prod.split option.split dest!: c c0)
qed

lemma next_outbound_queue:
  "next_outbound now s = (Some e, s') \<Longrightarrow> length (m_outbound_queue s') < length (m_outbound_queue s)"
  by (rule next_outbound_loop_cases [of now "m_outbound_queue s" s]) (auto simp: next_outbound_def suffix_def)

termination handle_session_outbound
proof (relation "measure (\<lambda>(env, c). length (m_outbound_queue (c_session c)))", goal_cases)
  case (2 env c x now ca re session entry ok cb)
  have "c_session (snd (ok, cb)) = session"
    unfolding 2(5) by (simp add: enqueue_pending_frame_session)
  moreover have "c_session ca = c_session c" using 2(1,2) by (simp add: clock_now_def)
  ultimately show ?case using next_outbound_queue [of now "c_session c" entry session] 2(3,4) by simp
qed simp

declare handle_session_outbound.simps [simp del]

text \<open>
  What \<open>poll\<close> returns points into the hash map of pending requests. A \<open>send\<close> in one of its error callbacks
  inserts into the map, which moves its elements when it has to grow and promises nothing about pointers after
  an insertion: reading through them is then a fault of the model. \<open>send\<close> is the only insertion, and it always
  changes the next id.
\<close>

definition handle_session_retries ::
  "('r, 'e, 'h, 'u) stack_env \<Rightarrow> ('r, 'e, 'h, 'u) core \<Rightarrow> fault + ('r, 'e, 'h, 'u) core" where
  "handle_session_retries env c =
     (let ks = pending_order env (c_session c);
          nows = (\<lambda>k. c_clock c (c_ticks c + 1 + length (takeWhile (\<lambda>j. j \<noteq> k) ks)));
          (retries, cbs, session) = poll (c_clock c (c_ticks c)) nows ks (c_session c);
          c = c\<lparr>c_session := session, c_ticks := c_ticks c + 1 + length ks\<rparr>;
          c = fold (run_callback env) cbs c
      in if retries \<noteq> [] \<and> m_next_tx_id (c_session c) \<noteq> m_next_tx_id session then Inl Dangling_Read
         else Inr (fold (\<lambda>r c. snd (enqueue_pending_frame (e_packets env) (re_request_cmd r) (re_request_bytes r) c))
                retries c))"

definition isr_feed :: "bytes \<Rightarrow> ('r, 'e, 'h, 'u, 'w::len word) stack \<Rightarrow> ('r, 'e, 'h, 'u, 'w word) stack" where
  "isr_feed data st = st\<lparr>st_rx_ring := snd (isr_write data (st_rx_ring st))\<rparr>"

text \<open>The error of \<open>push_data\<close> is ignored, as the cast to \<open>void\<close> does.\<close>

partial_function (option) drain_rx ::
  "(unit, ('r, 'e, 'h, 'u) core) parser_config \<Rightarrow> ('r, 'e, 'h, 'u, 'w::len word) stack
     \<Rightarrow> (fault + ('r, 'e, 'h, 'u, 'w word) stack) option" where
  "drain_rx cfg st =
     (let avail = isr_available (st_rx_ring st)
      in if avail = 0 then Some (Inr st)
         else
           let (buf, ring) = isr_read (if avail < 256 then avail else 256) (st_rx_ring st)
           in if buf = [] then Some (Inr (st\<lparr>st_rx_ring := ring\<rparr>))
              else case push_data cfg buf (st_parser st) (st_core st) of
                     None \<Rightarrow> None
                   | Some (Inl f) \<Rightarrow> Some (Inl f)
                   | Some (Inr (res, p, c)) \<Rightarrow>
                       drain_rx cfg (st\<lparr>st_rx_ring := ring, st_parser := p, st_core := c\<rparr>))"

definition run_one_cycle ::
  "(unit, ('r, 'e, 'h, 'u) core) parser_config \<Rightarrow> ('r, 'e, 'h, 'u) stack_env
     \<Rightarrow> ('r, 'e, 'h, 'u, 'w::len word) stack \<Rightarrow> (fault + ('r, 'e, 'h, 'u, 'w word) stack) option" where
  "run_one_cycle cfg env st =
     (case drain_rx cfg st of
        None \<Rightarrow> None
      | Some (Inl f) \<Rightarrow> Some (Inl f)
      | Some (Inr st) \<Rightarrow>
          Some (map_sum id (\<lambda>c. st\<lparr>st_core := drain_tx env c\<rparr>)
            (handle_session_retries env (handle_session_outbound env (st_core st)))))"

definition stack_get_write_buffer :: "('r, 'e, 'h, 'u, 'w) stack \<Rightarrow> span" where
  "stack_get_write_buffer st = parser_get_write_buffer (st_parser st)"

definition stack_advance_write_index ::
  "(unit, ('r, 'e, 'h, 'u) core) parser_config \<Rightarrow> nat \<Rightarrow> ('r, 'e, 'h, 'u, 'w) stack
     \<Rightarrow> (fault + (Error + unit) \<times> ('r, 'e, 'h, 'u, 'w) stack) option" where
  "stack_advance_write_index cfg len st =
     map_option (map_sum id (\<lambda>(res, p, c). (res, st\<lparr>st_parser := p, st_core := c\<rparr>)))
       (parser_advance_write_index cfg len (st_parser st) (st_core st))"

text \<open>The queries.\<close>

definition next_wake_time :: "('r, 'e, 'h, 'u) stack_env \<Rightarrow> ('r, 'e, 'h, 'u) core \<Rightarrow> int option" where
  "next_wake_time env c = next_deadline (pending_order env (c_session c)) (c_session c)"

definition rx_available :: "('r, 'e, 'h, 'u, 'w::len word) stack \<Rightarrow> nat" where
  "rx_available st = isr_available (st_rx_ring st)"

definition rx_dropped_writes :: "('r, 'e, 'h, 'u, 'w::len word) stack \<Rightarrow> 'w word" where
  "rx_dropped_writes st = isr_dropped_writes (st_rx_ring st)"

definition tx_queue_size :: "('r, 'e, 'h, 'u) core \<Rightarrow> nat" where
  "tx_queue_size c = length (c_tx_queue c)"

end
