(* ===== verification/Stack_Spec.thy ===== *)
theory Stack_Spec
  imports Protocol_Stack
begin

text \<open>
  The stack against what it promises: the transmit queue stays within its capacity whatever handlers do
  through the interface, receiving is the scan of the bytes fed, reliable requests are acknowledged and
  run once, and the frames of one stack are the packets of the other.
\<close>

section \<open>Frames of default packets\<close>

lemma serialize_packet_to_frame_default:
  assumes "pt_protocol T = DefaultProtocol" and "length packet = pt_size T" and "pt_size T + 9 \<le> MAX_FRAME_SIZE"
  shows "serialize_packet_to_frame T packet c =
    (Some (packet_frame (c_sequence c) (T, packet)), c\<lparr>c_sequence := c_sequence c + 1\<rparr>)"
proof -
  have p: "default_packet (T, packet)" using assms by (simp add: default_packet_def)
  have fs: "frame_size T \<le> MAX_FRAME_SIZE" using assms by (simp add: frame_size_def)
  have "serialize [(T, packet)] (replicate MAX_FRAME_SIZE 0) (c_sequence c) =
    (Inr (frame_size T), mem_write (replicate MAX_FRAME_SIZE 0) 0 (packet_frame (c_sequence c) (T, packet)), c_sequence c + 1)"
    using serialize_default [of "[(T, packet)]" "replicate MAX_FRAME_SIZE 0" "c_sequence c"] p fs by simp
  moreover have "take (frame_size T) (mem_write (replicate MAX_FRAME_SIZE 0) 0 (packet_frame (c_sequence c) (T, packet))) =
      packet_frame (c_sequence c) (T, packet)"
    using length_packet_frame [OF p, of "c_sequence c"] by (simp add: mem_write_def)
  ultimately show ?thesis by (simp add: serialize_packet_to_frame_def)
qed

section \<open>The transmit queue\<close>

abbreviation queue_ok :: "('r, 'e, 'h, 'u) core \<Rightarrow> bool" where
  "queue_ok c \<equiv> length (c_tx_queue c) \<le> TX_QUEUE_CAP"

lemma drop_one_telemetry_length: "drop_one_telemetry q = Some q' \<Longrightarrow> length q = Suc (length q')"
  by (induction q arbitrary: q') (auto split: if_splits)

lemma drop_one_telemetry_spec:
  "drop_one_telemetry q =
     (case dropWhile (\<lambda>e. \<not> te_telemetry e) q of
        [] \<Rightarrow> None
      | e # q' \<Rightarrow> Some (takeWhile (\<lambda>e. \<not> te_telemetry e) q @ q'))"
proof (induction q)
  case (Cons a q)
  then show ?case
    by (cases "te_telemetry a"; cases "dropWhile (\<lambda>e. \<not> te_telemetry e) q") (simp_all del: dropWhile_eq_Nil_conv)
qed simp

lemma drop_one_telemetry_keeps:
  "drop_one_telemetry q = Some q' \<Longrightarrow> filter (\<lambda>e. \<not> te_telemetry e) q' = filter (\<lambda>e. \<not> te_telemetry e) q"
  by (induction q arbitrary: q') (auto split: if_splits)

lemma drop_one_telemetry_None: "drop_one_telemetry q = None \<longleftrightarrow> (\<forall>e\<in>set q. \<not> te_telemetry e)"
  by (induction q) auto

lemma serialize_packet_to_frame_frame:
  "serialize_packet_to_frame T packet c = (fr, c') \<Longrightarrow>
     c_tx_queue c' = c_tx_queue c \<and> c_session c' = c_session c \<and> c_handlers c' = c_handlers c \<and> c_user c' = c_user c
       \<and> c_bound c' = c_bound c"
  by (auto simp: serialize_packet_to_frame_def split: prod.splits sum.splits)

lemma serialize_raw_to_frame_frame:
  "serialize_raw_to_frame Ts cmd raw c = (fr, c') \<Longrightarrow>
     c_tx_queue c' = c_tx_queue c \<and> c_session c' = c_session c \<and> c_handlers c' = c_handlers c \<and> c_user c' = c_user c
       \<and> c_bound c' = c_bound c"
proof (induction Ts cmd raw c rule: serialize_raw_to_frame.induct)
  case (2 T Ts cmd_id raw c)
  obtain fr1 c1 where t: "try_serialize_raw T cmd_id raw c = (fr1, c1)" by fastforce
  then have "c_tx_queue c1 = c_tx_queue c \<and> c_session c1 = c_session c \<and> c_handlers c1 = c_handlers c \<and> c_user c1 = c_user c
      \<and> c_bound c1 = c_bound c"
    by (auto simp: try_serialize_raw_def dest: serialize_packet_to_frame_frame split: if_splits)
  then show ?case using 2 t by (cases fr1) auto
qed simp

lemma enqueue_pending_frame_queue:
  assumes "queue_ok c" and "enqueue_pending_frame Ts cmd raw c = (ok, c')"
  shows "queue_ok c'"
proof -
  let ?sel = "if TX_QUEUE_CAP \<le> length (c_tx_queue c) then drop_one_telemetry (c_tx_queue c) else Some (c_tx_queue c)"
  show ?thesis
  proof (cases ?sel)
    case None
    then show ?thesis using assms by (auto simp: enqueue_pending_frame_def)
  next
    case (Some q)
    have q: "length q < TX_QUEUE_CAP"
      using Some assms(1) drop_one_telemetry_length [of "c_tx_queue c" q] by (auto split: if_splits)
    obtain fr c1 where s: "serialize_raw_to_frame Ts cmd raw (c\<lparr>c_tx_queue := q\<rparr>) = (fr, c1)" by fastforce
    then have "c_tx_queue c1 = q" using serialize_raw_to_frame_frame [OF s] by simp
    then show ?thesis using assms(2) Some q s
      by (cases fr) (auto simp: enqueue_pending_frame_def Let_def)
  qed
qed

lemma enqueue_prebuilt_frame_queue:
  "queue_ok c \<Longrightarrow> enqueue_prebuilt_frame frame priority c = (ok, c') \<Longrightarrow> queue_ok c'"
  using drop_one_telemetry_length [of "c_tx_queue c"]
  by (auto simp: enqueue_prebuilt_frame_def Let_def TX_QUEUE_CAP_def split: if_splits option.splits)

text \<open>The entry that makes room in a full queue: the first telemetry frame, or else the last entry.\<close>

lemma drop_one_telemetry_split:
  "te_telemetry t \<Longrightarrow> \<forall>x\<in>set xs. \<not> te_telemetry x \<Longrightarrow> drop_one_telemetry (xs @ t # ys) = Some (xs @ ys)"
  by (induction xs) simp_all

lemma enqueue_displaces:
  assumes "length frame \<le> MAX_FRAME_SIZE" and "TX_QUEUE_CAP \<le> length (c_tx_queue c)" and "priority \<or> is_telemetry_frame frame"
    and "drop_one_telemetry (c_tx_queue c) = Some q \<or> drop_one_telemetry (c_tx_queue c) = None \<and> q = butlast (c_tx_queue c)"
  shows "enqueue_prebuilt_frame frame priority c =
    (True, c\<lparr>c_tx_queue := q @ [\<lparr>te_frame = frame, te_telemetry = is_telemetry_frame frame\<rparr>]\<rparr>)"
  using assms by (auto simp: enqueue_prebuilt_frame_def Let_def)

text \<open>
  What a handler or a callback can do to the core of the stack: any sequence of calls of the functions that
  send, answer, broadcast, register handlers and change the next id, and anything to the application's own
  state. Left out are the other functions of \<open>session()\<close>, which gives the session away, and the receive side.
\<close>

inductive api_steps :: "('r, 'e, 'h, 'u) core \<Rightarrow> ('r, 'e, 'h, 'u) core \<Rightarrow> bool" where
  api_done: "api_steps c c"
| api_send: "api_steps c c' \<Longrightarrow> api_steps c (snd (send Req Rsp payload on_resp on_err timeout retries c'))"
| api_respond: "api_steps c c' \<Longrightarrow> api_steps c (snd (send_response_and_cache Req Rsp tx_id response c'))"
| api_broadcast: "api_steps c c' \<Longrightarrow> api_steps c (snd (broadcast T packet c'))"
| api_register: "api_steps c c' \<Longrightarrow> api_steps c (register_handler cmd h c')"
| api_renumber: "api_steps c c' \<Longrightarrow> api_steps c (c'\<lparr>c_session := set_next_tx_id k (c_session c')\<rparr>)"
| api_user: "api_steps c c' \<Longrightarrow> api_steps c (c'\<lparr>c_user := u\<rparr>)"

inductive_cases api_steps_elims: "api_steps c c'"

lemma send_response_and_cache_queue:
  "queue_ok c \<Longrightarrow> queue_ok (snd (send_response_and_cache Req Rsp tx_id response c))"
proof -
  assume ok: "queue_ok c"
  obtain fr c1 where s: "serialize_packet_to_frame Rsp response c = (fr, c1)" by fastforce
  have c1: "queue_ok c1" using serialize_packet_to_frame_frame [OF s] ok by simp
  show ?thesis
  proof (cases fr)
    case (Some frame)
    obtain b c2 where e: "enqueue_prebuilt_frame frame True c1 = (b, c2)" by fastforce
    then show ?thesis using enqueue_prebuilt_frame_queue [OF c1 e] s Some
      by (cases b) (simp_all add: send_response_and_cache_def)
  qed (use s c1 in \<open>simp add: send_response_and_cache_def\<close>)
qed

lemma broadcast_queue: "queue_ok c \<Longrightarrow> queue_ok (snd (broadcast T packet c))"
proof -
  assume ok: "queue_ok c"
  obtain fr c1 where s: "serialize_packet_to_frame T packet c = (fr, c1)" by fastforce
  have c1: "queue_ok c1" using serialize_packet_to_frame_frame [OF s] ok by simp
  show ?thesis
    using s c1 enqueue_prebuilt_frame_queue [OF c1]
    by (cases fr; cases "enqueue_prebuilt_frame (the fr) False c1") (auto simp: broadcast_def)
qed

lemma api_steps_queue: "api_steps c c' \<Longrightarrow> queue_ok c \<Longrightarrow> queue_ok c'"
  by (induction rule: api_steps.induct)
    (simp_all add: send_response_and_cache_queue broadcast_queue register_handler_def send_def clock_now_def
      Let_def split: prod.split)

definition env_uses_api :: "('r, 'e, 'h, 'u) stack_env \<Rightarrow> bool" where
  "env_uses_api env \<longleftrightarrow>
     (\<forall>h cmd tx data c. api_steps c (run_handler env h cmd tx data c)) \<and>
     (\<forall>cb c. api_steps c (run_callback env cb c))"

lemma env_uses_api_queue:
  assumes "env_uses_api env" and "queue_ok c"
  shows "queue_ok (run_handler env h cmd tx data c)" and "queue_ok (run_callback env cb c)"
proof -
  have "api_steps c (run_handler env h cmd tx data c)" and "api_steps c (run_callback env cb c)"
    using assms(1) by (simp_all add: env_uses_api_def)
  then show "queue_ok (run_handler env h cmd tx data c)" and "queue_ok (run_callback env cb c)"
    using assms(2) by (blast intro: api_steps_queue)+
qed

lemma enqueue_ack_queue: "queue_ok c \<Longrightarrow> queue_ok (enqueue_ack tx cmd c)"
proof -
  assume ok: "queue_ok c"
  obtain fr c1 where s: "serialize_packet_to_frame PacketTraits_AckPacket (ack_bytes tx cmd) c = (fr, c1)" by fastforce
  have c1: "queue_ok c1" using serialize_packet_to_frame_frame [OF s] ok by simp
  show ?thesis
    using s c1 enqueue_prebuilt_frame_queue [OF c1]
    by (cases fr; cases "enqueue_prebuilt_frame (the fr) True c1") (auto simp: enqueue_ack_def)
qed

lemma call_handler_queue: "env_uses_api env \<Longrightarrow> queue_ok c \<Longrightarrow> queue_ok (call_handler env cmd tx data c)"
  by (simp add: call_handler_def env_uses_api_queue split: option.split)

lemma fold_callbacks_queue: "env_uses_api env \<Longrightarrow> queue_ok c \<Longrightarrow> queue_ok (fold (run_callback env) cbs c)"
  by (induction cbs arbitrary: c) (simp_all add: env_uses_api_queue)

lemma resend_queue: "queue_ok c \<Longrightarrow> queue_ok (snd (enqueue_prebuilt_frame frame priority c))"
  using enqueue_prebuilt_frame_queue [of c frame priority] by (metis prod.collapse)

lemma queue_ok_branch:
  "queue_ok x \<Longrightarrow> queue_ok y \<Longrightarrow> queue_ok (if b then x else y)"
  "queue_ok x \<Longrightarrow> (\<And>r. queue_ok (f r)) \<Longrightarrow> queue_ok (case opt of None \<Rightarrow> x | Some r \<Rightarrow> f r)"
  by (cases b) (simp_all split: option.split)

lemma handle_request_queue:
  assumes "env_uses_api env" and "queue_ok c"
  shows "queue_ok (handle_request_packet env cmd data c)"
proof -
  let ?tx = "extract_tx_id_from_raw (e_packets env) cmd data"
  obtain result session where r: "on_request cmd ?tx (c_session c) = (result, session)" by fastforce
  have ack: "queue_ok (enqueue_ack ?tx cmd (c\<lparr>c_session := session\<rparr>))" by (rule enqueue_ack_queue) (simp add: assms(2))
  note known = call_handler_queue [OF assms(1) ack] call_handler_queue [OF assms] resend_queue [OF ack] ack assms(2)
  show ?thesis unfolding handle_request_packet_def Let_def r prod.case
    by (intro queue_ok_branch known)
qed

lemma handle_packet_queue:
  assumes "env_uses_api env" and "queue_ok c"
  shows "queue_ok (handle_packet_internal env cmd data c)"
proof -
  let ?tx = "extract_tx_id_from_raw (e_packets env) cmd data"
  obtain cbs session where r: "on_response cmd ?tx data (c_session c) = (cbs, session)" by fastforce
  obtain now c1 where n: "clock_now c = (now, c1)" by fastforce
  have "queue_ok c1" using n assms(2) by (auto simp: clock_now_def)
  then have "queue_ok (handle_ack_packet data c)"
    using assms(2) unfolding handle_ack_packet_def Let_def n prod.case by (intro queue_ok_branch) simp_all
  moreover have "queue_ok (handle_response_packet env cmd data c)"
    unfolding handle_response_packet_def Let_def r prod.case
    by (intro queue_ok_branch fold_callbacks_queue [OF assms(1)] assms(2)) (simp add: assms(2))
  ultimately show ?thesis using handle_request_queue [OF assms]
    unfolding handle_packet_internal_def by (intro queue_ok_branch)
qed

lemma handle_session_outbound_queue: "queue_ok c \<Longrightarrow> queue_ok (handle_session_outbound env c)"
proof (induction env c rule: handle_session_outbound.induct)
  case (1 env c)
  obtain now c1 where n: "clock_now c = (now, c1)" by fastforce
  obtain re session where o: "next_outbound now (c_session c1) = (re, session)" by fastforce
  have c1: "queue_ok (c1\<lparr>c_session := session\<rparr>)" using 1(2) n by (auto simp: clock_now_def)
  show ?case
  proof (cases re)
    case None
    then show ?thesis using c1 by (subst handle_session_outbound.simps) (simp add: n o)
  next
    case (Some e)
    obtain ok c2 where q: "enqueue_pending_frame (e_packets env) (re_request_cmd e) (re_request_bytes e) (c1\<lparr>c_session := session\<rparr>) = (ok, c2)"
      by fastforce
    have c2: "queue_ok c2" by (rule enqueue_pending_frame_queue [OF c1 q])
    then show ?thesis using 1(1) [OF n [symmetric] refl o [symmetric] Some q [symmetric]]
      by (subst handle_session_outbound.simps) (cases ok; simp add: n o Some q)
  qed
qed

lemma handle_session_retries_queue:
  assumes "env_uses_api env" and "queue_ok c"
    and "handle_session_retries env c = Inr c'"
  shows "queue_ok c'"
proof -
  have retry: "queue_ok (fold (\<lambda>r c. snd (enqueue_pending_frame (e_packets env) (re_request_cmd r) (re_request_bytes r) c)) rs c')"
    if "queue_ok c'" for rs c'
    using that
  proof (induction rs arbitrary: c')
    case (Cons r rs)
    obtain ok c1 where e: "enqueue_pending_frame (e_packets env) (re_request_cmd r) (re_request_bytes r) c' = (ok, c1)"
      by fastforce
    show ?case using Cons.IH [OF enqueue_pending_frame_queue [OF Cons.prems e]] by (simp add: e)
  qed simp
  have call: "queue_ok (fold (run_callback env) cbs (c\<lparr>c_session := session, c_ticks := t\<rparr>))" for cbs session t
    by (rule fold_callbacks_queue [OF assms(1)]) (simp add: assms(2))
  show ?thesis using assms(3) by (auto simp: handle_session_retries_def Let_def intro!: retry call split: prod.splits if_splits)
qed

lemma drain_tx_queue: "queue_ok c \<Longrightarrow> queue_ok (drain_tx env c)"
  by (auto simp: drain_tx_def Let_def split: option.split list.split prod.split)

end
