(* ===== verification/Stack_Stream.thy ===== *)
theory Stack_Stream
  imports Stack_Spec
begin

text \<open>
  The receive path of the stack end to end: bytes fed by the interrupt handler, in whatever pieces,
  reach \<open>handle_packet_internal\<close> as the packets that were sent; and how packets are classified and
  answered, on the packet list of the arm.
\<close>

section \<open>Draining the receive ring\<close>

lemma length_isr_contents [simp]: "length (isr_contents r) = isr_available r"
  by (simp add: isr_contents_def)

text \<open>
  Bytes reach the parser in pieces of at most 256. \<open>rx_fits N\<close>: no piece is longer than \<open>N\<close>, or there is only
  one, the parser's ring is empty and takes it.
\<close>

definition rx_fits :: "nat \<Rightarrow> ('r, 'e, 'h, 'u, 'w::len word) stack \<Rightarrow> bool" where
  "rx_fits N st \<longleftrightarrow>
     min 256 (isr_available (st_rx_ring st)) \<le> N \<or>
     bip_contents (buffer (st_parser st)) = [] \<and> isr_available (st_rx_ring st) \<le> min 256 (bip_size (buffer (st_parser st)))"

lemma drain_rx_scan:
  assumes "wf_config cfg" and "workers cfg \<noteq> []" and "parser_ready cfg N (st_parser st)"
    and "isr_inv (st_rx_ring st)" and "rx_fits N st" and "min 256 (isr_available (st_rx_ring st)) \<le> N \<or> r = []"
    and "scan (is_start cfg) (judge cfg) (bip_contents (buffer (st_parser st))) = ([], bip_contents (buffer (st_parser st)))"
    and "scan (is_start cfg) (judge cfg) (bip_contents (buffer (st_parser st)) @ isr_contents (st_rx_ring st)) = (evs, r)"
    and "list_all (conforming cfg) evs"
  shows "\<exists>b' ring'. drain_rx cfg st =
      Some (Inr (st\<lparr>st_rx_ring := ring', st_parser := fst (parsed cfg evs b' (st_parser st, st_core st)),
        st_core := snd (parsed cfg evs b' (st_parser st, st_core st))\<rparr>)) \<and>
    isr_inv ring' \<and> isr_contents ring' = [] \<and> rb_capacity ring' = rb_capacity (st_rx_ring st) \<and> bip_contents b' = r \<and>
    bip_size b' = bip_size (buffer (st_parser st)) \<and> parser_ready cfg N (fst (parsed cfg evs b' (st_parser st, st_core st)))"
  using assms(3-)
proof (induction "isr_available (st_rx_ring st)" arbitrary: st evs rule: less_induct)
  case less
  let ?scan = "scan (is_start cfg) (judge cfg)" and ?p = "st_parser st" and ?ring = "st_rx_ring st"
  show ?case
  proof (cases "isr_available ?ring = 0")
    case True
    then have "isr_contents ?ring = []" by (metis length_0_conv length_isr_contents)
    moreover have "drain_rx cfg st = Some (Inr st)" using True by (simp add: drain_rx.simps)
    ultimately show ?thesis using less.prems
      by (intro exI [of _ "buffer ?p"] exI [of _ ?ring]) (simp add: parsed_Nil)
  next
    case False
    let ?n = "if isr_available ?ring < 256 then isr_available ?ring else 256"
    obtain xs ring1 where rd: "isr_read ?n ?ring = (xs, ring1)" by fastforce
    from isr_read_contents [OF less.prems(2) rd]
    have ring1: "isr_inv ring1" and xs: "xs = take ?n (isr_contents ?ring)"
      and rest: "isr_contents ring1 = drop ?n (isr_contents ?ring)" and cap: "rb_capacity ring1 = rb_capacity ?ring" by auto
    have n: "0 < ?n" "?n \<le> 256" using False by auto
    have split: "isr_contents ?ring = xs @ isr_contents ring1" by (simp add: xs rest)
    have ne: "xs \<noteq> []" and lxs: "length xs = ?n" using n False by (auto simp: xs simp flip: length_greater_0_conv)
    have fewer: "isr_available ring1 < isr_available ?ring"
      using rest n(1) False by (metis length_drop length_isr_contents diff_less not_gr_zero)
    have whole: "isr_contents ring1 = []" "isr_available ring1 = 0" "r = []" "bip_contents (buffer ?p) = []"
      "length xs \<le> bip_size (buffer ?p)" if "\<not> ?n \<le> N"
    proof -
      have big: "\<not> min 256 (isr_available ?ring) \<le> N" using that by (auto simp: min_def split: if_splits)
      then have "isr_available ?ring \<le> 256" "length xs \<le> bip_size (buffer ?p)" "bip_contents (buffer ?p) = []" "r = []"
        using less.prems(3,4) lxs by (auto simp: rx_fits_def)
      then show "isr_contents ring1 = []" "r = []" "bip_contents (buffer ?p) = []" "length xs \<le> bip_size (buffer ?p)"
        by (auto simp: rest)
      then show "isr_available ring1 = 0" by (metis length_isr_contents list.size(3))
    qed
    have small1: "min 256 (isr_available ring1) \<le> N"
      using fewer whole(2) by (cases "?n \<le> N") (simp_all add: min_def split: if_splits)
    then have fits1: "rx_fits N (st\<lparr>st_rx_ring := ring1, st_parser := p1, st_core := c1\<rparr>)" for p1 c1
      by (simp add: rx_fits_def)
    obtain es1 r1 where s1: "?scan (bip_contents (buffer ?p) @ xs) = (es1, r1)" by fastforce
    obtain es2 r2 where s2: "?scan (r1 @ isr_contents ring1) = (es2, r2)" by fastforce
    have evs: "evs = es1 @ es2" "r2 = r"
      using less.prems(6) fs.scan_append [OF s1, of "isr_contents ring1"] s2 by (simp_all add: split)
    have len: "length xs \<le> N \<or> bip_contents (buffer ?p) = [] \<and> length xs \<le> bip_size (buffer ?p) \<and> r1 = []"
    proof (cases "?n \<le> N")
      case False
      then have "r1 = r" using s1 less.prems(6) whole(1) by (simp add: split)
      then show ?thesis using whole(3-5) False by simp
    qed (simp add: lxs)
    obtain b1 where push: "push_data cfg xs ?p (st_core st) = Some (Inr (Inr (), parsed cfg es1 b1 (?p, st_core st)))"
      and b1: "bip_contents b1 = r1" "bip_size b1 = bip_size (buffer ?p)"
      and ready: "parser_ready cfg N (fst (parsed cfg es1 b1 (?p, st_core st)))"
      using push_data_ready [OF assms(1,2) less.prems(1) len s1] less.prems(7) evs by auto
    obtain p1 c1 where pc: "parsed cfg es1 b1 (?p, st_core st) = (p1, c1)" by (rule prod.exhaust)
    have bp1: "bip_contents (buffer p1) = r1" "bip_size (buffer p1) = bip_size (buffer ?p)"
      using b1 pc parsed_buffer [of cfg es1 b1 "(?p, st_core st)"] by simp_all
    let ?st = "st\<lparr>st_rx_ring := ring1, st_parser := p1, st_core := c1\<rparr>"
    have step: "drain_rx cfg st = drain_rx cfg ?st"
      using False rd ne push pc by (subst drain_rx.simps) (simp add: Let_def)
    obtain b2 ring2 where d: "drain_rx cfg ?st = Some (Inr (?st\<lparr>st_rx_ring := ring2,
        st_parser := fst (parsed cfg es2 b2 (p1, c1)), st_core := snd (parsed cfg es2 b2 (p1, c1))\<rparr>))"
      and "isr_inv ring2" "isr_contents ring2 = []" "rb_capacity ring2 = rb_capacity ring1" "bip_contents b2 = r"
      and "bip_size b2 = bip_size (buffer p1)"
      and "parser_ready cfg N (fst (parsed cfg es2 b2 (p1, c1)))"
      using less.hyps [of ?st es2] fewer ready pc ring1 bp1 fs.scan_rest [OF s1] s2 evs less.prems(7) fits1 small1 by auto
    moreover have "parsed cfg es2 b2 (p1, c1) = parsed cfg evs b2 (?p, st_core st)"
      using parsed_parsed [of cfg es2 b2 es1 b1 ?p "st_core st"] pc by (simp add: evs)
    ultimately show ?thesis using step cap bp1(2) by auto
  qed
qed

section \<open>Packets that were sent are the packets handled\<close>

text \<open>Every packet of the list is handed to \<open>dispatch_after_parse\<close> and none is stored in the pool.\<close>

definition dispatched :: "packet_traits list \<Rightarrow> bool" where
  "dispatched Ts \<longleftrightarrow> list_all (\<lambda>T. pt_after_parse T \<and> pt_skip_memory_pool T) Ts"

lemma deliver_dispatched:
  assumes "default_packets Ts" and "dispatched Ts" and "T \<in> set Ts"
  shows "deliver (default_config Ts ap mon) (pt_cmd T, packet) (d, s) = (d, ap T packet s)"
proof -
  have "distinct (map pt_cmd Ts)" using assms(1) by (simp add: default_packets_def)
  then obtain i where i: "get_type_index_by_cmd Ts (pt_cmd T) = Some i" "Ts ! i = T"
    using get_type_index_nth assms(3) by blast
  have "pt_after_parse T" "pt_skip_memory_pool T" using assms(2,3) by (simp_all add: dispatched_def list_all_iff)
  then show ?thesis by (simp add: deliver_def i Let_def)
qed

lemma fold_deliver_sent:
  assumes "default_packets Ts" and "dispatched Ts" and "sent_ok Ts ms"
  shows "fold (deliver (default_config Ts ap mon)) (sent_events ms) (d, s) =
    (d, fold (\<lambda>(noise, seq, T, packet). ap T packet) ms s)"
  using assms(3)
proof (induction ms arbitrary: s)
  case (Cons m ms)
  obtain noise seq T packet where m: "m = (noise, seq, T, packet)" by (cases m)
  then have "T \<in> set Ts" "sent_ok Ts ms" using Cons.prems by (auto simp: sent_ok_def)
  then show ?case using Cons.IH
    by (simp add: sent_events_def m deliver_dispatched [OF assms(1,2)])
qed (simp add: sent_events_def)

text \<open>The parser of a stack.\<close>

definition stack_config :: "('r, 'e, 'h, 'u) stack_env \<Rightarrow> (unit, ('r, 'e, 'h, 'u) core) parser_config" where
  "stack_config env = default_config (e_packets env) (dispatch_after_parse env) id"

lemma stack_config_of:
  "default_packets (e_packets env) \<Longrightarrow>
     parser_config_of (e_packets env) (dispatch_after_parse env) id = Some (stack_config env)"
  by (simp add: parser_config_of_default stack_config_def)

definition stack_ready :: "('r, 'e, 'h, 'u) stack_env \<Rightarrow> nat \<Rightarrow> ('r, 'e, 'h, 'u, 'w::len word) stack \<Rightarrow> bool" where
  "stack_ready env N st \<longleftrightarrow>
     default_packets (e_packets env) \<and> dispatched (e_packets env) \<and>
     parser_ready (stack_config env) N (st_parser st) \<and> bip_contents (buffer (st_parser st)) = [] \<and>
     bip_size (buffer (st_parser st)) = calculate_buffer_size (e_packets env) \<and>
     isr_inv (st_rx_ring st) \<and> rb_capacity (st_rx_ring st) = 4096"

lemma drain_rx_sent:
  assumes ready: "stack_ready env N st" and sent: "sent_ok (e_packets env) ms"
    and ring: "isr_contents (st_rx_ring st) = sent_bytes ms" and fits: "rx_fits N st"
  shows "\<exists>st'. drain_rx (stack_config env) st = Some (Inr st') \<and> stack_ready env N st' \<and>
    isr_contents (st_rx_ring st') = [] \<and>
    st_core st' = fold (\<lambda>(noise, seq, T, packet). dispatch_after_parse env T packet) ms (st_core st)"
proof -
  let ?cfg = "stack_config env" and ?Ts = "e_packets env"
  have d: "default_packets ?Ts" "dispatched ?Ts" using ready by (simp_all add: stack_ready_def)
  have empty: "bip_contents (buffer (st_parser st)) = []" using ready by (simp add: stack_ready_def)
  have "scan (is_start ?cfg) (judge ?cfg) (sent_bytes ms) = (sent_events ms, [])"
    and "list_all (conforming ?cfg) (sent_events ms)"
    using default_scan [OF d(1) sent] sent_conforming [OF d(1) sent] by (simp_all add: stack_config_def)
  then obtain b' ring' where dr: "drain_rx ?cfg st =
      Some (Inr (st\<lparr>st_rx_ring := ring', st_parser := fst (parsed ?cfg (sent_events ms) b' (st_parser st, st_core st)),
        st_core := snd (parsed ?cfg (sent_events ms) b' (st_parser st, st_core st))\<rparr>))"
    and r: "isr_inv ring'" "isr_contents ring' = []" "rb_capacity ring' = 4096" "bip_contents b' = []"
      "bip_size b' = calculate_buffer_size ?Ts"
      "parser_ready ?cfg N (fst (parsed ?cfg (sent_events ms) b' (st_parser st, st_core st)))"
    using drain_rx_scan [of ?cfg N st "[]" "sent_events ms"] wf_default_config [OF d(1)] ready ring empty fits
    by (auto simp: stack_config_def stack_ready_def)
  have "snd (parsed ?cfg (sent_events ms) b' (st_parser st, st_core st)) =
      fold (\<lambda>(noise, seq, T, packet). dispatch_after_parse env T packet) ms (st_core st)"
    by (simp add: parsed_def stack_config_def fold_deliver_sent [OF d sent])
  then show ?thesis using dr r d by (auto simp: stack_ready_def)
qed

section \<open>One cycle on what was received\<close>

definition stack_idle :: "('r, 'e, 'h, 'u) stack_env \<Rightarrow> nat \<Rightarrow> ('r, 'e, 'h, 'u, 'w::len word) stack \<Rightarrow> bool" where
  "stack_idle env N st \<longleftrightarrow> stack_ready env N st \<and> isr_contents (st_rx_ring st) = []"

lemma isr_feed_idle:
  assumes "stack_idle env N st" and "length data \<le> N \<or> length data \<le> min 256 (calculate_buffer_size (e_packets env))"
    and "N \<le> 4096"
  shows "stack_ready env N (isr_feed data st) \<and> isr_contents (st_rx_ring (isr_feed data st)) = data \<and>
    rx_fits N (isr_feed data st) \<and> st_core (isr_feed data st) = st_core st"
proof -
  let ?r = "st_rx_ring st"
  have inv: "isr_inv ?r" and cap: "rb_capacity ?r = 4096" and e: "isr_contents ?r = []"
    and p: "bip_contents (buffer (st_parser st)) = []" "bip_size (buffer (st_parser st)) = calculate_buffer_size (e_packets env)"
    using assms(1) by (simp_all add: stack_idle_def stack_ready_def)
  obtain ok r' where w: "isr_write data ?r = (ok, r')" by fastforce
  have "isr_available ?r = 0" using e by (metis length_isr_contents list.size(3))
  then have "length data \<le> rb_capacity ?r - isr_available ?r" using assms(2,3) cap by auto
  from isr_write_accepted [OF inv this w] have r': "isr_inv r'" "isr_contents r' = data" "rb_capacity r' = 4096"
    by (simp_all add: e cap)
  then have "isr_available r' = length data" by (metis length_isr_contents)
  then show ?thesis using assms(1,2) r' w p
    by (auto simp: isr_feed_def stack_idle_def stack_ready_def rx_fits_def)
qed

lemma sent_bytes_Nil [simp]: "sent_bytes [] = []"
  by (simp add: sent_bytes_def)

text \<open>The packets \<open>ms\<close> have come in and the next cycle will handle them.\<close>

definition received ::
  "('r, 'e, 'h, 'u) stack_env \<Rightarrow> nat \<Rightarrow> sent list \<Rightarrow> ('r, 'e, 'h, 'u, 'w::len word) stack \<Rightarrow> bool" where
  "received env N ms st \<longleftrightarrow>
     stack_ready env N st \<and> sent_ok (e_packets env) ms \<and> isr_contents (st_rx_ring st) = sent_bytes ms \<and> rx_fits N st"

lemma received_feed:
  assumes "stack_idle env N st" and "sent_ok (e_packets env) ms"
    and "length (sent_bytes ms) \<le> N \<or> length (sent_bytes ms) \<le> min 256 (calculate_buffer_size (e_packets env))" and "N \<le> 4096"
  shows "received env N ms (isr_feed (sent_bytes ms) st)" and "st_core (isr_feed (sent_bytes ms) st) = st_core st"
  using isr_feed_idle [OF assms(1,3,4)] assms(2) by (simp_all add: received_def)

lemma cycle_received:
  assumes "received env N ms st"
    and "handle_session_retries env (handle_session_outbound env
      (fold (\<lambda>(noise, seq, T, packet). dispatch_after_parse env T packet) ms (st_core st))) = Inr c"
  shows "\<exists>st'. run_one_cycle (stack_config env) env st = Some (Inr st') \<and> stack_idle env N st' \<and> st_core st' = drain_tx env c"
proof -
  obtain st1 where d: "drain_rx (stack_config env) st = Some (Inr st1)"
    and r: "stack_ready env N st1" "isr_contents (st_rx_ring st1) = []"
    and core: "st_core st1 = fold (\<lambda>(noise, seq, T, packet). dispatch_after_parse env T packet) ms (st_core st)"
    using drain_rx_sent [of env N st ms] assms(1) by (auto simp: received_def)
  show ?thesis using d r assms(2)
    by (simp add: run_one_cycle_def stack_idle_def stack_ready_def flip: core)
qed

lemma stack_idle_core [simp]: "stack_idle env N (st\<lparr>st_core := c\<rparr>) = stack_idle env N st"
  by (simp add: stack_idle_def stack_ready_def)

lemma received_nothing: "stack_idle env N st \<Longrightarrow> received env N [] st"
proof -
  assume idle: "stack_idle env N st"
  then have "isr_available (st_rx_ring st) = 0" unfolding stack_idle_def by (metis length_isr_contents list.size(3))
  with idle show ?thesis by (simp add: received_def stack_idle_def sent_ok_def rx_fits_def)
qed

text \<open>No retries while nothing is due.\<close>

lemma poll_loop_idle:
  "(\<And>k p. k \<in> set ks \<Longrightarrow> m_pending_by_tx s k = Some p \<Longrightarrow> \<not> entry_expired now p) \<Longrightarrow> poll_loop now nows ks s = ([], [], s)"
proof (induction ks)
  case (Cons k ks)
  have "poll_loop now nows ks s = ([], [], s)" by (rule Cons.IH) (use Cons.prems in auto)
  moreover have "\<not> pe_inflight p \<or> now < pe_deadline p" if "m_pending_by_tx s k = Some p" for p
    using Cons.prems [OF _ that] by auto
  ultimately show ?case by (auto split: option.split)
qed simp

lemma handle_session_retries_idle:
  assumes "\<And>k p. m_pending_by_tx (c_session c) k = Some p \<Longrightarrow> \<not> entry_expired (c_clock c (c_ticks c)) p"
  shows "handle_session_retries env c = Inr (c\<lparr>c_ticks := c_ticks c + 1 + length (pending_order env (c_session c))\<rparr>)"
  using assms by (simp add: handle_session_retries_def poll_def poll_loop_idle Let_def)

end
