(* ===== verification/Transaction.thy ===== *)
theory Transaction
  imports Stack_Stream
begin

text \<open>
  The two directions of a reliable request on any default packet list: what \<open>send\<close> puts on the wire, what
  the device does with it, once, and what the response does at the host.
\<close>

section \<open>Packets that carry a transaction id\<close>

definition tx_packet :: "packet_traits \<Rightarrow> bool" where
  "tx_packet T \<longleftrightarrow> (\<exists>t. pt_type T = CStruct [(''tx_id'', CU32), (''payload'', t)])"

lemma tx_packet_has_tx_id [simp]: "tx_packet T \<Longrightarrow> has_tx_id (pt_type T)"
  by (auto simp: tx_packet_def has_tx_id_def)

lemma tx_packet_read: "tx_packet T \<Longrightarrow> read_tx_id (pt_type T) (le_bytes 4 tx @ payload) = tx"
  by (auto simp: tx_packet_def read_tx_id_def mem_read_def le_val_le_bytes)

lemma tx_packet_request:
  assumes "tx_packet T" and "4 + length payload = sizeof (pt_type T)"
  shows "request_bytes (pt_type T) tx payload = le_bytes 4 tx @ payload"
proof -
  obtain t where t: "pt_type T = CStruct [(''tx_id'', CU32), (''payload'', t)]" using assms(1) by (auto simp: tx_packet_def)
  then show ?thesis using assms(2) by (simp add: request_bytes_def Let_def mem_write_def)
qed

lemma extract_tx_id_nth:
  assumes "distinct (map pt_cmd Ts)" and "T \<in> set Ts" and "length data = sizeof (pt_type T)" and "has_tx_id (pt_type T)"
  shows "extract_tx_id_from_raw Ts (pt_cmd T) data = read_tx_id (pt_type T) data"
  using assms(1,2)
proof (induction Ts)
  case (Cons A Ts)
  then show ?case using assms(3,4) by (cases "A = T") (auto simp: image_iff)
qed simp

section \<open>What a request puts on the wire\<close>

lemma serialize_raw_to_frame_nth:
  assumes "distinct (map pt_cmd Ts)" and "T \<in> set Ts" and "pt_protocol T = DefaultProtocol"
    and "sizeof (pt_type T) = pt_size T" and "length raw = pt_size T" and "frame_size T \<le> MAX_FRAME_SIZE"
  shows "serialize_raw_to_frame Ts (pt_cmd T) raw c =
    (Some (packet_frame (c_sequence c) (T, raw)), c\<lparr>c_sequence := c_sequence c + 1\<rparr>)"
  using assms(1,2)
proof (induction Ts)
  case (Cons A Ts)
  have "pt_size T + 9 \<le> MAX_FRAME_SIZE" using assms(3,6) by (simp add: frame_size_def)
  note ser = serialize_packet_to_frame_default [OF assms(3,5) this, of c]
  show ?case
  proof (cases "A = T")
    case True
    then show ?thesis using ser assms(4,5) by (simp add: try_serialize_raw_def)
  next
    case False
    then show ?thesis using Cons by (auto simp: try_serialize_raw_def image_iff)
  qed
qed simp

lemma enqueue_pending_frame_default:
  assumes "distinct (map pt_cmd Ts)" and "T \<in> set Ts" and "pt_protocol T = DefaultProtocol"
    and "sizeof (pt_type T) = pt_size T" and "length raw = pt_size T" and "frame_size T \<le> MAX_FRAME_SIZE"
    and "length (c_tx_queue c) < TX_QUEUE_CAP"
  shows "enqueue_pending_frame Ts (pt_cmd T) raw c =
    (True, c\<lparr>c_sequence := c_sequence c + 1, c_tx_queue := c_tx_queue c @
       [\<lparr>te_frame = packet_frame (c_sequence c) (T, raw), te_telemetry = is_telemetry_cmd (pt_cmd T)\<rparr>]\<rparr>)"
  using assms(7) by (simp add: enqueue_pending_frame_def serialize_raw_to_frame_nth [OF assms(1-6)] Let_def)

text \<open>A packet list the stack can carry: the default protocol, and every frame within its buffers.\<close>

definition stack_packets :: "packet_traits list \<Rightarrow> bool" where
  "stack_packets Ts \<longleftrightarrow> default_packets Ts \<and>
     list_all (\<lambda>T. frame_size T \<le> MAX_FRAME_SIZE \<and> pt_size T \<le> MAX_PACKET_SIZE) Ts"

lemma stack_packetsD:
  assumes "stack_packets Ts" and "T \<in> set Ts"
  shows "distinct (map pt_cmd Ts)" and "pt_protocol T = DefaultProtocol" and "sizeof (pt_type T) = pt_size T"
    and "frame_size T \<le> MAX_FRAME_SIZE" and "pt_size T \<le> MAX_PACKET_SIZE" and "0 < pt_size T"
  using assms by (auto simp: stack_packets_def default_packets_def list_all_iff)

text \<open>A session with nothing waiting and room in the window transmits a new request at once.\<close>

definition inflight_request ::
  "u32 \<Rightarrow> u16 \<Rightarrow> u16 \<Rightarrow> bytes \<Rightarrow> 'r option \<Rightarrow> 'e option \<Rightarrow> int \<Rightarrow> u8 \<Rightarrow> int \<Rightarrow> ('r, 'e) PendingEntry" where
  "inflight_request tx cmd rcmd raw on_resp on_err timeout retries deadline =
     \<lparr>pe_tx_id = tx, pe_request_cmd = cmd, pe_response_cmd = rcmd, pe_request_bytes = raw,
      pe_on_response = on_resp, pe_on_error = on_err, pe_timeout = timeout, pe_max_retries = retries,
      pe_retry_count = 0, pe_inflight = True, pe_deadline = deadline\<rparr>"

lemma inflight_request_simps [simp]:
  "pe_inflight (inflight_request tx cmd rcmd raw on_resp on_err timeout retries d)"
  "pe_response_cmd (inflight_request tx cmd rcmd raw on_resp on_err timeout retries d) = rcmd"
  "pe_on_response (inflight_request tx cmd rcmd raw on_resp on_err timeout retries d) = on_resp"
  "pe_timeout (inflight_request tx cmd rcmd raw on_resp on_err timeout retries d) = timeout"
  "pe_deadline (inflight_request tx cmd rcmd raw on_resp on_err timeout retries d) = d"
  by (simp_all add: inflight_request_def)

lemma next_outbound_registered:
  assumes "m_outbound_queue s = []" and "m_inflight_count s < window_size (m_config s)"
    and "length request \<le> MAX_PACKET_SIZE"
  shows "next_outbound now (register_pending tx cmd rcmd request on_resp on_err timeout retries t0 s) =
    (Some \<lparr>re_tx_id = tx, re_request_cmd = cmd, re_request_bytes = request\<rparr>,
     s\<lparr>m_inflight_count := m_inflight_count s + 1, m_outbound_queue := [],
       m_pending_by_tx := (m_pending_by_tx s)(tx \<mapsto>
         inflight_request tx cmd rcmd request on_resp on_err timeout retries (now + timeout))\<rparr>)"
  using assms by (simp add: next_outbound_def register_pending_def retransmit_entry_def inflight_request_def Let_def)

lemma next_outbound_idle: "m_outbound_queue s = [] \<Longrightarrow> next_outbound now s = (None, s)"
  by (simp add: next_outbound_def)

lemma handle_session_outbound_idle:
  "m_outbound_queue (c_session c) = [] \<Longrightarrow> handle_session_outbound env c = c\<lparr>c_ticks := c_ticks c + 1\<rparr>"
  by (subst handle_session_outbound.simps) (simp add: clock_now_def next_outbound_idle)

lemma handle_session_outbound_one:
  assumes "next_outbound (c_clock c (c_ticks c)) (c_session c) = (Some e, s)" and "m_outbound_queue s = []"
    and "enqueue_pending_frame (e_packets env) (re_request_cmd e) (re_request_bytes e)
      (c\<lparr>c_ticks := c_ticks c + 1, c_session := s\<rparr>) = (True, c')"
  shows "handle_session_outbound env c = c'\<lparr>c_ticks := c_ticks c' + 1\<rparr>"
proof -
  have "c_session c' = s"
    using arg_cong [OF assms(3), of "\<lambda>x. c_session (snd x)"] by (simp add: enqueue_pending_frame_session)
  then have "handle_session_outbound env c' = c'\<lparr>c_ticks := c_ticks c' + 1\<rparr>"
    using assms(2) by (intro handle_session_outbound_idle) simp
  moreover have "handle_session_outbound env c = handle_session_outbound env c'"
    using assms(1,3) by (subst handle_session_outbound.simps) (simp add: clock_now_def)
  ultimately show ?thesis by simp
qed

lemma send_transmits:
  assumes Ts: "stack_packets (e_packets env)" and Req: "Req \<in> set (e_packets env)" and tx: "tx_packet Req"
    and len: "4 + length payload = pt_size Req"
    and idle: "m_outbound_queue (c_session c) = []" and room: "m_inflight_count (c_session c) < window_size (m_config (c_session c))"
    and queue: "length (c_tx_queue c) < TX_QUEUE_CAP"
    and s: "send Req Rsp payload on_resp on_err timeout retries c = (k, c1)"
  shows "k = m_next_tx_id (c_session c) \<and>
    handle_session_outbound env c1 = c\<lparr>c_ticks := c_ticks c + 3, c_sequence := c_sequence c + 1,
      c_tx_queue := c_tx_queue c @ [\<lparr>te_frame = packet_frame (c_sequence c) (Req, le_bytes 4 k @ payload),
        te_telemetry = is_telemetry_cmd (pt_cmd Req)\<rparr>],
      c_session := (c_session c)\<lparr>m_next_tx_id := k + 1, m_inflight_count := m_inflight_count (c_session c) + 1,
        m_pending_by_tx := (m_pending_by_tx (c_session c))(k \<mapsto> inflight_request k (pt_cmd Req) (pt_cmd Rsp)
          (le_bytes 4 k @ payload) on_resp on_err timeout retries (c_clock c (c_ticks c + 1) + timeout))\<rparr>\<rparr>"
proof -
  note D = stack_packetsD [OF Ts Req]
  let ?s = "c_session c" and ?k = "m_next_tx_id (c_session c)"
  let ?raw = "le_bytes 4 ?k @ payload"
  have raw: "request_bytes (pt_type Req) ?k payload = ?raw" using tx_packet_request [OF tx] len D(3) by simp
  have l: "length ?raw = pt_size Req" "length ?raw \<le> MAX_PACKET_SIZE" using len D(5) by simp_all
  note enq = enqueue_pending_frame_default [OF D(1) Req D(2,3) l(1) D(4)]
  have k: "k = ?k" and c1: "c1 = c\<lparr>c_ticks := c_ticks c + 1, c_session := register_pending ?k (pt_cmd Req) (pt_cmd Rsp) ?raw
      on_resp on_err timeout retries (c_clock c (c_ticks c)) (?s\<lparr>m_next_tx_id := ?k + 1\<rparr>)\<rparr>"
    using s by (auto simp: send_def session_send_def next_tx_id_def clock_now_def Let_def raw)
  have o: "next_outbound (c_clock c1 (c_ticks c1)) (c_session c1) =
    (Some \<lparr>re_tx_id = k, re_request_cmd = pt_cmd Req, re_request_bytes = ?raw\<rparr>,
      ?s\<lparr>m_next_tx_id := k + 1, m_inflight_count := m_inflight_count ?s + 1, m_outbound_queue := [],
        m_pending_by_tx := (m_pending_by_tx ?s)(k \<mapsto> inflight_request k (pt_cmd Req) (pt_cmd Rsp)
          ?raw on_resp on_err timeout retries (c_clock c (c_ticks c + 1) + timeout))\<rparr>)"
    using next_outbound_registered [of "?s\<lparr>m_next_tx_id := ?k + 1\<rparr>"] idle room l by (simp add: c1 k)
  show ?thesis
    using handle_session_outbound_one [OF o, of env] k idle queue
    by (simp add: enq c1)
qed

section \<open>Frames in the transmit queue\<close>

lemma u16_from_bytes: "ucast (ucast w :: u8) OR push_bit 8 (ucast (ucast (drop_bit 8 w) :: u8)) = (w :: u16)"
  using le_val_le_bytes [of 2 w] by (simp add: le_bytes_2)

lemma is_telemetry_packet_frame:
  "is_telemetry_frame (packet_frame seq (T, packet)) = is_telemetry_cmd (pt_cmd T)"
proof -
  have "packet_frame seq (T, packet) ! 5 = ucast (pt_cmd T)"
    and "packet_frame seq (T, packet) ! 6 = ucast (drop_bit 8 (pt_cmd T))"
    by (simp_all add: packet_frame_def default_frame_def default_body_def Let_def nth_append le_bytes_2)
  then show ?thesis by (simp add: is_telemetry_frame_def packet_frame_def u16_from_bytes)
qed

text \<open>The queue entry of a packet.\<close>

definition entry :: "u8 \<Rightarrow> packet_traits \<Rightarrow> bytes \<Rightarrow> TxEntry" where
  "entry seq T packet = \<lparr>te_frame = packet_frame seq (T, packet), te_telemetry = is_telemetry_cmd (pt_cmd T)\<rparr>"

lemma te_frame_entry [simp]: "te_frame (entry seq T packet) = packet_frame seq (T, packet)"
  by (simp add: entry_def)

definition posted :: "packet_traits \<Rightarrow> bytes \<Rightarrow> ('r, 'e, 'h, 'u) core \<Rightarrow> ('r, 'e, 'h, 'u) core" where
  "posted T packet c =
     c\<lparr>c_sequence := c_sequence c + 1, c_tx_queue := c_tx_queue c @ [entry (c_sequence c) T packet]\<rparr>"

lemma posted_simps [simp]:
  "c_session (posted T packet c) = c_session c" "c_handlers (posted T packet c) = c_handlers c"
  "c_bound (posted T packet c) = c_bound c" "c_user (posted T packet c) = c_user c"
  "c_clock (posted T packet c) = c_clock c" "c_ticks (posted T packet c) = c_ticks c"
  "c_sequence (posted T packet c) = c_sequence c + 1"
  "c_tx_queue (posted T packet c) = c_tx_queue c @ [entry (c_sequence c) T packet]"
  by (simp_all add: posted_def)

definition fits_frame :: "packet_traits \<Rightarrow> bool" where
  "fits_frame T \<longleftrightarrow> pt_protocol T = DefaultProtocol \<and> pt_size T + 9 \<le> MAX_FRAME_SIZE"

lemma stack_packets_fits_frame: "stack_packets Ts \<Longrightarrow> T \<in> set Ts \<Longrightarrow> fits_frame T"
  using stack_packetsD [of Ts T] by (simp add: fits_frame_def frame_size_def)

lemma serialize_and_enqueue:
  assumes "fits_frame T" and "length packet = pt_size T" and "length (c_tx_queue c) < TX_QUEUE_CAP"
  shows "\<exists>c1. serialize_packet_to_frame T packet c = (Some (packet_frame (c_sequence c) (T, packet)), c1) \<and>
    enqueue_prebuilt_frame (packet_frame (c_sequence c) (T, packet)) priority c1 = (True, posted T packet c)"
proof -
  have "length (packet_frame (c_sequence c) (T, packet)) \<le> MAX_FRAME_SIZE"
    using assms(1,2) by (simp add: packet_frame_def fits_frame_def)
  then show ?thesis using serialize_packet_to_frame_default [of T packet c] assms
    by (simp add: fits_frame_def enqueue_prebuilt_frame_def posted_def entry_def is_telemetry_packet_frame Let_def)
qed

lemma broadcast_posted:
  assumes "fits_frame T" and "length packet = pt_size T" and "length (c_tx_queue c) < TX_QUEUE_CAP"
  shows "broadcast T packet c = (True, posted T packet c)"
  using serialize_and_enqueue [OF assms, of False] by (auto simp: broadcast_def)

lemma send_response_posted:
  assumes "fits_frame Rsp" and "length response = pt_size Rsp" and "length (c_tx_queue c) < TX_QUEUE_CAP"
  shows "send_response_and_cache Req Rsp tx response c =
    (True, (posted Rsp response c)\<lparr>c_session := cache_response (pt_cmd Req) tx (pt_cmd Rsp)
       (packet_frame (c_sequence c) (Rsp, response)) (c_session c)\<rparr>)"
  using serialize_and_enqueue [OF assms, of True] by (auto simp: send_response_and_cache_def)

lemma length_ack_bytes [simp]: "length (ack_bytes tx cmd) = 7"
  by (simp add: ack_bytes_def AckPacket_def)

lemma ack_traits [simp]:
  "pt_cmd PacketTraits_AckPacket = ACK_CMD" "pt_size PacketTraits_AckPacket = 7" "pt_type PacketTraits_AckPacket = AckPacket"
  "pt_protocol PacketTraits_AckPacket = DefaultProtocol"
  by (simp_all add: PacketTraits_AckPacket_def ACK_CMD_def AckPacket_def)

lemma read_ack_tx_id: "read_tx_id AckPacket (ack_bytes tx cmd) = tx"
  by (simp add: ack_bytes_def AckPacket_def read_tx_id_def mem_read_def le_val_le_bytes)

lemma enqueue_ack_posted:
  assumes "length (c_tx_queue c) < TX_QUEUE_CAP"
  shows "enqueue_ack tx cmd c = posted PacketTraits_AckPacket (ack_bytes tx cmd) c"
  using serialize_and_enqueue [of PacketTraits_AckPacket "ack_bytes tx cmd" c True] assms
  by (auto simp: enqueue_ack_def fits_frame_def MAX_FRAME_SIZE_def)

section \<open>A retry after a callback has sent\<close>

text \<open>
  Two requests are due in one \<open>poll\<close>: \<open>k\<close> has no retries left, and its error callback sends; \<open>j\<close> is to be sent
  again, and its bytes are read through a pointer taken before the callback ran.
\<close>

lemma send_next_id: "m_next_tx_id (c_session (snd (send Req Rsp payload on_resp on_err timeout retries c))) =
    m_next_tx_id (c_session c) + 1"
  by (simp add: send_def session_send_def next_tx_id_def register_pending_def clock_now_def Let_def)

lemma retry_dangles:
  fixes c :: "('r, 'e, 'h, 'u) core"
  defines "now \<equiv> c_clock c (c_ticks c)"
  assumes order: "distinct (pending_order env (c_session c))" "set (pending_order env (c_session c)) = {j, k}"
    and pend: "m_pending_by_tx (c_session c) = [k \<mapsto> p, j \<mapsto> q]" "j \<noteq> k"
    and p: "entry_expired now p" "pe_max_retries p \<le> pe_retry_count p" "pe_on_error p = Some e"
    and q: "entry_expired now q" "pe_retry_count q < pe_max_retries q"
    and cb: "\<And>c. run_callback env (Call_Error e Timeout) c = snd (send Req Rsp payload on_resp on_err timeout retries c)"
  shows "handle_session_retries env c = Inl Dangling_Read"
proof -
  let ?ks = "pending_order env (c_session c)"
  have ks: "?ks = [j, k] \<or> ?ks = [k, j]"
  proof -
    have "length ?ks = 2" using distinct_card [OF order(1)] order(2) pend(2) by simp
    then obtain a b where "?ks = [a, b]" by (auto simp: length_Suc_conv numeral_2_eq_2)
    then show ?thesis using order by (auto simp: doubleton_eq_iff)
  qed
  define nows where "nows = (\<lambda>i. c_clock c (c_ticks c + 1 + length (takeWhile (\<lambda>j. j \<noteq> i) ?ks)))"
  obtain re cbs s where l: "poll_loop now nows ?ks (c_session c) = (re, cbs, s)" by (rule prod_cases3)
  have "re = [retransmit_entry q]" and "cbs = [Call_Error e Timeout]"
    using poll_loop_spec [OF order(1) l] ks p q pend by (auto simp: poll_retry_def poll_give_up_def)
  then show ?thesis using l cb
    by (simp add: send_next_id handle_session_retries_def poll_def Let_def now_def nows_def)
qed

end
