(* ===== verification/Delivery.thy ===== *)
theory Delivery
  imports Transaction
begin

text \<open>
  Reliable requests at the device: acknowledged every time, handled once; and the response at the host.
\<close>

section \<open>A request at the device\<close>

definition reliable_request :: "packet_traits \<Rightarrow> bool" where
  "reliable_request T \<longleftrightarrow> tx_packet T \<and> is_request_cmd (pt_cmd T) \<and> pt_cmd T < 0x6300 \<and> pt_cmd T \<noteq> ACK_CMD"

abbreviation seen_ring :: "('r, 'e, 'h, 'u) core \<Rightarrow> u64 id_ring" where
  "seen_ring c \<equiv> m_seen_requests (c_session c)"

definition resend_cached :: "CompletedResponse option \<Rightarrow> ('r, 'e, 'h, 'u) core \<Rightarrow> ('r, 'e, 'h, 'u) core" where
  "resend_cached cached c =
     (case cached of
        None \<Rightarrow> c
      | Some r \<Rightarrow>
          if length (cr_response_bytes r) > 0 then snd (enqueue_prebuilt_frame (cr_response_bytes r) True c) else c)"

lemma dispatch_request:
  assumes Ts: "default_packets (e_packets env)" and T: "T \<in> set (e_packets env)" and rel: "reliable_request T"
    and bound: "c_bound c" and len: "4 + length payload = pt_size T" and tx: "tx \<noteq> 0"
    and ti: "test_and_insert (compose_dedup_key (pt_cmd T) tx) (seen_ring c) = (seen, ring)"
  shows "dispatch_after_parse env T (le_bytes 4 tx @ payload) c =
    (let c' = enqueue_ack tx (pt_cmd T) (c\<lparr>c_session := (c_session c)\<lparr>m_seen_requests := ring\<rparr>\<rparr>)
     in if seen then resend_cached (m_completed_cache (c_session c) (compose_dedup_key (pt_cmd T) tx)) c'
        else call_handler env (pt_cmd T) tx (le_bytes 4 tx @ payload) c')"
proof -
  have D: "distinct (map pt_cmd (e_packets env))" "sizeof (pt_type T) = pt_size T"
    using Ts T by (auto simp: default_packets_def list_all_iff)
  have R: "tx_packet T" "is_request_cmd (pt_cmd T)" "pt_cmd T < 0x6300" "pt_cmd T \<noteq> ACK_CMD"
    using rel by (simp_all add: reliable_request_def)
  have "extract_tx_id_from_raw (e_packets env) (pt_cmd T) (le_bytes 4 tx @ payload) = tx"
    using extract_tx_id_nth [OF D(1) T, of "le_bytes 4 tx @ payload"] D(2) R(1) len by (simp add: tx_packet_read)
  then show ?thesis using R bound tx ti
    by (simp add: dispatch_after_parse_def handle_packet_internal_def handle_request_packet_def on_request_def
        resend_cached_def Let_def)
qed

text \<open>No operation of the stack touches the set of seen requests except a reliable request.\<close>

abbreviation same_seen :: "('r, 'e, 'h, 'u) core \<Rightarrow> ('r, 'e, 'h, 'u) core \<Rightarrow> bool" where
  "same_seen c c' \<equiv> seen_ring c' = seen_ring c \<and> c_bound c' = c_bound c"

lemma shrink_device_cache_seen [simp]: "m_seen_requests (shrink_device_cache s) = m_seen_requests s"
  by (induction s rule: shrink_device_cache.induct) (subst shrink_device_cache.simps, simp)

lemma cache_response_seen [simp]: "m_seen_requests (cache_response cmd tx rcmd bs s) = m_seen_requests s"
  by (simp add: cache_response_def Let_def)

lemma serialize_packet_to_frame_seen:
  "serialize_packet_to_frame T packet c = (fr, c') \<Longrightarrow> same_seen c c'"
  by (drule serialize_packet_to_frame_frame) simp

lemma enqueue_prebuilt_frame_seen: "same_seen c (snd (enqueue_prebuilt_frame frame priority c))"
  by (simp add: enqueue_prebuilt_frame_def Let_def)

lemma enqueue_ack_seen: "same_seen c (enqueue_ack tx cmd c)"
  by (simp add: enqueue_ack_def enqueue_prebuilt_frame_seen split: prod.split option.split)
    (blast dest: serialize_packet_to_frame_seen)

lemma send_response_and_cache_seen: "same_seen c (snd (send_response_and_cache Req Rsp tx response c))"
proof -
  obtain fr c1 where s: "serialize_packet_to_frame Rsp response c = (fr, c1)" by fastforce
  obtain ok c2 where e: "enqueue_prebuilt_frame (the fr) True c1 = (ok, c2)" by fastforce
  have "same_seen c1 c2" using enqueue_prebuilt_frame_seen [where c = c1 and frame = "the fr" and priority = True] by (simp add: e)
  then show ?thesis using serialize_packet_to_frame_seen [OF s] s e
    by (cases fr; cases ok) (simp_all add: send_response_and_cache_def)
qed

lemma broadcast_seen: "same_seen c (snd (broadcast T packet c))"
  by (simp add: broadcast_def enqueue_prebuilt_frame_seen split: prod.split option.split)
    (blast dest: serialize_packet_to_frame_seen)

lemma send_seen: "same_seen c (snd (send Req Rsp payload on_resp on_err timeout retries c))"
  by (auto simp: send_def session_send_def next_tx_id_def register_pending_def clock_now_def Let_def)

lemma api_steps_seen: "api_steps c c' \<Longrightarrow> same_seen c c'"
  by (induction rule: api_steps.induct)
    (simp_all add: send_seen send_response_and_cache_seen broadcast_seen register_handler_def set_next_tx_id_def)

lemma env_uses_api_seen:
  assumes "env_uses_api env"
  shows "same_seen c (run_handler env h cmd tx data c)" and "same_seen c (run_callback env cb c)"
    and "same_seen c (call_handler env cmd tx data c)" and "same_seen c (fold (run_callback env) cbs c)"
proof -
  have h: "same_seen c (run_handler env h cmd tx data c)" and r: "same_seen c (run_callback env cb c)" for h cmd tx data cb c
    using assms by (simp_all add: env_uses_api_def api_steps_seen)
  show "same_seen c (run_handler env h cmd tx data c)" and "same_seen c (run_callback env cb c)" by (rule h, rule r)
  show "same_seen c (call_handler env cmd tx data c)" by (simp add: call_handler_def h split: option.split)
  show "same_seen c (fold (run_callback env) cbs c)" by (induction cbs arbitrary: c) (simp_all add: r)
qed

lemma resend_cached_seen: "same_seen c (resend_cached cached c)"
  by (simp add: resend_cached_def enqueue_prebuilt_frame_seen split: option.split)

lemma clock_now_seen: "clock_now c = (now, c') \<Longrightarrow> same_seen c c'"
  by (auto simp: clock_now_def)

lemma on_ack_seen [simp]: "m_seen_requests (on_ack tx now s) = m_seen_requests s"
  by (simp add: on_ack_def split: option.split)

lemma on_response_seen: "m_seen_requests (snd (on_response cmd tx data s)) = m_seen_requests s"
  by (rule on_response_cases [of cmd tx data s]) (simp_all add: erase_pending_def)

lemma on_request_seen:
  "m_seen_requests (snd (on_request cmd tx s)) = snd (test_and_insert (compose_dedup_key cmd tx) (m_seen_requests s))"
  by (rule on_request_ring)

text \<open>At most one key is inserted per packet, whatever the packet is.\<close>

definition inserts :: "nat \<Rightarrow> ('r, 'e, 'h, 'u) core \<Rightarrow> ('r, 'e, 'h, 'u) core \<Rightarrow> bool" where
  "inserts n c c' \<longleftrightarrow> c_bound c' = c_bound c \<and>
     (\<exists>ks. length ks \<le> n \<and> seen_ring c' = dedup_run test_and_insert ks (seen_ring c))"

lemma dedup_run_append: "dedup_run tai (ks @ ks') r = dedup_run tai ks' (dedup_run tai ks r)"
  by (induction ks arbitrary: r) simp_all

lemma inserts_same: "same_seen c c' \<Longrightarrow> inserts n c c'"
  unfolding inserts_def by (intro conjI exI [of _ "[]"]) simp_all

lemma inserts_trans: "inserts m a b \<Longrightarrow> inserts n b c \<Longrightarrow> inserts (m + n) a c"
proof -
  assume m: "inserts m a b" and n: "inserts n b c"
  obtain ks ks' where "length ks \<le> m" "seen_ring b = dedup_run test_and_insert ks (seen_ring a)"
    and "length ks' \<le> n" "seen_ring c = dedup_run test_and_insert ks' (seen_ring b)"
    using m n unfolding inserts_def by blast
  then have "length (ks @ ks') \<le> m + n \<and> seen_ring c = dedup_run test_and_insert (ks @ ks') (seen_ring a)"
    by (simp add: dedup_run_append)
  then show ?thesis using m n unfolding inserts_def by (metis (no_types))
qed

lemma inserts_then_same: "inserts n a b \<Longrightarrow> same_seen b c \<Longrightarrow> inserts n a c"
  by (simp add: inserts_def)

lemma handle_request_inserts:
  assumes "env_uses_api env"
  shows "inserts 1 c (handle_request_packet env cmd data c)"
proof -
  let ?tx = "extract_tx_id_from_raw (e_packets env) cmd data"
  obtain result session where r: "on_request cmd ?tx (c_session c) = (result, session)" by fastforce
  let ?c = "c\<lparr>c_session := session\<rparr>" and ?a = "enqueue_ack ?tx cmd (c\<lparr>c_session := session\<rparr>)"
  have "inserts 1 c ?c"
    using on_request_seen [of cmd ?tx "c_session c"] unfolding inserts_def r
    by (intro conjI exI [of _ "[compose_dedup_key cmd ?tx]"]) simp_all
  then have a: "inserts 1 c ?a" by (rule inserts_then_same) (rule enqueue_ack_seen)
  have call: "inserts 1 c (call_handler env cmd tx data c)" for tx
    by (intro inserts_same env_uses_api_seen [OF assms])
  have "inserts 1 c (call_handler env cmd ?tx data ?a)"
    by (rule inserts_then_same [OF a]) (rule env_uses_api_seen(3) [OF assms])
  moreover have "inserts 1 c (resend_cached (cached_response result) ?a)"
    by (rule inserts_then_same [OF a]) (rule resend_cached_seen)
  moreover have "inserts 1 c c" by (simp add: inserts_same)
  ultimately show ?thesis using call
    by (simp add: handle_request_packet_def r Let_def flip: resend_cached_def)
qed

lemma dispatch_inserts:
  assumes "env_uses_api env"
  shows "inserts 1 c (dispatch_after_parse env T data c)"
proof -
  have ack: "same_seen c (handle_ack_packet data c)"
    by (simp add: handle_ack_packet_def clock_now_def Let_def)
  have rsp: "same_seen c (handle_response_packet env cmd data c)" for cmd
  proof -
    let ?tx = "extract_tx_id_from_raw (e_packets env) cmd data"
    obtain cbs session where r: "on_response cmd ?tx data (c_session c) = (cbs, session)" by fastforce
    have "same_seen c (c\<lparr>c_session := session\<rparr>)" using on_response_seen [of cmd ?tx data "c_session c"] by (simp add: r)
    then show ?thesis using env_uses_api_seen(4) [OF assms, where c = "c\<lparr>c_session := session\<rparr>" and cbs = cbs]
      by (simp add: handle_response_packet_def r Let_def)
  qed
  show ?thesis using handle_request_inserts [OF assms, of c "pt_cmd T" data] inserts_same [OF ack] inserts_same [OF rsp]
    by (simp add: dispatch_after_parse_def handle_packet_internal_def inserts_same)
qed

lemma dispatch_all_inserts:
  assumes "env_uses_api env"
  shows "inserts (length ps) c (fold (\<lambda>(T, data). dispatch_after_parse env T data) ps c)"
proof (induction ps arbitrary: c)
  case Nil
  then show ?case by (simp add: inserts_same)
next
  case (Cons p ps)
  then show ?case using inserts_trans [OF dispatch_inserts [OF assms, of c "fst p" "snd p"]] by (simp add: case_prod_beta)
qed

lemma request_handled_once:
  assumes env: "env_uses_api env" "default_packets (e_packets env)" and T: "T \<in> set (e_packets env)" "reliable_request T"
    and len: "4 + length payload = pt_size T" "4 + length payload' = pt_size T" and tx: "tx \<noteq> 0" and bound: "c_bound c"
    and inv: "id_ring_inv (seen_ring c)" and fresh: "compose_dedup_key (pt_cmd T) tx \<notin> set (ids (seen_ring c))"
    and c1: "c1 = dispatch_after_parse env T (le_bytes 4 tx @ payload) c"
    and c2: "c2 = fold (\<lambda>(T, data). dispatch_after_parse env T data) ps c1" and ps: "length ps < id_ring_size (seen_ring c)"
  shows "\<exists>ring. c1 = call_handler env (pt_cmd T) tx (le_bytes 4 tx @ payload)
      (enqueue_ack tx (pt_cmd T) (c\<lparr>c_session := (c_session c)\<lparr>m_seen_requests := ring\<rparr>\<rparr>))"
    and "dispatch_after_parse env T (le_bytes 4 tx @ payload') c2 =
      resend_cached (m_completed_cache (c_session c2) (compose_dedup_key (pt_cmd T) tx)) (enqueue_ack tx (pt_cmd T) c2)"
proof -
  let ?k = "compose_dedup_key (pt_cmd T) tx"
  have nw: "?k \<notin> set (id_ring_window (seen_ring c))" using fresh by simp
  obtain ring where ti: "test_and_insert ?k (seen_ring c) = (False, ring)" using idr.tai_fresh [OF inv nw] by blast
  let ?a = "enqueue_ack tx (pt_cmd T) (c\<lparr>c_session := (c_session c)\<lparr>m_seen_requests := ring\<rparr>\<rparr>)"
  have first: "c1 = call_handler env (pt_cmd T) tx (le_bytes 4 tx @ payload) ?a"
    unfolding c1 using dispatch_request [OF env(2) T bound len(1) tx ti] by (simp add: Let_def)
  then show "\<exists>ring. c1 = call_handler env (pt_cmd T) tx (le_bytes 4 tx @ payload)
      (enqueue_ack tx (pt_cmd T) (c\<lparr>c_session := (c_session c)\<lparr>m_seen_requests := ring\<rparr>\<rparr>))" by blast
  have "same_seen ?a c1" unfolding first by (rule env_uses_api_seen(3) [OF env(1)])
  moreover have "seen_ring ?a = ring \<and> c_bound ?a" using bound by (simp add: enqueue_ack_seen)
  ultimately have c1ring: "seen_ring c1 = ring" "c_bound c1" by simp_all
  obtain ks where ks: "length ks \<le> length ps" "seen_ring c2 = dedup_run test_and_insert ks ring" and b2: "c_bound c2"
    using dispatch_all_inserts [OF env(1), of ps c1] c1ring by (auto simp: inserts_def c2)
  have "fst (test_and_insert ?k (seen_ring c2))"
    using idr.recognised_after_fresh [OF inv nw, of ks] ks ps by (simp add: ti id_ring_size_def)
  then have "test_and_insert ?k (seen_ring c2) = (True, seen_ring c2)" by (simp add: test_and_insert_def split: if_splits)
  from dispatch_request [OF env(2) T b2 len(2) tx this] show "dispatch_after_parse env T (le_bytes 4 tx @ payload') c2 =
      resend_cached (m_completed_cache (c_session c2) ?k) (enqueue_ack tx (pt_cmd T) c2)"
    by (simp add: Let_def)
qed

section \<open>The response at the host\<close>

lemma dispatch_response:
  assumes Ts: "default_packets (e_packets env)" and T: "T \<in> set (e_packets env)" and "tx_packet T"
    and "\<not> is_request_cmd (pt_cmd T)" and "pt_cmd T \<noteq> ACK_CMD"
    and bound: "c_bound c" and len: "4 + length payload = pt_size T" and tx: "tx \<noteq> 0"
    and p: "m_pending_by_tx (c_session c) tx = Some p" "pe_response_cmd p = pt_cmd T" "pe_on_response p = Some r"
    and new: "test_and_insert (compose_dedup_key (pt_cmd T) tx) (m_seen_responses (c_session c)) = (False, ring)"
  shows "dispatch_after_parse env T (le_bytes 4 tx @ payload) c =
    run_callback env (Call_Response r (le_bytes 4 tx @ payload))
      (c\<lparr>c_session := erase_pending tx p ((c_session c)\<lparr>m_seen_responses := ring\<rparr>)\<rparr>)"
proof -
  have D: "distinct (map pt_cmd (e_packets env))" "sizeof (pt_type T) = pt_size T"
    using Ts T by (auto simp: default_packets_def list_all_iff)
  have "extract_tx_id_from_raw (e_packets env) (pt_cmd T) (le_bytes 4 tx @ payload) = tx"
    using extract_tx_id_nth [OF D(1) T, of "le_bytes 4 tx @ payload"] D(2) assms(3) len by (simp add: tx_packet_read)
  then show ?thesis using assms(4,5) bound tx p new
    by (simp add: dispatch_after_parse_def handle_packet_internal_def handle_response_packet_def on_response_def Let_def)
qed

text \<open>An acknowledgement moves the deadline and nothing else.\<close>

lemma dispatch_ack:
  assumes "c_bound c"
  shows "dispatch_after_parse env PacketTraits_AckPacket (ack_bytes tx cmd) c =
    c\<lparr>c_ticks := c_ticks c + 1, c_session := on_ack tx (c_clock c (c_ticks c)) (c_session c)\<rparr>"
  using assms by (simp add: dispatch_after_parse_def handle_packet_internal_def handle_ack_packet_def clock_now_def
      read_ack_tx_id AckPacket_def [THEN arg_cong [of _ _ sizeof]] Let_def)

end
