(* ===== verification/Stack_Inv.thy ===== *)
theory Stack_Inv
  imports Delivery
begin

text \<open>
  Whatever bytes arrive, well formed or not: what every packet handler keeps, receiving keeps. With it the
  invariants of the core hold after any number of cycles, feeds and calls of the interface.
\<close>

section \<open>Receiving keeps what every handler keeps\<close>

definition keeps :: "('m, 's) parser_config \<Rightarrow> ('s \<Rightarrow> bool) \<Rightarrow> bool" where
  "keeps cfg I \<longleftrightarrow> (\<forall>T packet s. I s \<longrightarrow> I (after_parse cfg T packet s))"

lemma try_dispatch_keeps: "keeps cfg I \<Longrightarrow> I s \<Longrightarrow> try_dispatch cfg b T s1 s2 s = Inr (skip, s') \<Longrightarrow> I s'"
  by (auto simp: try_dispatch_def Let_def keeps_def split: if_splits option.splits)

lemma dispatch_keeps: "keeps cfg I \<Longrightarrow> I s \<Longrightarrow> dispatch cfg b Ts cmd s1 s2 s = Inr (skip, s') \<Longrightarrow> I s'"
  by (induction Ts) (auto split: if_splits dest: try_dispatch_keeps)

lemma parse_frame_impl_keeps:
  "keeps cfg I \<Longrightarrow> I s \<Longrightarrow> parse_frame_impl cfg W p s = Inr (res, p', s') \<Longrightarrow> I s'"
  by (auto simp: parse_frame_impl_def Let_def dest: dispatch_keeps split: if_splits prod.splits sum.splits option.splits)

lemma scan_turn_keeps:
  "keeps cfg I \<Longrightarrow> I s \<Longrightarrow> scan_turn cfg n p s = Inr (go_on, n', p', s') \<Longrightarrow> I s'"
  by (auto simp: scan_turn_def runtime_parse_def Let_def dest: parse_frame_impl_keeps
      split: if_splits prod.splits sum.splits option.splits parse_result.splits)

abbreviation result_keeps :: "('s \<Rightarrow> bool) \<Rightarrow> fault + 'a \<times> 's \<Rightarrow> bool" where
  "result_keeps I res \<equiv> (case res of Inl f \<Rightarrow> True | Inr r \<Rightarrow> I (snd r))"

lemma try_parse_loop_keeps:
  assumes "keeps cfg I" and "I s" and "try_parse_loop cfg n p s = Some res"
  shows "result_keeps I res"
proof -
  have "keeps cfg I \<longrightarrow> I s \<longrightarrow> result_keeps I res"
  proof (rule try_parse_loop.raw_induct [of "\<lambda>cfg n p s res. keeps cfg I \<longrightarrow> I s \<longrightarrow> result_keeps I res", OF _ assms(3)],
      intro impI)
    fix loop :: "('a, 'b) parser_config \<Rightarrow> nat \<Rightarrow> 'a parser \<Rightarrow> 'b \<Rightarrow> (fault + 'a parser \<times> 'b) option"
      and cfg n p s res
    assume IH: "\<And>cfg n p s res. loop cfg n p s = Some res \<Longrightarrow> keeps cfg I \<longrightarrow> I s \<longrightarrow> result_keeps I res"
      and run: "(if 0 < n then case scan_turn cfg n p s of Inl f \<Rightarrow> Some (Inl f)
          | Inr (go_on, n, p, s) \<Rightarrow> if go_on then loop cfg n p s else Some (Inr (p, s))
        else Some (Inr (p, s))) = Some res"
      and k: "keeps cfg I" and s: "I s"
    show "result_keeps I res"
    proof (cases "scan_turn cfg n p s")
      case (Inr t)
      obtain go_on n' p' s' where t: "t = (go_on, n', p', s')" by (cases t)
      have "I s'" using scan_turn_keeps [OF k s] Inr t by blast
      then show ?thesis using run Inr t k s IH [of cfg n' p' s' res] by (auto split: if_splits)
    qed (use run k s in \<open>auto split: if_splits\<close>)
  qed
  then show ?thesis using assms by blast
qed

lemma push_data_keeps:
  assumes "keeps cfg I" and "I s" and "push_data cfg data p s = Some (Inr (r, p', s'))"
  shows "I s'"
proof -
  obtain ok b where w: "bip_write data (buffer p) = (ok, b)" by fastforce
  show ?thesis
  proof (cases "ok")
    case True
    then obtain res where "try_parse_packets cfg (p\<lparr>buffer := b\<rparr>) s = Some res"
        and "map_sum id (\<lambda>(p, s). (Inr (), p, s)) res = Inr (r, p', s')"
      using assms(3) w by (auto simp: push_data_def)
    then have "res = Inr (p', s')" and "try_parse_loop cfg (bip_available b) (p\<lparr>buffer := b\<rparr>) s = Some res"
      by (cases res; auto simp: try_parse_packets_def)+
    then show ?thesis using try_parse_loop_keeps [OF assms(1,2)] by fastforce
  qed (use assms w in \<open>simp add: push_data_def\<close>)
qed

lemma drain_rx_keeps:
  fixes st st' :: "('r, 'e, 'h, 'u, 'w::len word) stack"
  assumes "keeps cfg I" and "I (st_core st)" and "drain_rx cfg st = Some (Inr st')"
  shows "I (st_core st')"
proof -
  have "keeps cfg I \<longrightarrow> I (st_core st) \<longrightarrow> (case (Inr st' :: fault + ('r, 'e, 'h, 'u, 'w word) stack) of Inl f \<Rightarrow> True | Inr st' \<Rightarrow> I (st_core st'))"
  proof (rule drain_rx.raw_induct [of "\<lambda>cfg (st :: ('r, 'e, 'h, 'u, 'w::len word) stack) res. keeps cfg I \<longrightarrow> I (st_core st) \<longrightarrow>
      (case res of Inl f \<Rightarrow> True | Inr st' \<Rightarrow> I (st_core st'))", OF _ assms(3)], intro impI)
    fix loop cfg and st :: "('r, 'e, 'h, 'u, 'w word) stack" and res
    assume IH: "\<And>cfg st res. loop cfg st = Some res \<Longrightarrow> keeps cfg I \<longrightarrow> I (st_core st) \<longrightarrow>
          (case res of Inl f \<Rightarrow> True | Inr st' \<Rightarrow> I (st_core st'))"
      and run: "(let avail = isr_available (st_rx_ring st)
        in if avail = 0 then Some (Inr st)
           else let (buf, ring) = isr_read (if avail < 256 then avail else 256) (st_rx_ring st)
                in if buf = [] then Some (Inr (st\<lparr>st_rx_ring := ring\<rparr>))
                   else case push_data cfg buf (st_parser st) (st_core st) of
                          None \<Rightarrow> None
                        | Some (Inl f) \<Rightarrow> Some (Inl f)
                        | Some (Inr (r, p, c)) \<Rightarrow> loop cfg (st\<lparr>st_rx_ring := ring, st_parser := p, st_core := c\<rparr>)) = Some res"
      and k: "keeps cfg I" and s: "I (st_core st)"
    let ?n = "if isr_available (st_rx_ring st) < 256 then isr_available (st_rx_ring st) else 256"
    obtain buf ring where rd: "isr_read ?n (st_rx_ring st) = (buf, ring)" by fastforce
    show "case res of Inl f \<Rightarrow> True | Inr st' \<Rightarrow> I (st_core st')"
    proof (cases "isr_available (st_rx_ring st) = 0 \<or> buf = [] \<or> (\<forall>r p c. push_data cfg buf (st_parser st) (st_core st) \<noteq> Some (Inr (r, p, c)))")
      case True
      then show ?thesis using run rd s by (auto simp: Let_def split: if_splits option.splits sum.splits)
    next
      case False
      then obtain r p c where push: "push_data cfg buf (st_parser st) (st_core st) = Some (Inr (r, p, c))" by blast
      have "I c" by (rule push_data_keeps [OF k s push])
      then show ?thesis
        using False run rd push k IH [of cfg "st\<lparr>st_rx_ring := ring, st_parser := p, st_core := c\<rparr>" res]
        by (simp add: Let_def)
    qed
  qed
  then show ?thesis using assms by simp
qed

section \<open>The stack under any use\<close>

text \<open>What the owner of a stack does with it: bytes come in, the loop turns, and the application calls the interface.\<close>

datatype ('r, 'e, 'h, 'u) use =
    Feed bytes
  | Cycle
  | Send packet_traits packet_traits bytes "'r option" "'e option" int u8
  | Respond packet_traits packet_traits u32 bytes
  | Broadcast packet_traits bytes
  | Register u16 "'h option"
  | Next_Tx_Id u32

fun use_stack ::
  "(unit, ('r, 'e, 'h, 'u) core) parser_config \<Rightarrow> ('r, 'e, 'h, 'u) stack_env \<Rightarrow> ('r, 'e, 'h, 'u) use
     \<Rightarrow> ('r, 'e, 'h, 'u, 'w::len word) stack \<Rightarrow> (fault + ('r, 'e, 'h, 'u, 'w word) stack) option" where
  "use_stack cfg env (Feed data) st = Some (Inr (isr_feed data st))"
| "use_stack cfg env Cycle st = run_one_cycle cfg env st"
| "use_stack cfg env (Send Req Rsp payload on_resp on_err timeout retries) st =
     Some (Inr (st\<lparr>st_core := snd (send Req Rsp payload on_resp on_err timeout retries (st_core st))\<rparr>))"
| "use_stack cfg env (Respond Req Rsp tx response) st =
     Some (Inr (st\<lparr>st_core := snd (send_response_and_cache Req Rsp tx response (st_core st))\<rparr>))"
| "use_stack cfg env (Broadcast T packet) st = Some (Inr (st\<lparr>st_core := snd (broadcast T packet (st_core st))\<rparr>))"
| "use_stack cfg env (Register cmd h) st = Some (Inr (st\<lparr>st_core := register_handler cmd h (st_core st)\<rparr>))"
| "use_stack cfg env (Next_Tx_Id k) st =
     Some (Inr (st\<lparr>st_core := (st_core st)\<lparr>c_session := set_next_tx_id k (c_session (st_core st))\<rparr>\<rparr>))"

fun use_many ::
  "(unit, ('r, 'e, 'h, 'u) core) parser_config \<Rightarrow> ('r, 'e, 'h, 'u) stack_env \<Rightarrow> ('r, 'e, 'h, 'u) use list
     \<Rightarrow> ('r, 'e, 'h, 'u, 'w::len word) stack \<Rightarrow> (fault + ('r, 'e, 'h, 'u, 'w word) stack) option" where
  "use_many cfg env [] st = Some (Inr st)"
| "use_many cfg env (a # as) st =
     (case use_stack cfg env a st of
        None \<Rightarrow> None
      | Some (Inl f) \<Rightarrow> Some (Inl f)
      | Some (Inr st) \<Rightarrow> use_many cfg env as st)"

lemma stack_config_keeps_queue: "env_uses_api env \<Longrightarrow> keeps (stack_config env) queue_ok"
  by (simp add: keeps_def stack_config_def dispatch_after_parse_def handle_packet_queue)

lemma send_queue: "queue_ok c \<Longrightarrow> queue_ok (snd (send Req Rsp payload on_resp on_err timeout retries c))"
  by (rule api_steps_queue [OF api_send [OF api_done]])

lemma run_one_cycle_queue:
  assumes "env_uses_api env" and "queue_ok (st_core st)" and "run_one_cycle (stack_config env) env st = Some (Inr st')"
  shows "queue_ok (st_core st')"
proof -
  obtain st1 where d: "drain_rx (stack_config env) st = Some (Inr st1)"
    and "map_sum id (\<lambda>c. st1\<lparr>st_core := drain_tx env c\<rparr>)
      (handle_session_retries env (handle_session_outbound env (st_core st1))) = Inr st'"
    using assms(3) by (auto simp: run_one_cycle_def split: option.splits sum.splits)
  then obtain c where c: "handle_session_retries env (handle_session_outbound env (st_core st1)) = Inr c"
    and st': "st' = st1\<lparr>st_core := drain_tx env c\<rparr>"
    by (cases "handle_session_retries env (handle_session_outbound env (st_core st1))") auto
  have "queue_ok (st_core st1)" by (rule drain_rx_keeps [OF stack_config_keeps_queue [OF assms(1)] assms(2) d])
  then have "queue_ok c" by (intro handle_session_retries_queue [OF assms(1) _ c] handle_session_outbound_queue)
  then show ?thesis unfolding st' by (simp add: drain_tx_queue)
qed

lemma use_many_queue:
  assumes "env_uses_api env" and "queue_ok (st_core st)" and "use_many (stack_config env) env as st = Some (Inr st')"
  shows "queue_ok (st_core st')"
  using assms(2,3)
proof (induction as arbitrary: st)
  case (Cons a as)
  obtain st1 where s1: "use_stack (stack_config env) env a st = Some (Inr st1)"
    and rest: "use_many (stack_config env) env as st1 = Some (Inr st')"
    using Cons.prems(2) by (auto split: option.splits sum.splits)
  have "queue_ok (st_core st1)"
    using s1 Cons.prems(1) run_one_cycle_queue [OF assms(1), of st st1] send_queue send_response_and_cache_queue broadcast_queue
    by (cases a) (auto simp: isr_feed_def register_handler_def)
  then show ?case by (rule Cons.IH [OF _ rest])
qed simp

end
