(* ===== verification/Arm_Stack.thy ===== *)
theory Arm_Stack
  imports Stack_Inv
begin

text \<open>
  The stack on the packet list of the arm: the compile-time tables the parser derives from it, how the
  command ids are classified, and the two directions of a reliable request.
\<close>

section \<open>The packet table\<close>

lemma default_arm_packets: "default_packets arm_packets"
  by (simp add: default_packets_def packet_list_defs traits_defs layout_defs)

lemma dispatched_arm_packets: "dispatched arm_packets"
  by (simp add: dispatched_def packet_list_defs traits_defs)

lemma max_frame_size_arm: "max_frame_size arm_packets = 136"
  by (simp add: max_frame_size_def frame_size_def packet_list_defs traits_defs layout_defs)

lemma buffer_size_arm: "calculate_buffer_size arm_packets = 1024"
  by (simp add: calculate_buffer_size_def calculate_max_frame_size_eq max_frame_size_arm bit_ceil_def
      numeral_eq_Suc)

lemma arm_frames_fit: "list_all (\<lambda>T. frame_size T \<le> MAX_FRAME_SIZE \<and> pt_size T \<le> MAX_PACKET_SIZE) arm_packets"
  by (simp add: frame_size_def MAX_FRAME_SIZE_def MAX_PACKET_SIZE_def packet_list_defs traits_defs layout_defs)

text \<open>Which ids are requests to the stack, which are reliable, and which responses.\<close>

lemma request_cmds:
  "list_all (\<lambda>T. is_request_cmd (pt_cmd T) \<and> pt_cmd T < 0x6300 \<and> \<not> is_telemetry_cmd (pt_cmd T)
     \<and> pt_cmd T \<noteq> ACK_CMD) request_packets"
  by (simp add: request_packets_def traits_defs is_request_cmd_def is_telemetry_cmd_def ACK_CMD_def)

lemma response_cmds:
  "list_all (\<lambda>T. \<not> is_request_cmd (pt_cmd T) \<and> \<not> is_telemetry_cmd (pt_cmd T) \<and> pt_cmd T \<noteq> ACK_CMD) response_packets"
  by (simp add: response_packets_def traits_defs is_request_cmd_def is_telemetry_cmd_def ACK_CMD_def)

lemma realtime_cmds:
  "list_all (\<lambda>T. is_request_cmd (pt_cmd T) \<and> \<not> pt_cmd T < 0x6300 \<and> pt_cmd T \<noteq> ACK_CMD) realtime_packets"
  by (simp add: realtime_packets_def traits_defs is_request_cmd_def ACK_CMD_def)

lemma stack_init_idle:
  assumes "e_packets env = Ts" and "default_packets Ts" and "dispatched Ts"
    and "2 * N + 2 * max_frame_size Ts \<le> calculate_buffer_size Ts" and "12 < LENGTH('w::len)"
  shows "stack_idle env N (stack_init Ts config clock u :: ('r, 'e, 'h, 'u, 'w word) stack)"
proof -
  have "isr_inv (isr_init (2 ^ 12) :: 'w word isr_ring)" by (rule isr_init_inv [OF assms(5)])
  moreover have "parser_ready (stack_config env) N (parser_init Ts ())"
    unfolding stack_config_def assms(1) by (rule parser_init_ready [OF assms(2,4)])
  ultimately show ?thesis using assms
    by (simp add: stack_idle_def stack_ready_def stack_init_def parser_init_def) (simp add: isr_init_def)
qed

lemma arm_stack_init_idle:
  "e_packets env = arm_packets \<Longrightarrow> 12 < LENGTH('w::len) \<Longrightarrow>
     stack_idle env 256 (stack_init arm_packets config clock u :: ('r, 'e, 'h, 'u, 'w word) stack)"
  by (rule stack_init_idle)
    (simp_all add: default_arm_packets dispatched_arm_packets max_frame_size_arm buffer_size_arm)

section \<open>Feeding the ring in pieces\<close>

lemma isr_feed_core [simp]: "st_core (isr_feed data st) = st_core st" "st_parser (isr_feed data st) = st_parser st"
  by (simp_all add: isr_feed_def)

lemma isr_feeds:
  assumes "isr_inv (st_rx_ring st)"
    and "length (isr_contents (st_rx_ring st)) + length (concat cs) \<le> rb_capacity (st_rx_ring st)"
  shows "isr_inv (st_rx_ring (fold isr_feed cs st)) \<and>
    isr_contents (st_rx_ring (fold isr_feed cs st)) = isr_contents (st_rx_ring st) @ concat cs \<and>
    rb_capacity (st_rx_ring (fold isr_feed cs st)) = rb_capacity (st_rx_ring st) \<and>
    st_core (fold isr_feed cs st) = st_core st \<and> st_parser (fold isr_feed cs st) = st_parser st"
  using assms
proof (induction cs arbitrary: st)
  case (Cons c cs)
  obtain ok r' where w: "isr_write c (st_rx_ring st) = (ok, r')" by fastforce
  have "length c \<le> rb_capacity (st_rx_ring st) - isr_available (st_rx_ring st)" using Cons.prems(2) by simp
  from isr_write_accepted [OF Cons.prems(1) this w]
  have r': "isr_inv r'" "isr_contents r' = isr_contents (st_rx_ring st) @ c" "rb_capacity r' = rb_capacity (st_rx_ring st)"
    by simp_all
  have st: "st_rx_ring (isr_feed c st) = r'" by (simp add: isr_feed_def w)
  have "length (isr_contents r') + length (concat cs) \<le> rb_capacity r'" using Cons.prems(2) unfolding r'(2,3) by simp
  then show ?case using Cons.IH [of "isr_feed c st"] r'(1,3) unfolding st by (simp add: r'(2))
qed simp

lemma feeds_received:
  assumes "stack_idle env N st" and "256 \<le> N" and "sent_ok (e_packets env) ms" and "concat cs = sent_bytes ms"
    and "length (sent_bytes ms) \<le> 4096"
  shows "received env N ms (fold isr_feed cs st)" and "st_core (fold isr_feed cs st) = st_core st"
proof -
  have "isr_inv (st_rx_ring st)" "rb_capacity (st_rx_ring st) = 4096" "isr_contents (st_rx_ring st) = []"
    using assms(1) by (simp_all add: stack_idle_def stack_ready_def)
  then have f: "isr_inv (st_rx_ring (fold isr_feed cs st))" "isr_contents (st_rx_ring (fold isr_feed cs st)) = sent_bytes ms"
      "rb_capacity (st_rx_ring (fold isr_feed cs st)) = 4096"
      "st_core (fold isr_feed cs st) = st_core st" "st_parser (fold isr_feed cs st) = st_parser st"
    using isr_feeds [of st cs] assms(4,5) by simp_all
  moreover have "min 256 n \<le> N" for n :: nat using assms(2) by (simp add: min.coboundedI1)
  ultimately show "received env N ms (fold isr_feed cs st)" using assms(1-3)
    by (simp add: received_def stack_idle_def stack_ready_def rx_fits_def)
  show "st_core (fold isr_feed cs st) = st_core st" by (rule f(4))
qed

section \<open>What the classification loses\<close>

text \<open>
  \<open>MotorFeedbackArray\<close> has an even id, is taken for a response, and carries no transaction id.
\<close>

lemma motor_feedback_cmd:
  "\<not> is_request_cmd (pt_cmd PacketTraits_MotorFeedbackArray)" "pt_cmd PacketTraits_MotorFeedbackArray \<noteq> ACK_CMD"
  "\<not> has_tx_id (pt_type PacketTraits_MotorFeedbackArray)" "PacketTraits_MotorFeedbackArray \<in> set arm_packets"
  by (simp_all add: PacketTraits_MotorFeedbackArray_def is_request_cmd_def ACK_CMD_def has_tx_id_def layout_defs
      arm_packets_def telemetry_packets_def)

lemma extract_tx_id_none:
  assumes "distinct (map pt_cmd Ts)" and "T \<in> set Ts" and "\<not> has_tx_id (pt_type T)"
  shows "extract_tx_id_from_raw Ts (pt_cmd T) data = 0"
  using assms(1,2)
proof (induction Ts)
  case (Cons A Ts)
  then have "pt_cmd T = pt_cmd A \<Longrightarrow> A = T" by (auto simp: image_iff)
  moreover have "extract_tx_id_from_raw Ts cmd data = 0" if "cmd \<notin> pt_cmd ` set Ts" for cmd
    using that by (induction Ts) auto
  ultimately show ?case using Cons assms(3) by (cases "A = T") auto
qed simp

lemma motor_feedback_ignored:
  assumes "e_packets env = arm_packets"
  shows "dispatch_after_parse env PacketTraits_MotorFeedbackArray data c = c"
proof -
  have "distinct (map pt_cmd arm_packets)" using default_arm_packets by (simp add: default_packets_def)
  from extract_tx_id_none [OF this motor_feedback_cmd(4,3)]
  show ?thesis using motor_feedback_cmd assms
    by (simp add: dispatch_after_parse_def handle_packet_internal_def handle_response_packet_def Let_def)
qed

end
