(* ===== verification/Serial_Example.thy ===== *)
theory Serial_Example
  imports Arm_Stack
begin

text \<open>
  The two example programs, \<open>send_serial.cpp\<close> (host) and \<open>receive_serial.cpp\<close> (device), over the stack.
  The serial port of the \<open>astrial\<close> library is a parameter: its state is the type \<open>'x\<close> and \<open>write\<close> gives
  the outcome of \<open>Serial::write\<close>. What is printed is left out.
\<close>

section \<open>The packets and the configuration\<close>

definition serial_packets :: "packet_traits list" where
  "serial_packets =
     [PacketTraits_AckPacket, PacketTraits_SetMitLimitRequestPacket, PacketTraits_SetMitLimitResponsePacket]"

text \<open>\<open>steady_clock\<close> counts nanoseconds; \<open>500ms\<close> is given in them.\<close>

definition serial_session_config :: session_config where
  "serial_session_config = default_session_config\<lparr>window_size := 1, cfg_timeout := 500000000, cfg_max_retries := 3\<rparr>"

text \<open>The bytes of a member of a packed structure.\<close>

definition get_member :: "cty \<Rightarrow> string \<Rightarrow> bytes \<Rightarrow> bytes" where
  "get_member t f data =
     (case member_at f 0 (struct_fields t) of None \<Rightarrow> [] | Some (off, ft) \<Rightarrow> mem_read data off (sizeof ft))"

section \<open>The device\<close>

record 'x device_app =
  g_serial :: "'x option"

datatype device_handler = Handle_Set_Mit_Limit

definition send_over_serial :: "(bytes \<Rightarrow> 'x \<Rightarrow> bool \<times> 'x) \<Rightarrow> bytes \<Rightarrow> 'x device_app \<Rightarrow> bool \<times> 'x device_app" where
  "send_over_serial write frame app =
     (case g_serial app of
        None \<Rightarrow> (False, app)
      | Some port \<Rightarrow> let (ok, port) = write frame port in (ok, app\<lparr>g_serial := Some port\<rparr>))"

type_synonym 'x device_core = "(unit, unit, device_handler, 'x device_app) core"
type_synonym ('x, 'w) device_stack = "(unit, unit, device_handler, 'x device_app, 'w) stack"

definition set_mit_limit_reply :: "bytes \<Rightarrow> SetMitLimitStatus" where
  "set_mit_limit_reply data =
     (if hd (get_member SetMitLimitCommand ''joint_id'' (get_member SetMitLimitRequestPacket ''payload'' data)) < 6
      then SetMitLimitStatus_Ok else SetMitLimitStatus_InvalidJoint)"

definition set_mit_limit_response :: "u32 \<Rightarrow> SetMitLimitStatus \<Rightarrow> bytes" where
  "set_mit_limit_response tx_id status =
     to_bytes SetMitLimitResponsePacket (VStruct [VU32 tx_id, VStruct [VU8 (SetMitLimitStatus_value status)]])"

definition handle_set_mit_limit :: "u16 \<Rightarrow> u32 \<Rightarrow> bytes \<Rightarrow> 'x device_core \<Rightarrow> 'x device_core" where
  "handle_set_mit_limit cmd_id tx_id data c =
     (if length data \<noteq> sizeof SetMitLimitRequestPacket then c
      else snd (send_response_and_cache PacketTraits_SetMitLimitRequestPacket PacketTraits_SetMitLimitResponsePacket tx_id
             (set_mit_limit_response tx_id (set_mit_limit_reply data)) c))"

definition device_env ::
  "(bytes \<Rightarrow> 'x \<Rightarrow> bool \<times> 'x) \<Rightarrow> ((unit, unit) session \<Rightarrow> u32 list)
     \<Rightarrow> (unit, unit, device_handler, 'x device_app) stack_env" where
  "device_env write order =
     \<lparr>e_packets = serial_packets,
      run_handler = (\<lambda>h. case h of Handle_Set_Mit_Limit \<Rightarrow> handle_set_mit_limit),
      run_callback = (\<lambda>cb c. c), pending_order = order, send_frame = Some (send_over_serial write)\<rparr>"

definition device_init :: "(nat \<Rightarrow> int) \<Rightarrow> 'x \<Rightarrow> ('x, 'w::len word) device_stack" where
  "device_init clock port =
     (let st = stack_init serial_packets (serial_session_config\<lparr>device_cache_capacity := 64\<rparr>) clock \<lparr>g_serial = Some port\<rparr>
      in st\<lparr>st_core := register_handler (pt_cmd PacketTraits_SetMitLimitRequestPacket) (Some Handle_Set_Mit_Limit) (st_core st)\<rparr>)"

text \<open>The body of the endless loop: what \<open>on_data\<close> fed since the last turn, then one cycle.\<close>

definition device_turn ::
  "(bytes \<Rightarrow> 'x \<Rightarrow> bool \<times> 'x) \<Rightarrow> ((unit, unit) session \<Rightarrow> u32 list) \<Rightarrow> bytes
     \<Rightarrow> ('x, 'w::len word) device_stack \<Rightarrow> (fault + ('x, 'w word) device_stack) option" where
  "device_turn write order data st =
     run_one_cycle (stack_config (device_env write order)) (device_env write order) (isr_feed data st)"

section \<open>The host\<close>

record 'x host_app =
  h_serial :: "'x option"
  h_done :: bool
  h_success :: bool

datatype host_response = On_Response
datatype host_error = On_Error

type_synonym 'x host_core = "(host_response, host_error, unit, 'x host_app) core"
type_synonym ('x, 'w) host_stack = "(host_response, host_error, unit, 'x host_app, 'w) stack"

definition host_send_frame :: "(bytes \<Rightarrow> 'x \<Rightarrow> bool \<times> 'x) \<Rightarrow> bytes \<Rightarrow> 'x host_app \<Rightarrow> bool \<times> 'x host_app" where
  "host_send_frame write frame app =
     (case h_serial app of
        None \<Rightarrow> (False, app)
      | Some port \<Rightarrow> let (ok, port) = write frame port in (ok, app\<lparr>h_serial := Some port\<rparr>))"

definition host_on_response :: "bytes \<Rightarrow> 'x host_app \<Rightarrow> 'x host_app" where
  "host_on_response data app =
     (let app = (if length data = sizeof SetMitLimitResponsePacket
                 then app\<lparr>h_success := hd (get_member SetMitLimitResponse ''status''
                        (get_member SetMitLimitResponsePacket ''payload'' data)) = SetMitLimitStatus_value SetMitLimitStatus_Ok\<rparr>
                 else app)
      in app\<lparr>h_done := True\<rparr>)"

definition host_on_error :: "'x host_app \<Rightarrow> 'x host_app" where
  "host_on_error app = app\<lparr>h_success := False, h_done := True\<rparr>"

definition host_callback :: "(host_response, host_error) callback \<Rightarrow> 'x host_core \<Rightarrow> 'x host_core" where
  "host_callback cb c =
     (case cb of
        Call_Response On_Response data \<Rightarrow> c\<lparr>c_user := host_on_response data (c_user c)\<rparr>
      | Call_Error On_Error err \<Rightarrow> c\<lparr>c_user := host_on_error (c_user c)\<rparr>)"

definition host_env ::
  "(bytes \<Rightarrow> 'x \<Rightarrow> bool \<times> 'x) \<Rightarrow> ((host_response, host_error) session \<Rightarrow> u32 list)
     \<Rightarrow> (host_response, host_error, unit, 'x host_app) stack_env" where
  "host_env write order =
     \<lparr>e_packets = serial_packets, run_handler = (\<lambda>h cmd tx data c. c), run_callback = host_callback,
      pending_order = order, send_frame = Some (host_send_frame write)\<rparr>"

definition host_init :: "(nat \<Rightarrow> int) \<Rightarrow> 'x \<Rightarrow> ('x, 'w::len word) host_stack" where
  "host_init clock port =
     stack_init serial_packets serial_session_config clock \<lparr>h_serial = Some port, h_done = False, h_success = False\<rparr>"

definition set_mit_limit_command :: "u8 \<Rightarrow> u32 \<Rightarrow> u32 \<Rightarrow> bytes" where
  "set_mit_limit_command joint torque velocity = to_bytes SetMitLimitCommand (VStruct [VU8 joint, VF32 torque, VF32 velocity])"

text \<open>The command line of \<open>main\<close>: joint 2, 12.0 Nm and 6.28 rad/s as IEEE-754 words.\<close>

definition host_command :: bytes where
  "host_command = set_mit_limit_command 2 0x41400000 0x40C8F5C3"

definition host_send :: "bytes \<Rightarrow> ('x, 'w) host_stack \<Rightarrow> ('x, 'w) host_stack" where
  "host_send payload st =
     st\<lparr>st_core := snd (send PacketTraits_SetMitLimitRequestPacket PacketTraits_SetMitLimitResponsePacket payload
        (Some On_Response) (Some On_Error) 200000 3 (st_core st))\<rparr>"

text \<open>
  The loop of \<open>main\<close>, at most \<open>n\<close> turns. \<open>sleep\<close> is what happens to the world \<open>'d\<close> and to the receive ring
  while the thread sleeps.
\<close>

fun host_loop ::
  "nat \<Rightarrow> (host_response, host_error, unit, 'x host_app) stack_env
     \<Rightarrow> (('x, 'w::len word) host_stack \<times> 'd \<Rightarrow> (fault + ('x, 'w word) host_stack \<times> 'd) option)
     \<Rightarrow> ('x, 'w word) host_stack \<times> 'd \<Rightarrow> (fault + ('x, 'w word) host_stack \<times> 'd) option" where
  "host_loop 0 env sleep (st, d) = Some (Inr (st, d))"
| "host_loop (Suc n) env sleep (st, d) =
     (if h_done (c_user (st_core st)) then Some (Inr (st, d))
      else case run_one_cycle (stack_config env) env st of
             None \<Rightarrow> None
           | Some (Inl f) \<Rightarrow> Some (Inl f)
           | Some (Inr st) \<Rightarrow>
               (case sleep (st, d) of
                  None \<Rightarrow> None
                | Some (Inl f) \<Rightarrow> Some (Inl f)
                | Some (Inr (st, d)) \<Rightarrow> host_loop n env sleep (st, d)))"

definition exit_code :: "'x host_app \<Rightarrow> int" where
  "exit_code app = (if \<not> h_done app then 1 else if \<not> h_success app then 1 else 0)"

definition host_main ::
  "(host_response, host_error, unit, 'x host_app) stack_env
     \<Rightarrow> (('x, 'w::len word) host_stack \<times> 'd \<Rightarrow> (fault + ('x, 'w word) host_stack \<times> 'd) option)
     \<Rightarrow> bytes \<Rightarrow> (nat \<Rightarrow> int) \<Rightarrow> 'x \<Rightarrow> 'd \<Rightarrow> (fault + int) option" where
  "host_main env sleep payload clock port d =
     map_option (map_sum id (\<lambda>(st, d). exit_code (c_user (st_core st))))
       (host_loop 1000 env sleep (host_send payload (host_init clock port), d))"

end
