(* ===== verification/Serial_Turns.thy ===== *)
theory Serial_Turns
  imports Serial_Example
begin

text \<open>
  The turns of the two example programs: what one turn of the device's loop does with the requests that have
  come in, and one cycle of the host with what has come back, be it nothing.
\<close>

section \<open>The packet list of the examples\<close>

lemma default_serial_packets: "default_packets serial_packets"
  by (simp add: default_packets_def serial_packets_def traits_defs layout_defs)

lemma dispatched_serial_packets: "dispatched serial_packets"
  by (simp add: dispatched_def serial_packets_def traits_defs)

lemma max_frame_size_serial: "max_frame_size serial_packets = 22"
  by (simp add: max_frame_size_def frame_size_def serial_packets_def traits_defs layout_defs)

lemma buffer_size_serial: "calculate_buffer_size serial_packets = 128"
  by (simp add: calculate_buffer_size_def calculate_max_frame_size_eq max_frame_size_serial bit_ceil_def
      numeral_eq_Suc)

lemma stack_packets_serial: "stack_packets serial_packets"
  by (simp add: stack_packets_def default_serial_packets, simp add: frame_size_def MAX_FRAME_SIZE_def MAX_PACKET_SIZE_def
      serial_packets_def traits_defs layout_defs)

lemma serial_stack_idle:
  "e_packets env = serial_packets \<Longrightarrow> 12 < LENGTH('w::len) \<Longrightarrow>
     stack_idle env 42 (stack_init serial_packets config clock u :: ('r, 'e, 'h, 'u, 'w word) stack)"
  by (rule stack_init_idle)
    (simp_all add: default_serial_packets dispatched_serial_packets max_frame_size_serial buffer_size_serial)

abbreviation "Req \<equiv> PacketTraits_SetMitLimitRequestPacket"
abbreviation "Rsp \<equiv> PacketTraits_SetMitLimitResponsePacket"

lemma set_mit_limit_traits [simp]:
  "pt_cmd Req = 0x6103" "pt_size Req = 13" "pt_type Req = SetMitLimitRequestPacket" "pt_protocol Req = DefaultProtocol"
  "pt_cmd Rsp = 0x6104" "pt_size Rsp = 5" "pt_type Rsp = SetMitLimitResponsePacket" "pt_protocol Rsp = DefaultProtocol"
  by (simp_all add: traits_defs layout_defs)

lemma Req_tx_packet [simp]: "tx_packet Req" and Rsp_tx_packet [simp]: "tx_packet Rsp"
  by (simp_all add: tx_packet_def SetMitLimitRequestPacket_def SetMitLimitResponsePacket_def)

lemma serial_packets_members [simp]:
  "Req \<in> set serial_packets" "Rsp \<in> set serial_packets" "PacketTraits_AckPacket \<in> set serial_packets"
  by (simp_all add: serial_packets_def)

lemma length_command [simp]: "length (set_mit_limit_command j t v) = 9"
  by (simp add: set_mit_limit_command_def SetMitLimitCommand_def)

lemma response_bytes_eq: "set_mit_limit_response tx st = le_bytes 4 tx @ [SetMitLimitStatus_value st]"
  by (simp add: set_mit_limit_response_def layout_defs SetMitLimitStatus_type_def)

lemma reply_of_command:
  "set_mit_limit_reply (le_bytes 4 tx @ set_mit_limit_command j t v) =
     (if j < 6 then SetMitLimitStatus_Ok else SetMitLimitStatus_InvalidJoint)"
  by (simp add: set_mit_limit_reply_def get_member_def layout_defs mem_read_def set_mit_limit_command_def)

lemma host_on_response_response:
  "host_on_response (le_bytes 4 tx @ [SetMitLimitStatus_value st]) app =
     app\<lparr>h_done := True, h_success := st = SetMitLimitStatus_Ok\<rparr>"
  by (cases st) (simp_all add: host_on_response_def get_member_def layout_defs mem_read_def SetMitLimitStatus_type_def Let_def)

section \<open>Feeding and idling\<close>

lemma isr_feed_Nil: "stack_ready env N st \<Longrightarrow> isr_feed [] st = st"
proof -
  assume "stack_ready env N st"
  then have inv: "isr_inv (st_rx_ring st)" by (simp add: stack_ready_def)
  have "ring_put buf wi [] = buf" if "wi < length buf" for buf :: bytes and wi
    using that by (simp add: ring_put_def mem_write_def)
  moreover have "unat (rb_write_idx (st_rx_ring st)) mod rb_capacity (st_rx_ring st) < rb_capacity (st_rx_ring st)"
    using isr_capacity_bounds [OF inv] by simp
  ultimately show ?thesis by (simp add: isr_feed_def isr_write_cases [OF inv])
qed

lemma sent_bytes_append [simp]: "sent_bytes (ms @ ms') = sent_bytes ms @ sent_bytes ms'"
  by (simp add: sent_bytes_def)

lemma sent_bytes_Cons [simp]: "sent_bytes ((noise, seq, p) # ms) = noise @ packet_frame seq p @ sent_bytes ms"
  by (simp add: sent_bytes_def)

lemma sent_ok_append [simp]: "sent_ok Ts (ms @ ms') \<longleftrightarrow> sent_ok Ts ms \<and> sent_ok Ts ms'"
  by (simp add: sent_ok_def)

lemma received_more:
  assumes rc: "received env N ms st" and ok: "sent_ok (e_packets env) ms'"
    and len: "length (sent_bytes (ms @ ms')) \<le> min 256 (calculate_buffer_size (e_packets env))"
  shows "received env N (ms @ ms') (isr_feed (sent_bytes ms') st)" and "st_core (isr_feed (sent_bytes ms') st) = st_core st"
proof -
  let ?r = "st_rx_ring st"
  have inv: "isr_inv ?r" and cap: "rb_capacity ?r = 4096" and e: "isr_contents ?r = sent_bytes ms"
    and p: "bip_contents (buffer (st_parser st)) = []" "bip_size (buffer (st_parser st)) = calculate_buffer_size (e_packets env)"
    using rc by (simp_all add: received_def stack_ready_def)
  obtain ok r' where w: "isr_write (sent_bytes ms') ?r = (ok, r')" by fastforce
  have av: "isr_available ?r = length (sent_bytes ms)" using e by (metis length_isr_contents)
  have "length (sent_bytes ms) + length (sent_bytes ms') \<le> 256" using len by simp
  then have "length (sent_bytes ms') \<le> rb_capacity ?r - isr_available ?r" unfolding cap av by linarith
  from isr_write_accepted [OF inv this w] have r': "isr_inv r'" "isr_contents r' = sent_bytes (ms @ ms')" "rb_capacity r' = 4096"
    by (simp_all add: e cap)
  then have "isr_available r' = length (sent_bytes (ms @ ms'))" by (metis length_isr_contents)
  then show "received env N (ms @ ms') (isr_feed (sent_bytes ms') st)" using rc ok len r' w p
    by (auto simp: isr_feed_def received_def stack_ready_def rx_fits_def)
qed (simp add: isr_feed_def)

lemma idle_pump:
  assumes "m_outbound_queue (c_session c) = []"
    and "\<And>k p. m_pending_by_tx (c_session c) k = Some p \<Longrightarrow> \<not> entry_expired (c_clock c (c_ticks c + 1)) p"
  shows "handle_session_retries env (handle_session_outbound env c) =
    Inr (c\<lparr>c_ticks := c_ticks c + 2 + length (pending_order env (c_session c))\<rparr>)"
proof -
  let ?c = "c\<lparr>c_ticks := c_ticks c + 1\<rparr>"
  have "handle_session_retries env ?c = Inr (?c\<lparr>c_ticks := c_ticks ?c + 1 + length (pending_order env (c_session ?c))\<rparr>)"
    by (rule handle_session_retries_idle) (use assms(2) in simp)
  then show ?thesis by (simp add: handle_session_outbound_idle [OF assms(1)])
qed

text \<open>The messages the programs exchange: sequence number, traits, packet.\<close>

type_synonym message = "u8 \<times> packet_traits \<times> bytes"

fun msg_entry :: "message \<Rightarrow> TxEntry" where
  "msg_entry (seq, T, packet) = entry seq T packet"

abbreviation plain :: "message list \<Rightarrow> sent list" where
  "plain ms \<equiv> map (Pair []) ms"

abbreviation msg_bytes :: "message list \<Rightarrow> bytes" where
  "msg_bytes ms \<equiv> sent_bytes (plain ms)"

lemma msg_bytes_Cons: "msg_bytes (m # ms) = te_frame (msg_entry m) @ msg_bytes ms"
  by (cases m) (simp add: sent_bytes_def)

section \<open>The port\<close>

definition wire :: "bytes \<Rightarrow> bytes \<Rightarrow> bool \<times> bytes" where
  "wire frame port = (True, port @ frame)"

lemma device_env_simps [simp]:
  "e_packets (device_env write order) = serial_packets" "send_frame (device_env write order) = Some (send_over_serial write)"
  "run_handler (device_env write order) Handle_Set_Mit_Limit = handle_set_mit_limit"
  "pending_order (device_env write order) = order"
  by (simp_all add: device_env_def)

lemma host_env_simps [simp]:
  "e_packets (host_env write order) = serial_packets" "send_frame (host_env write order) = Some (host_send_frame write)"
  "run_callback (host_env write order) = host_callback" "pending_order (host_env write order) = order"
  by (simp_all add: host_env_def)

lemma device_drain:
  assumes "g_serial (c_user c) = Some port"
  shows "drain_tx (device_env wire order) c =
    (case c_tx_queue c of
       [] \<Rightarrow> c
     | e # q \<Rightarrow> c\<lparr>c_tx_queue := q, c_user := (c_user c)\<lparr>g_serial := Some (port @ te_frame e)\<rparr>\<rparr>)"
  using assms by (auto simp: drain_tx_def send_over_serial_def wire_def Let_def split: list.split)

lemma host_drain:
  assumes "h_serial (c_user c) = Some port"
  shows "drain_tx (host_env wire order) c =
    (case c_tx_queue c of
       [] \<Rightarrow> c
     | e # q \<Rightarrow> c\<lparr>c_tx_queue := q, c_user := (c_user c)\<lparr>h_serial := Some (port @ te_frame e)\<rparr>\<rparr>)"
  using assms by (auto simp: drain_tx_def host_send_frame_def wire_def Let_def split: list.split)

section \<open>The device's turns\<close>

text \<open>The requests that have come in, as often as they were sent, and the messages that answer them.\<close>

abbreviation "request_of j t v \<equiv> le_bytes 4 (1 :: u32) @ set_mit_limit_command j t v"

definition copies :: "bytes \<Rightarrow> u8 list \<Rightarrow> message list" where
  "copies request seqs = map (\<lambda>seq. (seq, Req, request)) seqs"

abbreviation ack_msg :: "u8 \<Rightarrow> message" where
  "ack_msg seq \<equiv> (seq, PacketTraits_AckPacket, ack_bytes 1 0x6103)"

abbreviation rsp_msg :: "SetMitLimitStatus \<Rightarrow> u8 \<Rightarrow> message" where
  "rsp_msg status seq \<equiv> (seq, Rsp, set_mit_limit_response 1 status)"

definition answers :: "SetMitLimitStatus \<Rightarrow> message list \<Rightarrow> bool" where
  "answers status ms \<longleftrightarrow> (\<forall>m\<in>set ms. \<exists>seq. m = ack_msg seq \<or> m = rsp_msg status seq)"

abbreviation verdict_of :: "u8 \<Rightarrow> SetMitLimitStatus" where
  "verdict_of j \<equiv> (if j < 6 then SetMitLimitStatus_Ok else SetMitLimitStatus_InvalidJoint)"

lemma answers_Cons [simp]:
  "answers status (m # ms) \<longleftrightarrow> (\<exists>seq. m = ack_msg seq \<or> m = rsp_msg status seq) \<and> answers status ms"
  by (auto simp: answers_def)

lemma answers_Nil [simp]: "answers status []"
  by (simp add: answers_def)

lemma answers_append [simp]: "answers status (ms @ ms') \<longleftrightarrow> answers status ms \<and> answers status ms'"
  by (auto simp: answers_def)

lemma answers_take: "answers status ms \<Longrightarrow> answers status (take n ms)"
  by (auto simp: answers_def dest: in_set_takeD)

lemma answers_sent:
  assumes "answers status ms"
  shows "sent_ok serial_packets (plain ms)" and "length (msg_bytes ms) \<le> 16 * length ms"
  using assms by (induction ms) (auto simp: sent_ok_def msg_bytes_Cons response_bytes_eq packet_frame_def)

lemma copies_sent:
  "length request = 13 \<Longrightarrow> sent_ok serial_packets (plain (copies request seqs))"
  "length request = 13 \<Longrightarrow> length (msg_bytes (copies request seqs)) = 22 * length seqs"
  by (induction seqs) (simp_all add: copies_def sent_ok_def msg_bytes_Cons packet_frame_def)

text \<open>A device with nothing of its own to send and its handler registered.\<close>

definition device_core :: "bytes device_core \<Rightarrow> bool" where
  "device_core c \<longleftrightarrow> c_bound c \<and> c_handlers c 0x6103 = Some (Some Handle_Set_Mit_Limit) \<and>
     m_outbound_queue (c_session c) = [] \<and> m_pending_by_tx (c_session c) = Map.empty"

lemma device_pump:
  assumes "device_core c" and "g_serial (c_user c) = Some port"
  shows "\<exists>t c'. handle_session_retries (device_env wire order) (handle_session_outbound (device_env wire order) c) = Inr c' \<and>
    drain_tx (device_env wire order) c' =
    (case c_tx_queue c of
       [] \<Rightarrow> c\<lparr>c_ticks := t\<rparr>
     | e # q \<Rightarrow> c\<lparr>c_ticks := t, c_tx_queue := q, c_user := (c_user c)\<lparr>g_serial := Some (port @ te_frame e)\<rparr>\<rparr>)"
proof -
  let ?env = "device_env wire order" and ?t = "c_ticks c + 2 + length (order (c_session c))"
  have "handle_session_retries ?env (handle_session_outbound ?env c) = Inr (c\<lparr>c_ticks := ?t\<rparr>)"
    using assms idle_pump [of c ?env] by (simp add: device_core_def)
  then show ?thesis using assms
    by (intro exI [of _ ?t] exI [of _ "c\<lparr>c_ticks := ?t\<rparr>"]) (simp add: device_drain [where port = port] split: list.split)
qed

lemma device_cycle:
  assumes rc: "received (device_env wire order) 42 ms d"
    and c: "c = fold (\<lambda>(noise, seq, T, packet). dispatch_after_parse (device_env wire order) T packet) ms (st_core d)"
    and core: "device_core c" and port: "g_serial (c_user c) = Some port"
  shows "\<exists>d' t. device_turn wire order [] d = Some (Inr d') \<and> stack_idle (device_env wire order) 42 d' \<and>
    st_core d' = (case c_tx_queue c of
       [] \<Rightarrow> c\<lparr>c_ticks := t\<rparr>
     | e # q \<Rightarrow> c\<lparr>c_ticks := t, c_tx_queue := q, c_user := (c_user c)\<lparr>g_serial := Some (port @ te_frame e)\<rparr>\<rparr>)"
proof -
  have "isr_feed [] d = d" using rc isr_feed_Nil by (auto simp: received_def)
  then show ?thesis
    using cycle_received [OF rc] device_pump [OF core port, of order] unfolding device_turn_def c [symmetric] by fastforce
qed


abbreviation "req_key \<equiv> compose_dedup_key 0x6103 1"
abbreviation "rsp_key \<equiv> compose_dedup_key 0x6104 1"

text \<open>Before the first request, and after it has been handled.\<close>

definition device_fresh :: "bytes device_core \<Rightarrow> bool" where
  "device_fresh c \<longleftrightarrow> device_core c \<and> c_tx_queue c = [] \<and> g_serial (c_user c) = Some [] \<and>
     seen_ring c = id_ring_init 64 \<and> m_completed_order (c_session c) = [] \<and> device_cache_capacity (m_config (c_session c)) = 64"

definition served :: "SetMitLimitStatus \<Rightarrow> bytes device_core \<Rightarrow> bool" where
  "served status c \<longleftrightarrow> device_core c \<and> test_and_insert req_key (seen_ring c) = (True, seen_ring c) \<and>
     (\<exists>seq. m_completed_cache (c_session c) req_key =
        Some \<lparr>cr_response_cmd = 0x6104, cr_response_bytes = packet_frame seq (Rsp, set_mit_limit_response 1 status)\<rparr>)"

lemma Req_reliable: "reliable_request Req"
  by (simp add: reliable_request_def is_request_cmd_def ACK_CMD_def)

lemma fresh_ring:
  assumes "k \<noteq> (0 :: u64)"
  obtains ring where "test_and_insert k (id_ring_init 64) = (False, ring)" and "test_and_insert k ring = (True, ring)"
proof -
  have inv: "id_ring_inv (id_ring_init (2 ^ 6) :: u64 id_ring)" by (rule id_ring_init_inv)
  have new: "k \<notin> set (id_ring_window (id_ring_init (2 ^ 6)))" using assms by (simp add: id_ring_init_def)
  obtain ring where r: "test_and_insert k (id_ring_init (2 ^ 6)) = (False, ring)" using idr.tai_fresh [OF inv new] by blast
  have "fst (test_and_insert k ring)" using idr.recognised_after_fresh [OF inv new, of "[]"] r by (simp add: id_ring_init_def)
  then have "test_and_insert k ring = (True, ring)" by (simp add: test_and_insert_def split: if_splits)
  with that r show thesis by simp
qed

lemma first_copy:
  assumes fresh: "device_fresh c"
  shows "\<exists>a b c'. dispatch_after_parse (device_env wire order) Req (request_of j t v) c = c' \<and> served (verdict_of j) c' \<and>
    c_tx_queue c' = map msg_entry [ack_msg a, rsp_msg (verdict_of j) b] \<and> c_user c' = c_user c"
proof -
  let ?rsp = "set_mit_limit_response 1 (verdict_of j)" and ?env = "device_env wire order"
  have core: "device_core c" "c_bound c" and q: "c_tx_queue c = []" and seen: "seen_ring c = id_ring_init 64"
    using fresh by (simp_all add: device_fresh_def device_core_def)
  have "req_key \<noteq> 0" by (rule compose_dedup_key_nonzero) simp
  then obtain ring where ring: "test_and_insert req_key (id_ring_init 64) = (False, ring)" "test_and_insert req_key ring = (True, ring)"
    by (rule fresh_ring)
  let ?s = "(c_session c)\<lparr>m_seen_requests := ring\<rparr>"
  let ?a = "posted PacketTraits_AckPacket (ack_bytes 1 0x6103) (c\<lparr>c_session := ?s\<rparr>)"
  have ack: "enqueue_ack 1 0x6103 (c\<lparr>c_session := ?s\<rparr>) = ?a" by (rule enqueue_ack_posted) (simp add: q TX_QUEUE_CAP_def)
  have fits: "fits_frame Rsp" by (simp add: fits_frame_def MAX_FRAME_SIZE_def)
  let ?c = "(posted Rsp ?rsp ?a)\<lparr>c_session := cache_response 0x6103 1 0x6104 (packet_frame (c_sequence ?a) (Rsp, ?rsp)) (c_session ?a)\<rparr>"
  have send: "send_response_and_cache Req Rsp 1 ?rsp ?a = (True, ?c)"
    using send_response_posted [OF fits, of ?rsp ?a Req 1] q by (simp add: response_bytes_eq TX_QUEUE_CAP_def)
  have "dispatch_after_parse ?env Req (request_of j t v) c = handle_set_mit_limit 0x6103 1 (request_of j t v) ?a"
    using dispatch_request [OF _ _ Req_reliable core(2), of ?env "set_mit_limit_command j t v" 1 False ring]
      default_serial_packets core(1) ring(1) ack seen
    by (simp add: call_handler_def device_core_def Let_def)
  also have "\<dots> = ?c" using send by (simp add: handle_set_mit_limit_def reply_of_command layout_defs)
  finally have d: "dispatch_after_parse ?env Req (request_of j t v) c = ?c" .
  have "served (verdict_of j) ?c" using fresh core(1) ring(2)
    by (auto simp: served_def device_core_def device_fresh_def cache_response_def Let_def shrink_device_cache_eq
        response_bytes_eq packet_frame_def MAX_PACKET_SIZE_def)
  then show ?thesis using d q
    by (intro exI [of _ "c_sequence c"] exI [of _ "c_sequence c + 1"] exI [of _ ?c]) simp
qed

lemma later_copy:
  assumes c: "served status c" and room: "length (c_tx_queue c) + 2 \<le> 16"
  shows "\<exists>a b c'. dispatch_after_parse (device_env wire order) Req (request_of j t v) c = c' \<and> served status c' \<and>
    c_tx_queue c' = c_tx_queue c @ map msg_entry [ack_msg a, rsp_msg status b] \<and> c_user c' = c_user c"
proof -
  let ?env = "device_env wire order"
  obtain seq where cached: "m_completed_cache (c_session c) req_key =
      Some \<lparr>cr_response_cmd = 0x6104, cr_response_bytes = packet_frame seq (Rsp, set_mit_limit_response 1 status)\<rparr>"
    using c by (auto simp: served_def)
  have b: "c_bound c" and ring: "test_and_insert req_key (seen_ring c) = (True, seen_ring c)"
    using c by (simp_all add: served_def device_core_def)
  let ?a = "posted PacketTraits_AckPacket (ack_bytes 1 0x6103) c"
  let ?c = "?a\<lparr>c_tx_queue := c_tx_queue ?a @ [entry seq Rsp (set_mit_limit_response 1 status)]\<rparr>"
  have "c\<lparr>c_session := (c_session c)\<lparr>m_seen_requests := seen_ring c\<rparr>\<rparr> = c" by simp
  moreover have "enqueue_ack 1 0x6103 c = ?a" by (rule enqueue_ack_posted) (use room in \<open>simp add: TX_QUEUE_CAP_def\<close>)
  moreover have "length (packet_frame seq (Rsp, set_mit_limit_response 1 status)) \<le> MAX_FRAME_SIZE"
    by (simp add: response_bytes_eq packet_frame_def MAX_FRAME_SIZE_def)
  then have "snd (enqueue_prebuilt_frame (packet_frame seq (Rsp, set_mit_limit_response 1 status)) True ?a) = ?c"
    using room by (simp add: enqueue_prebuilt_frame_def TX_QUEUE_CAP_def entry_def is_telemetry_packet_frame Let_def)
  moreover have "packet_frame seq (Rsp, set_mit_limit_response 1 status) \<noteq> []"
    by (simp add: packet_frame_def flip: length_greater_0_conv)
  ultimately have "dispatch_after_parse ?env Req (request_of j t v) c = ?c"
    using dispatch_request [OF _ _ Req_reliable b, of ?env "set_mit_limit_command j t v" 1 True "seen_ring c"]
      default_serial_packets ring cached by (simp add: resend_cached_def Let_def)
  moreover have "served status ?c" using c by (simp add: served_def device_core_def)
  ultimately show ?thesis by (intro exI [of _ "c_sequence c"] exI [of _ seq] exI [of _ ?c]) simp
qed

lemma later_copies:
  "served status c \<Longrightarrow> length (c_tx_queue c) + 2 * length seqs \<le> 16 \<Longrightarrow>
     \<exists>rest c'. fold (\<lambda>(noise, seq, T, packet). dispatch_after_parse (device_env wire order) T packet)
         (plain (copies (request_of j t v) seqs)) c = c' \<and>
       served status c' \<and> c_tx_queue c' = c_tx_queue c @ map msg_entry rest \<and> answers status rest \<and>
       length rest = 2 * length seqs \<and> c_user c' = c_user c"
proof (induction seqs arbitrary: c)
  case Nil
  then show ?case by (auto simp: copies_def)
next
  case (Cons s seqs)
  let ?f = "\<lambda>(noise, seq, T, packet). dispatch_after_parse (device_env wire order) T packet"
  obtain a b c1 where c1: "dispatch_after_parse (device_env wire order) Req (request_of j t v) c = c1" "served status c1"
      "c_tx_queue c1 = c_tx_queue c @ map msg_entry [ack_msg a, rsp_msg status b]" "c_user c1 = c_user c"
    using later_copy [OF Cons.prems(1)] Cons.prems(2) by fastforce
  have "length (c_tx_queue c1) + 2 * length seqs \<le> 16" using Cons.prems(2) by (simp add: c1(3))
  from Cons.IH [OF c1(2) this] obtain rest c2 where c2: "fold ?f (plain (copies (request_of j t v) seqs)) c1 = c2"
      "served status c2" "c_tx_queue c2 = c_tx_queue c1 @ map msg_entry rest" "answers status rest"
      "length rest = 2 * length seqs" "c_user c2 = c_user c1" by blast
  then show ?case using c1 by (intro exI [of _ "ack_msg a # rsp_msg status b # rest"] exI [of _ c2]) (auto simp: copies_def)
qed

text \<open>
  A device that has not turned on the copies \<open>seqs\<close> of the request that have come in; and one with nothing to
  read, with the messages \<open>out\<close> written to the port and \<open>ms\<close> still queued.
\<close>

definition device_has ::
  "((unit, unit) session \<Rightarrow> u32 list) \<Rightarrow> bytes \<Rightarrow> u8 list \<Rightarrow> (bytes, 'w::len word) device_stack \<Rightarrow> bool" where
  "device_has order request seqs d \<longleftrightarrow>
     received (device_env wire order) 42 (plain (copies request seqs)) d \<and> device_fresh (st_core d)"

definition device_at ::
  "((unit, unit) session \<Rightarrow> u32 list) \<Rightarrow> message list \<Rightarrow> message list \<Rightarrow> (bytes, 'w::len word) device_stack \<Rightarrow> bool" where
  "device_at order out ms d \<longleftrightarrow>
     stack_idle (device_env wire order) 42 d \<and> device_core (st_core d) \<and>
     c_tx_queue (st_core d) = map msg_entry ms \<and> g_serial (c_user (st_core d)) = Some (msg_bytes out)"

lemma device_turn_copies:
  assumes d: "device_has order (request_of j t v) (s # seqs) d" and few: "length seqs \<le> 3"
  shows "\<exists>a b rest d'. device_turn wire order [] d = Some (Inr d') \<and>
    device_at order [ack_msg a] (rsp_msg (verdict_of j) b # rest) d' \<and> answers (verdict_of j) rest \<and> length rest = 2 * length seqs"
proof -
  let ?f = "\<lambda>(noise, seq, T, packet). dispatch_after_parse (device_env wire order) T packet" and ?c = "st_core d"
  have rc: "received (device_env wire order) 42 (plain (copies (request_of j t v) (s # seqs))) d" and fresh: "device_fresh ?c"
    using d by (simp_all add: device_has_def)
  obtain a b c1 where c1: "dispatch_after_parse (device_env wire order) Req (request_of j t v) ?c = c1" "served (verdict_of j) c1"
      "c_tx_queue c1 = map msg_entry [ack_msg a, rsp_msg (verdict_of j) b]" "c_user c1 = c_user ?c"
    using first_copy [OF fresh] by blast
  have "length (c_tx_queue c1) + 2 * length seqs \<le> 16" using few by (simp add: c1(3))
  from later_copies [OF c1(2) this] obtain rest c2 where c2: "fold ?f (plain (copies (request_of j t v) seqs)) c1 = c2"
      "served (verdict_of j) c2" "c_tx_queue c2 = c_tx_queue c1 @ map msg_entry rest" "answers (verdict_of j) rest"
      "length rest = 2 * length seqs" "c_user c2 = c_user c1" by blast
  have "c2 = fold ?f (plain (copies (request_of j t v) (s # seqs))) ?c" using c1(1) c2(1) by (simp add: copies_def)
  moreover have "device_core c2" "g_serial (c_user c2) = Some []"
    using c2 c1(4) fresh by (simp_all add: served_def device_fresh_def)
  ultimately obtain d' where "device_turn wire order [] d = Some (Inr d')" "device_at order [ack_msg a] (rsp_msg (verdict_of j) b # rest) d'"
    using device_cycle [OF rc, of c2 "[]"] c1(3) c2(3) by (auto simp: device_at_def device_core_def msg_bytes_Cons)
  then show ?thesis using c2(4,5) by blast
qed

lemma device_turn_idle:
  assumes d: "device_at order out ms d"
  shows "\<exists>d'. device_turn wire order [] d = Some (Inr d') \<and> device_at order (out @ take 1 ms) (drop 1 ms) d'"
proof -
  have "stack_idle (device_env wire order) 42 d" using d by (simp add: device_at_def)
  from device_cycle [OF received_nothing [OF this] refl] d show ?thesis
    by (cases ms) (auto simp: device_at_def device_core_def msg_bytes_Cons)
qed

lemma device_turn_none:
  assumes d: "device_has order request [] d"
  shows "\<exists>d'. device_turn wire order [] d = Some (Inr d') \<and> device_has order request [] d'"
proof -
  have rc: "received (device_env wire order) 42 [] d" and fresh: "device_fresh (st_core d)"
    using d by (simp_all add: device_has_def copies_def)
  then obtain d' t where d': "device_turn wire order [] d = Some (Inr d')" "stack_idle (device_env wire order) 42 d'"
      "st_core d' = (st_core d)\<lparr>c_ticks := t\<rparr>"
    using device_cycle [OF rc refl, of "[]"] by (auto simp: device_fresh_def)
  then show ?thesis using fresh received_nothing [OF d'(2)]
    by (auto simp: device_has_def copies_def device_fresh_def device_core_def)
qed

text \<open>\<open>n\<close> turns of the loop.\<close>

fun device_turns ::
  "((unit, unit) session \<Rightarrow> u32 list) \<Rightarrow> nat \<Rightarrow> (bytes, 'w::len word) device_stack
     \<Rightarrow> (fault + (bytes, 'w word) device_stack) option" where
  "device_turns order 0 d = Some (Inr d)"
| "device_turns order (Suc n) d =
     (case device_turn wire order [] d of
        None \<Rightarrow> None
      | Some (Inl f) \<Rightarrow> Some (Inl f)
      | Some (Inr d) \<Rightarrow> device_turns order n d)"

lemma device_turns_idle:
  "device_at order out ms d \<Longrightarrow>
     \<exists>d'. device_turns order n d = Some (Inr d') \<and> device_at order (out @ take n ms) (drop n ms) d'"
proof (induction n arbitrary: out ms d)
  case (Suc n)
  obtain d1 where d1: "device_turn wire order [] d = Some (Inr d1)" "device_at order (out @ take 1 ms) (drop 1 ms) d1"
    using device_turn_idle [OF Suc.prems] by blast
  from Suc.IH [OF this(2)] d1(1) show ?case by (cases ms) simp_all
qed simp

lemma device_turns_none:
  "device_has order request [] d \<Longrightarrow> \<exists>d'. device_turns order n d = Some (Inr d') \<and> device_has order request [] d'"
proof (induction n arbitrary: d)
  case (Suc n)
  then show ?case using device_turn_none [OF Suc.prems] by fastforce
qed simp

lemma device_turns_copies:
  assumes "device_has order (request_of j t v) (s # seqs) d" and "length seqs \<le> 3"
  shows "\<exists>a b rest d'. device_turns order (Suc n) d = Some (Inr d') \<and>
    device_at order (take (Suc n) (ack_msg a # rsp_msg (verdict_of j) b # rest))
      (drop (Suc n) (ack_msg a # rsp_msg (verdict_of j) b # rest)) d' \<and>
    answers (verdict_of j) rest \<and> length rest = 2 * length seqs"
proof -
  obtain a b rest d1 where d1: "device_turn wire order [] d = Some (Inr d1)"
      "device_at order [ack_msg a] (rsp_msg (verdict_of j) b # rest) d1" "answers (verdict_of j) rest" "length rest = 2 * length seqs"
    using device_turn_copies [OF assms] by blast
  from device_turns_idle [OF this(2), of n] d1 show ?thesis by fastforce
qed

lemma device_init_has:
  "12 < LENGTH('w::len) \<Longrightarrow> device_has order request [] (device_init clock [] :: (bytes, 'w word) device_stack)"
proof -
  assume "12 < LENGTH('w)"
  then have "stack_idle (device_env wire order) 42 (stack_init serial_packets (serial_session_config\<lparr>device_cache_capacity := 64\<rparr>)
      clock \<lparr>g_serial = Some []\<rparr> :: (bytes, 'w word) device_stack)"
    by (intro serial_stack_idle) simp_all
  then have "stack_idle (device_env wire order) 42 (device_init clock [] :: (bytes, 'w word) device_stack)"
    by (simp add: device_init_def Let_def)
  from received_nothing [OF this] show ?thesis
    by (simp add: device_has_def copies_def)
      (simp add: device_init_def Let_def device_fresh_def device_core_def stack_init_def core_init_def register_handler_def
        session_init_def serial_session_config_def default_session_config_def)
qed

section \<open>The host's cycles\<close>

text \<open>The iteration order of the hash map of pending requests: its keys, each once.\<close>

definition map_order :: "(('r, 'e) session \<Rightarrow> u32 list) \<Rightarrow> bool" where
  "map_order order \<longleftrightarrow> (\<forall>s. distinct (order s) \<and> set (order s) = dom (m_pending_by_tx s))"

lemma map_order_one:
  assumes "map_order order" and "m_pending_by_tx s = [k \<mapsto> p]"
  shows "length (order s) = 1"
proof -
  have "distinct (order s)" "set (order s) = {k}" using assms by (simp_all add: map_order_def)
  then show ?thesis by (metis distinct_card card.empty card_insert_disjoint finite.emptyI empty_iff One_nat_def)
qed

text \<open>The host waits for the response to request \<open>k\<close>: the ticks of its clock read so far, the entry's deadline.\<close>

definition host_waiting :: "(nat \<Rightarrow> int) \<Rightarrow> nat \<Rightarrow> int \<Rightarrow> bytes \<Rightarrow> bytes host_core \<Rightarrow> bool" where
  "host_waiting clock ticks deadline out c \<longleftrightarrow>
     c_bound c \<and> c_clock c = clock \<and> c_ticks c = ticks \<and> c_tx_queue c = [] \<and> m_outbound_queue (c_session c) = [] \<and>
     m_seen_responses (c_session c) = id_ring_init 64 \<and>
     (\<exists>p. m_pending_by_tx (c_session c) = [1 \<mapsto> p] \<and> pe_inflight p \<and> pe_response_cmd p = 0x6104 \<and>
        pe_on_response p = Some On_Response \<and> pe_timeout p = 200000 \<and> pe_deadline p = deadline) \<and>
     c_user c = \<lparr>h_serial = Some out, h_done = False, h_success = False\<rparr>"

text \<open>The same, and which entry is pending: the request was sent \<open>r + 1\<close> times.\<close>

definition host_retrying :: "bytes \<Rightarrow> (nat \<Rightarrow> int) \<Rightarrow> nat \<Rightarrow> nat \<Rightarrow> int \<Rightarrow> bytes \<Rightarrow> bytes host_core \<Rightarrow> bool" where
  "host_retrying request clock ticks r deadline out c \<longleftrightarrow>
     host_waiting clock ticks deadline out c \<and> c_sequence c = of_nat (r + 1) \<and>
     m_pending_by_tx (c_session c) =
       [1 \<mapsto> (inflight_request 1 0x6103 0x6104 request (Some On_Response) (Some On_Error) 200000 3 deadline)
          \<lparr>pe_retry_count := of_nat r\<rparr>]"

lemma map_order_single:
  assumes "map_order order" and "m_pending_by_tx s = [k \<mapsto> p]"
  shows "order s = [k]"
proof -
  have "length (order s) = 1" "set (order s) = {k}" using map_order_one [OF assms] assms by (simp_all add: map_order_def)
  then show ?thesis by (cases "order s") auto
qed

lemma host_waiting_sent:
  "host_waiting clock n deadline out c \<Longrightarrow>
     host_waiting clock n deadline [] (c\<lparr>c_user := (c_user c)\<lparr>h_serial := Some []\<rparr>\<rparr>) \<and> h_serial (c_user c) = Some out \<and> \<not> h_done (c_user c)"
  by (simp add: host_waiting_def)

lemma host_cycle_request:
  assumes w: "12 < LENGTH('w::len)" and order: "map_order order" and time: "clock 3 < clock 1 + 200000"
    and h: "h = host_send (set_mit_limit_command j t v) (host_init clock [] :: (bytes, 'w word) host_stack)"
  shows "\<exists>h'. run_one_cycle (stack_config (host_env wire order)) (host_env wire order) h = Some (Inr h') \<and>
    stack_idle (host_env wire order) 42 h' \<and>
    host_retrying (request_of j t v) clock 5 0 (clock 1 + 200000) (msg_bytes (copies (request_of j t v) [0])) (st_core h')"
proof -
  let ?env = "host_env wire order" and ?payload = "set_mit_limit_command j t v"
  let ?c = "st_core (host_init clock [] :: (bytes, 'w word) host_stack)"
  have "stack_idle ?env 42 (host_init clock [] :: (bytes, 'w word) host_stack)"
    unfolding host_init_def by (rule serial_stack_idle [OF _ w]) simp
  then have rc: "received ?env 42 [] h" unfolding h host_send_def by (intro received_nothing) simp
  have init: "c_session ?c = session_init serial_session_config" "c_tx_queue ?c = []" "c_ticks ?c = 0" "c_clock ?c = clock"
    "c_sequence ?c = 0" "c_bound ?c" "c_user ?c = \<lparr>h_serial = Some [], h_done = False, h_success = False\<rparr>"
    by (simp_all add: host_init_def stack_init_def core_init_def)
  obtain k c1 where snd: "send Req Rsp ?payload (Some On_Response) (Some On_Error) 200000 3 ?c = (k, c1)" by fastforce
  have st: "st_core h = c1" by (simp add: h host_send_def snd)
  let ?p = "inflight_request 1 0x6103 0x6104 (request_of j t v) (Some On_Response) (Some On_Error) 200000 3 (clock 1 + 200000)"
  have k: "k = 1" and out: "handle_session_outbound ?env c1 = ?c\<lparr>c_ticks := 3, c_sequence := 1,
      c_tx_queue := [\<lparr>te_frame = packet_frame 0 (Req, request_of j t v), te_telemetry = is_telemetry_cmd 0x6103\<rparr>],
      c_session := (c_session ?c)\<lparr>m_next_tx_id := 2, m_inflight_count := 1, m_pending_by_tx := [1 \<mapsto> ?p]\<rparr>\<rparr>" (is "_ = ?c2")
    using send_transmits [OF _ _ _ _ _ _ _ snd, of ?env] stack_packets_serial init
    by (simp_all add: session_init_def serial_session_config_def TX_QUEUE_CAP_def default_session_config_def)
  have "handle_session_retries ?env ?c2 = Inr (?c2\<lparr>c_ticks := c_ticks ?c2 + 1 + length (pending_order ?env (c_session ?c2))\<rparr>)"
    by (rule handle_session_retries_idle) (use time in \<open>auto simp: init split: if_splits\<close>)
  moreover have "length (order (c_session ?c2)) = 1" by (rule map_order_one [OF order]) simp
  ultimately have "handle_session_retries ?env ?c2 = Inr (?c2\<lparr>c_ticks := 5\<rparr>)" by simp
  then obtain h' where h': "run_one_cycle (stack_config ?env) ?env h = Some (Inr h')" "stack_idle ?env 42 h'"
      "st_core h' = drain_tx ?env (?c2\<lparr>c_ticks := 5\<rparr>)"
    using cycle_received [OF rc] out by (auto simp: st)
  then have "st_core h' = ?c2\<lparr>c_ticks := 5, c_tx_queue := [], c_user := (c_user ?c)\<lparr>h_serial :=
      Some (packet_frame 0 (Req, request_of j t v))\<rparr>\<rparr>" by (simp add: init host_drain [where port = "[]"])
  then show ?thesis using h' init
    by (intro exI [of _ h']) (auto simp: host_retrying_def host_waiting_def session_init_def inflight_request_def copies_def)
qed

text \<open>A cycle that finds nothing: the request is left waiting, sent again, or given up.\<close>

lemma retry_pump:
  assumes order: "map_order order" and q: "c_tx_queue c = []" "m_outbound_queue (c_session c) = []"
    and pend: "m_pending_by_tx (c_session c) = [1 \<mapsto> p]" and p: "entry_expired (c_clock c (c_ticks c + 1)) p"
    "pe_retry_count p < pe_max_retries p" "pe_request_cmd p = 0x6103" "pe_request_bytes p = request_of j t v"
  shows "handle_session_retries (host_env wire order) (handle_session_outbound (host_env wire order) c) =
    Inr (c\<lparr>c_ticks := c_ticks c + 3, c_sequence := c_sequence c + 1,
      c_session := (c_session c)\<lparr>m_pending_by_tx := [1 \<mapsto> p\<lparr>pe_retry_count := pe_retry_count p + 1,
        pe_deadline := c_clock c (c_ticks c + 2) + pe_timeout p\<rparr>]\<rparr>,
      c_tx_queue := [\<lparr>te_frame = packet_frame (c_sequence c) (Req, request_of j t v), te_telemetry = is_telemetry_cmd 0x6103\<rparr>]\<rparr>)"
proof -
  let ?env = "host_env wire order"
  have o: "order (c_session c) = [1]" by (rule map_order_single [OF order pend])
  note T = stack_packetsD [OF stack_packets_serial serial_packets_members(1)]
  have enq: "enqueue_pending_frame serial_packets 0x6103 (request_of j t v) c' =
      (True, c'\<lparr>c_sequence := c_sequence c' + 1, c_tx_queue := c_tx_queue c' @
        [\<lparr>te_frame = packet_frame (c_sequence c') (Req, request_of j t v), te_telemetry = is_telemetry_cmd 0x6103\<rparr>]\<rparr>)"
    if "c_tx_queue c' = []" for c' :: "bytes host_core"
    using enqueue_pending_frame_default [OF T(1) serial_packets_members(1) T(2,3) _ T(4), of "request_of j t v" c'] that
    by (simp add: TX_QUEUE_CAP_def)
  show ?thesis using p
    by (simp add: handle_session_outbound_idle [OF q(2)] handle_session_retries_def o poll_def pend Let_def
        retransmit_entry_def enq q(1) not_less not_le)
qed

lemma host_cycle_quiet:
  assumes h: "stack_idle (host_env wire order) 42 h" and order: "map_order order"
    and c: "host_retrying (request_of j t v) clock n r deadline [] (st_core h)" and r: "r < 3"
  obtains h' r' deadline' port where "run_one_cycle (stack_config (host_env wire order)) (host_env wire order) h = Some (Inr h')"
    and "stack_idle (host_env wire order) 42 h'"
    and "host_retrying (request_of j t v) clock (n + 3) r' deadline' (msg_bytes (copies (request_of j t v) port)) (st_core h')"
    and "if deadline \<le> clock (n + 1) then r' = r + 1 \<and> deadline' = clock (n + 2) + 200000 \<and> port = [of_nat (r + 1)]
      else r' = r \<and> deadline' = deadline \<and> port = []"
proof -
  let ?env = "host_env wire order" and ?c = "st_core h"
  let ?p = "(inflight_request 1 0x6103 0x6104 (request_of j t v) (Some On_Response) (Some On_Error) 200000 3 deadline)
    \<lparr>pe_retry_count := of_nat r\<rparr>"
  have c': "c_tx_queue ?c = []" "m_outbound_queue (c_session ?c) = []" "m_pending_by_tx (c_session ?c) = [1 \<mapsto> ?p]"
    "c_clock ?c = clock" "c_ticks ?c = n" "c_sequence ?c = of_nat (r + 1)" "h_serial (c_user ?c) = Some []"
    using c by (simp_all add: host_retrying_def host_waiting_def)
  note cycle = cycle_received [OF received_nothing [OF h], simplified]
  show thesis
  proof (cases "deadline \<le> clock (n + 1)")
    case True
    let ?c2 = "?c\<lparr>c_ticks := n + 3, c_sequence := of_nat (r + 1) + 1,
      c_session := (c_session ?c)\<lparr>m_pending_by_tx := [1 \<mapsto> ?p\<lparr>pe_retry_count := of_nat r + 1, pe_deadline := clock (n + 2) + 200000\<rparr>]\<rparr>,
      c_tx_queue := [\<lparr>te_frame = packet_frame (of_nat (r + 1)) (Req, request_of j t v), te_telemetry = is_telemetry_cmd 0x6103\<rparr>]\<rparr>"
    have count: "(of_nat r :: u8) < 3" using r by (simp add: word_less_nat_alt unat_of_nat)
    have "handle_session_retries ?env (handle_session_outbound ?env ?c) = Inr ?c2"
      using retry_pump [OF order c'(1-3), of j t v] True count by (simp add: c' inflight_request_def)
    from cycle [OF this] obtain h' where h': "run_one_cycle (stack_config ?env) ?env h = Some (Inr h')" "stack_idle ?env 42 h'"
      "st_core h' = drain_tx ?env ?c2" by auto
    have "host_retrying (request_of j t v) clock (n + 3) (r + 1) (clock (n + 2) + 200000)
        (msg_bytes (copies (request_of j t v) [of_nat (r + 1)])) (st_core h')"
      using c by (auto simp: h'(3) host_drain [where port = "[]"] c'(7) host_retrying_def host_waiting_def inflight_request_def
          copies_def add.commute)
    from that [OF h'(1,2) this] True show thesis by simp
  next
    case False
    have "order (c_session ?c) = [1]" by (rule map_order_single [OF order c'(3)])
    moreover have "handle_session_retries ?env (handle_session_outbound ?env ?c) =
        Inr (?c\<lparr>c_ticks := c_ticks ?c + 2 + length (pending_order ?env (c_session ?c))\<rparr>)"
      by (rule idle_pump) (use c' False in \<open>auto simp: inflight_request_def split: if_splits\<close>)
    ultimately have "handle_session_retries ?env (handle_session_outbound ?env ?c) = Inr (?c\<lparr>c_ticks := n + 3\<rparr>)"
      by (simp add: c')
    from cycle [OF this] obtain h' where h': "run_one_cycle (stack_config ?env) ?env h = Some (Inr h')" "stack_idle ?env 42 h'"
      "st_core h' = drain_tx ?env (?c\<lparr>c_ticks := n + 3\<rparr>)" by auto
    have "host_retrying (request_of j t v) clock (n + 3) r deadline (msg_bytes (copies (request_of j t v) [])) (st_core h')"
      using c by (auto simp: h'(3) host_drain [where port = "[]"] c' host_retrying_def host_waiting_def copies_def)
    from that [OF h'(1,2) this] False show thesis by simp
  qed
qed

lemma host_cycle_gives_up:
  assumes h: "stack_idle (host_env wire order) 42 h" and order: "map_order order"
    and c: "host_retrying request clock n 3 deadline [] (st_core h)" and time: "deadline \<le> clock (n + 1)"
  obtains h' where "run_one_cycle (stack_config (host_env wire order)) (host_env wire order) h = Some (Inr h')"
    and "c_user (st_core h') = \<lparr>h_serial = Some [], h_done = True, h_success = False\<rparr>"
proof -
  let ?env = "host_env wire order" and ?c = "st_core h"
  let ?p = "(inflight_request 1 0x6103 0x6104 request (Some On_Response) (Some On_Error) 200000 3 deadline)
    \<lparr>pe_retry_count := of_nat 3\<rparr>"
  have c': "c_tx_queue ?c = []" "m_outbound_queue (c_session ?c) = []" "m_pending_by_tx (c_session ?c) = [1 \<mapsto> ?p]"
    "c_clock ?c = clock" "c_ticks ?c = n" "c_user ?c = \<lparr>h_serial = Some [], h_done = False, h_success = False\<rparr>"
    using c by (simp_all add: host_retrying_def host_waiting_def)
  have o: "order (c_session ?c) = [1]" by (rule map_order_single [OF order c'(3)])
  obtain c2 where c2: "handle_session_retries ?env (handle_session_outbound ?env ?c) = Inr c2"
    "c_user c2 = \<lparr>h_serial = Some [], h_done = True, h_success = False\<rparr>" "c_tx_queue c2 = []"
    using time by (simp add: handle_session_outbound_idle [OF c'(2)] handle_session_retries_def o poll_def c' Let_def
        inflight_request_def erase_pending_def host_callback_def host_on_error_def not_less not_le)
  with cycle_received [OF received_nothing [OF h]] obtain h' where
    "run_one_cycle (stack_config ?env) ?env h = Some (Inr h')" "st_core h' = drain_tx ?env c2" by auto
  then show thesis using that c2 by (simp add: host_drain [where port = "[]"])
qed

text \<open>What an acknowledgement, the response and a repeated one do to the host.\<close>

abbreviation host_dispatch ::
  "((host_response, host_error) session \<Rightarrow> u32 list) \<Rightarrow> sent \<Rightarrow> bytes host_core \<Rightarrow> bytes host_core" where
  "host_dispatch order \<equiv> (\<lambda>(noise, seq, T, packet). dispatch_after_parse (host_env wire order) T packet)"

definition host_answered :: "bool \<Rightarrow> bytes host_core \<Rightarrow> bool" where
  "host_answered success c \<longleftrightarrow>
     c_bound c \<and> c_tx_queue c = [] \<and> m_outbound_queue (c_session c) = [] \<and> m_pending_by_tx (c_session c) = Map.empty \<and>
     test_and_insert rsp_key (m_seen_responses (c_session c)) = (True, m_seen_responses (c_session c)) \<and>
     c_user c = \<lparr>h_serial = Some [], h_done = True, h_success = success\<rparr>"

lemma host_takes_ack:
  assumes "host_waiting clock n deadline [] c"
  shows "host_waiting clock (n + 1) (clock n + 200000) [] (host_dispatch order ([], ack_msg a) c)"
  using assms by (auto simp: host_waiting_def dispatch_ack on_ack_def)

lemma host_takes_response:
  assumes c: "host_waiting clock n deadline [] c"
  shows "host_answered (status = SetMitLimitStatus_Ok) (host_dispatch order ([], rsp_msg status b) c)"
proof -
  obtain p where p: "m_pending_by_tx (c_session c) = [1 \<mapsto> p]" "pe_response_cmd p = 0x6104" "pe_on_response p = Some On_Response"
    using c by (auto simp: host_waiting_def)
  have "rsp_key \<noteq> 0" by (rule compose_dedup_key_nonzero) simp
  then obtain ring where ring: "test_and_insert rsp_key (id_ring_init 64) = (False, ring)" "test_and_insert rsp_key ring = (True, ring)"
    by (rule fresh_ring)
  have "dispatch_after_parse (host_env wire order) Rsp (le_bytes 4 (1 :: u32) @ [SetMitLimitStatus_value status]) c =
      run_callback (host_env wire order) (Call_Response On_Response (le_bytes 4 (1 :: u32) @ [SetMitLimitStatus_value status]))
        (c\<lparr>c_session := erase_pending 1 p ((c_session c)\<lparr>m_seen_responses := ring\<rparr>)\<rparr>)"
    by (rule dispatch_response)
      (use c p ring in \<open>simp_all add: host_waiting_def default_serial_packets is_request_cmd_def ACK_CMD_def\<close>)
  then show ?thesis using c p ring
    by (auto simp: host_answered_def host_waiting_def response_bytes_eq host_callback_def host_on_response_response erase_pending_def)
qed

lemma host_takes_late:
  assumes c: "host_answered success c" and m: "m = ack_msg a \<or> m = rsp_msg status a"
  shows "host_answered success (host_dispatch order ([], m) c)"
proof (cases "m = ack_msg a")
  case True
  then show ?thesis using c by (auto simp: host_answered_def dispatch_ack on_ack_def)
next
  case False
  have D: "distinct (map pt_cmd serial_packets)" "sizeof (pt_type Rsp) = 5"
    using default_serial_packets by (simp_all add: default_packets_def layout_defs)
  have tx: "extract_tx_id_from_raw serial_packets (pt_cmd Rsp) (le_bytes 4 (1 :: u32) @ [SetMitLimitStatus_value status]) = 1"
    using extract_tx_id_nth [OF D(1), of Rsp "le_bytes 4 (1 :: u32) @ [SetMitLimitStatus_value status]"] tx_packet_read [OF Rsp_tx_packet]
      tx_packet_has_tx_id [OF Rsp_tx_packet]
      D(2) by simp
  have "dispatch_after_parse (host_env wire order) Rsp (le_bytes 4 (1 :: u32) @ [SetMitLimitStatus_value status]) c = c"
    using c tx by (simp add: dispatch_after_parse_def handle_packet_internal_def handle_response_packet_def on_response_def
        host_answered_def is_request_cmd_def ACK_CMD_def Let_def)
  then show ?thesis using c m False by (auto simp: response_bytes_eq)
qed

lemma host_takes_rest:
  "host_answered success c \<Longrightarrow> answers status ms \<Longrightarrow> host_answered success (fold (host_dispatch order) (plain ms) c)"
proof (induction ms arbitrary: c)
  case (Cons m ms)
  then obtain a where "m = ack_msg a \<or> m = rsp_msg status a" by auto
  from Cons.IH [OF host_takes_late [OF Cons.prems(1) this, of order]] Cons.prems(2) show ?case by simp
qed simp

text \<open>The cycle that takes the acknowledgement alone, and the one that takes the response, whatever follows it.\<close>

lemma host_cycle_ack:
  assumes r: "received (host_env wire order) 42 (plain [ack_msg a]) h"
    and c: "host_waiting clock n deadline [] (st_core h)" and order: "map_order order" and time: "clock (n + 2) < clock n + 200000"
  obtains h' where "run_one_cycle (stack_config (host_env wire order)) (host_env wire order) h = Some (Inr h')"
    and "stack_idle (host_env wire order) 42 h'" and "host_waiting clock (n + 4) (clock n + 200000) [] (st_core h')"
proof -
  let ?env = "host_env wire order" and ?c = "host_dispatch order ([], ack_msg a) (st_core h)"
  have w: "host_waiting clock (n + 1) (clock n + 200000) [] ?c" by (rule host_takes_ack [OF c])
  then obtain p where "m_pending_by_tx (c_session ?c) = [1 \<mapsto> p]" by (auto simp: host_waiting_def)
  from map_order_one [OF order this] have o: "length (order (c_session ?c)) = 1" .
  have "handle_session_retries ?env (handle_session_outbound ?env ?c) =
      Inr (?c\<lparr>c_ticks := c_ticks ?c + 2 + length (pending_order ?env (c_session ?c))\<rparr>)"
    by (rule idle_pump) (use time w in \<open>auto simp: host_waiting_def split: if_splits\<close>)
  moreover have "c_ticks ?c + 2 + length (pending_order ?env (c_session ?c)) = n + 4"
    using w o by (simp add: host_waiting_def)
  ultimately have "handle_session_retries ?env (handle_session_outbound ?env (fold (host_dispatch order) (plain [ack_msg a]) (st_core h))) =
      Inr (?c\<lparr>c_ticks := n + 4\<rparr>)" by simp
  from cycle_received [OF r this] obtain h' where h': "run_one_cycle (stack_config ?env) ?env h = Some (Inr h')"
    "stack_idle ?env 42 h'" "st_core h' = drain_tx ?env (?c\<lparr>c_ticks := n + 4\<rparr>)" by blast
  have "host_waiting clock (n + 4) (clock n + 200000) [] (st_core h')"
    unfolding h'(3) using w by (simp add: host_drain [where port = "[]"] host_waiting_def)
  with that h' show thesis by blast
qed

lemma host_cycle_answered:
  assumes r: "received (host_env wire order) 42 (plain ms) h"
    and c: "host_answered success (fold (host_dispatch order) (plain ms) (st_core h))"
  obtains h' where "run_one_cycle (stack_config (host_env wire order)) (host_env wire order) h = Some (Inr h')"
    and "c_user (st_core h') = \<lparr>h_serial = Some [], h_done = True, h_success = success\<rparr>"
proof -
  let ?env = "host_env wire order" and ?c = "fold (host_dispatch order) (plain ms) (st_core h)"
  have "handle_session_retries ?env (handle_session_outbound ?env ?c) =
      Inr (?c\<lparr>c_ticks := c_ticks ?c + 2 + length (pending_order ?env (c_session ?c))\<rparr>)"
    by (rule idle_pump) (use c in \<open>simp_all add: host_answered_def\<close>)
  from cycle_received [OF r this] obtain h' where h': "run_one_cycle (stack_config ?env) ?env h = Some (Inr h')"
    "st_core h' = drain_tx ?env (?c\<lparr>c_ticks := c_ticks ?c + 2 + length (pending_order ?env (c_session ?c))\<rparr>)" by blast
  have "c_user (st_core h') = \<lparr>h_serial = Some [], h_done = True, h_success = success\<rparr>"
    unfolding h'(2) using c by (simp add: host_drain [where port = "[]"] host_answered_def)
  with that h'(1) show thesis by blast
qed

end
