(* ===== verification/Serial_Exchange.thy ===== *)
theory Serial_Exchange
  imports Serial_Turns
begin

text \<open>
  The two example programs over a link. The link is a parameter of the run: during its \<open>i\<close>-th sleep the host
  loses what it has written if \<open>lost i\<close>, and the device turns \<open>turns i\<close> times. A write arrives whole or not
  at all. A request that is lost, or that the device does not look at, is sent again when its timeout has
  passed; the host succeeds if an answer comes before the fourth timeout, and gives up at that one.
\<close>

section \<open>The link\<close>

abbreviation host_port_emptied :: "(bytes, 'w) host_stack \<Rightarrow> (bytes, 'w) host_stack" where
  "host_port_emptied h \<equiv> h\<lparr>st_core := (st_core h)\<lparr>c_user := (c_user (st_core h))\<lparr>h_serial := Some []\<rparr>\<rparr>\<rparr>"

abbreviation device_port_emptied :: "(bytes, 'w) device_stack \<Rightarrow> (bytes, 'w) device_stack" where
  "device_port_emptied d \<equiv> d\<lparr>st_core := (st_core d)\<lparr>c_user := (c_user (st_core d))\<lparr>g_serial := Some []\<rparr>\<rparr>\<rparr>"

text \<open>
  The sleep number \<open>i\<close> of the host: its bytes are lost or put into the device's ring, the device turns, and
  what the device has written is put into the host's ring.
\<close>

fun link_sleep ::
  "(nat \<Rightarrow> bool) \<Rightarrow> (nat \<Rightarrow> nat) \<Rightarrow> ((unit, unit) session \<Rightarrow> u32 list)
     \<Rightarrow> (bytes, 'v::len word) host_stack \<times> nat \<times> (bytes, 'w::len word) device_stack
     \<Rightarrow> (fault + (bytes, 'v word) host_stack \<times> nat \<times> (bytes, 'w word) device_stack) option" where
  "link_sleep lost turns order (h, i, d) =
     (let out = if lost i then [] else the (h_serial (c_user (st_core h)))
      in case device_turns order (turns i) (isr_feed out d) of
           None \<Rightarrow> None
         | Some (Inl f) \<Rightarrow> Some (Inl f)
         | Some (Inr d) \<Rightarrow>
             Some (Inr (isr_feed (the (g_serial (c_user (st_core d)))) (host_port_emptied h), Suc i, device_port_emptied d)))"

section \<open>What the loop does from a sleep on\<close>

definition loop_after ::
  "nat \<Rightarrow> (host_response, host_error, unit, 'x host_app) stack_env
     \<Rightarrow> (('x, 'v::len word) host_stack \<times> 'd \<Rightarrow> (fault + ('x, 'v word) host_stack \<times> 'd) option)
     \<Rightarrow> ('x, 'v word) host_stack \<times> 'd \<Rightarrow> (fault + ('x, 'v word) host_stack \<times> 'd) option" where
  "loop_after k env sleep x =
     (case sleep x of None \<Rightarrow> None | Some (Inl f) \<Rightarrow> Some (Inl f) | Some (Inr (h, d)) \<Rightarrow> host_loop k env sleep (h, d))"

lemma host_loop_done: "h_done (c_user (st_core st)) \<Longrightarrow> host_loop n env sleep (st, d) = Some (Inr (st, d))"
  by (cases n) simp_all

lemma host_loop_starts: "\<not> h_done (c_user (st_core (host_send payload (host_init clock port))))"
  by (simp add: host_send_def send_def host_init_def stack_init_def core_init_def clock_now_def session_send_def Let_def
      split: prod.split)

lemma loop_after_turn:
  assumes "sleep x = Some (Inr (h', d'))" and "\<not> h_done (c_user (st_core h'))"
    and "run_one_cycle (stack_config env) env h' = Some (Inr h'')"
  shows "loop_after (Suc k) env sleep x = loop_after k env sleep (h'', d')"
  using assms by (simp add: loop_after_def)

lemma loop_after_done:
  "sleep x = Some (Inr (h', d')) \<Longrightarrow> h_done (c_user (st_core h')) \<Longrightarrow> loop_after k env sleep x = Some (Inr (h', d'))"
  by (simp add: loop_after_def host_loop_done)

section \<open>What a sleep does\<close>

lemma host_receives:
  assumes h: "stack_idle (host_env wire order) 42 h" and ms: "answers status ms" "length ms \<le> 8"
  shows "received (host_env wire order) 42 (plain ms) (isr_feed (msg_bytes ms) (host_port_emptied h))"
    and "st_core (isr_feed (msg_bytes ms) (host_port_emptied h)) = st_core (host_port_emptied h)"
proof -
  have rc: "received (host_env wire order) 42 [] (host_port_emptied h)"
    using h by (intro received_nothing) simp
  have len: "length (sent_bytes ([] @ plain ms)) \<le> min 256 (calculate_buffer_size (e_packets (host_env wire order)))"
    using answers_sent(2) [OF ms(1)] ms(2) by (simp add: buffer_size_serial)
  from received_more [OF rc _ len] answers_sent(1) [OF ms(1)]
  show "received (host_env wire order) 42 (plain ms) (isr_feed (msg_bytes ms) (host_port_emptied h))"
    and "st_core (isr_feed (msg_bytes ms) (host_port_emptied h)) = st_core (host_port_emptied h)" by simp_all
qed

lemma device_receives:
  assumes d: "device_has order request qs d" and len: "length request = 13" "length (qs @ ps) \<le> 4"
  shows "device_has order request (qs @ ps) (isr_feed (msg_bytes (copies request ps)) d)"
proof -
  have rc: "received (device_env wire order) 42 (plain (copies request qs)) d" and fresh: "device_fresh (st_core d)"
    using d by (simp_all add: device_has_def)
  have "length (sent_bytes (plain (copies request qs) @ plain (copies request ps)))
      \<le> min 256 (calculate_buffer_size (e_packets (device_env wire order)))"
    using len copies_sent(2) [OF len(1)] by (simp add: buffer_size_serial)
  from received_more [OF rc _ this] copies_sent(1) [OF len(1)] fresh show ?thesis
    by (simp add: device_has_def) (simp add: copies_def)
qed

lemma device_fed_nothing:
  "device_has order request qs d \<Longrightarrow> isr_feed [] d = d" "device_at order out ms d \<Longrightarrow> isr_feed [] d = d"
  by (auto simp: device_has_def received_def device_at_def stack_idle_def intro: isr_feed_Nil)

lemma device_at_emptied: "device_at order out ms d \<Longrightarrow> device_at order [] ms (device_port_emptied d)"
  by (simp add: device_at_def device_core_def)

lemma device_silent: "g_serial (c_user (st_core d)) = Some [] \<Longrightarrow> device_port_emptied d = d"
proof -
  assume "g_serial (c_user (st_core d)) = Some []"
  then have "(c_user (st_core d))\<lparr>g_serial := Some []\<rparr> = c_user (st_core d)" by (cases "c_user (st_core d)") simp
  then show ?thesis by simp
qed

text \<open>From the host's cycle that has put its bytes on the link, to the next.\<close>

definition underway ::
  "((host_response, host_error) session \<Rightarrow> u32 list) \<Rightarrow> ((unit, unit) session \<Rightarrow> u32 list) \<Rightarrow> bytes \<Rightarrow> (nat \<Rightarrow> int)
     \<Rightarrow> nat \<Rightarrow> nat \<Rightarrow> int \<Rightarrow> u8 list \<Rightarrow> u8 list \<Rightarrow> (bytes, 'v::len word) host_stack \<Rightarrow> (bytes, 'w::len word) device_stack \<Rightarrow> bool" where
  "underway order device_order request clock i r deadline ps qs h d \<longleftrightarrow>
     stack_idle (host_env wire order) 42 h \<and>
     host_retrying request clock (5 + 3 * i) r deadline (msg_bytes (copies request ps)) (st_core h) \<and>
     device_has device_order request qs d \<and> length (qs @ ps) \<le> Suc r"

lemma quiet_sleep:
  assumes u: "underway order device_order (request_of j t v) clock i r deadline ps qs h d" and r: "r \<le> 3"
    and quiet: "turns i = 0 \<or> (lost i \<and> qs = [])"
  obtains h' d' where "link_sleep lost turns device_order (h, i, d) = Some (Inr (h', Suc i, d'))"
    and "stack_idle (host_env wire order) 42 h'" and "\<not> h_done (c_user (st_core h'))"
    and "host_retrying (request_of j t v) clock (5 + 3 * i) r deadline [] (st_core h')"
    and "device_has device_order (request_of j t v) (qs @ (if lost i then [] else ps)) d'"
proof -
  let ?req = "request_of j t v" and ?ps = "if lost i then [] else ps"
  let ?out = "if lost i then [] else the (h_serial (c_user (st_core h)))"
  have idle: "stack_idle (host_env wire order) 42 h" and d: "device_has device_order ?req qs d"
    and c: "host_retrying ?req clock (5 + 3 * i) r deadline (msg_bytes (copies ?req ps)) (st_core h)" and len: "length (qs @ ps) \<le> Suc r"
    using u by (simp_all add: underway_def)
  have w: "host_waiting clock (5 + 3 * i) deadline (msg_bytes (copies ?req ps)) (st_core h)" using c by (simp add: host_retrying_def)
  have out: "?out = msg_bytes (copies ?req ?ps)"
    using host_waiting_sent [OF w] by (simp add: copies_def sent_bytes_def)
  have "device_has device_order ?req (qs @ ?ps) (isr_feed ?out d)"
    unfolding out by (rule device_receives [OF d]) (use len r in auto)
  moreover have "\<exists>d'. device_turns device_order (turns i) (isr_feed ?out d) = Some (Inr d') \<and> device_has device_order ?req (qs @ ?ps) d'"
    if "device_has device_order ?req (qs @ ?ps) (isr_feed ?out d)"
  proof (cases "turns i = 0")
    case False
    then have "qs @ ?ps = []" using quiet by simp
    with device_turns_none [of device_order ?req "isr_feed ?out d" "turns i"] that show ?thesis by simp
  qed (use that in simp)
  ultimately obtain d' where d': "device_turns device_order (turns i) (isr_feed ?out d) = Some (Inr d')" "device_has device_order ?req (qs @ ?ps) d'"
    by blast
  have "g_serial (c_user (st_core d')) = Some []" using d'(2) by (simp add: device_has_def device_fresh_def)
  note silent = this device_silent [OF this]
  have idle': "stack_idle (host_env wire order) 42 (host_port_emptied h)" using idle by simp
  then have "isr_feed [] (host_port_emptied h) = host_port_emptied h" by (auto simp: stack_idle_def intro: isr_feed_Nil)
  then have s: "link_sleep lost turns device_order (h, i, d) = Some (Inr (host_port_emptied h, Suc i, d'))"
    using d'(1) silent by (simp add: Let_def)
  have "host_retrying ?req clock (5 + 3 * i) r deadline [] (st_core (host_port_emptied h))"
    using c host_waiting_sent [OF w] by (simp add: host_retrying_def)
  moreover from this have "\<not> h_done (c_user (st_core (host_port_emptied h)))" by (simp add: host_retrying_def host_waiting_def)
  ultimately show thesis by (rule that [OF s idle' _ _ d'(2), rotated])
qed

lemma quiet_turn:
  assumes u: "underway order device_order (request_of j t v) clock i r deadline ps qs h d" and r: "r < 3" and order: "map_order order"
    and quiet: "turns i = 0 \<or> (lost i \<and> qs = [])"
  obtains h' d' r' deadline' ps' where "loop_after (Suc k) (host_env wire order) (link_sleep lost turns device_order) (h, i, d) =
      loop_after k (host_env wire order) (link_sleep lost turns device_order) (h', Suc i, d')"
    and "underway order device_order (request_of j t v) clock (Suc i) r' deadline' ps' (qs @ (if lost i then [] else ps)) h' d'"
    and "if deadline \<le> clock (6 + 3 * i) then r' = Suc r \<and> deadline' = clock (7 + 3 * i) + 200000 \<and> ps' = [of_nat (Suc r)]
      else r' = r \<and> deadline' = deadline \<and> ps' = []"
proof -
  let ?req = "request_of j t v" and ?sleep = "link_sleep lost turns device_order" and ?qs = "qs @ (if lost i then [] else ps)"
  have r3: "r \<le> 3" using r by simp
  obtain h1 d' where s: "?sleep (h, i, d) = Some (Inr (h1, Suc i, d'))" "\<not> h_done (c_user (st_core h1))"
    and h1: "stack_idle (host_env wire order) 42 h1" and c1: "host_retrying ?req clock (5 + 3 * i) r deadline [] (st_core h1)"
    and d': "device_has device_order ?req ?qs d'"
    by (rule quiet_sleep [where turns = turns and lost = lost and i = i, OF u r3 quiet])
  obtain h' r' deadline' ps' where h': "run_one_cycle (stack_config (host_env wire order)) (host_env wire order) h1 = Some (Inr h')"
    "stack_idle (host_env wire order) 42 h'"
    "host_retrying ?req clock (5 + 3 * i + 3) r' deadline' (msg_bytes (copies ?req ps')) (st_core h')"
    and upd: "if deadline \<le> clock (5 + 3 * i + 1) then r' = r + 1 \<and> deadline' = clock (5 + 3 * i + 2) + 200000 \<and> ps' = [of_nat (r + 1)]
      else r' = r \<and> deadline' = deadline \<and> ps' = []"
    by (rule host_cycle_quiet [OF h1 order c1 r])
  have "length (qs @ ps) \<le> Suc r" using u by (simp add: underway_def)
  then have "length (?qs @ ps') \<le> Suc r'" using upd by (auto split: if_splits)
  with h' d' have "underway order device_order ?req clock (Suc i) r' deadline' ps' ?qs h' d'"
    by (simp add: underway_def algebra_simps)
  moreover have "loop_after (Suc k) (host_env wire order) ?sleep (h, i, d) = loop_after k (host_env wire order) ?sleep (h', Suc i, d')"
    by (rule loop_after_turn [where sleep = ?sleep, OF s h'(1)])
  ultimately show thesis using that upd by (auto simp: algebra_simps split: if_splits)
qed

section \<open>The answer\<close>

lemma link_sleep_turns:
  assumes "h_serial (c_user (st_core h)) = Some []" and d: "device_at device_order [] ms d"
  obtains d' where "link_sleep lost turns device_order (h, i, d) =
      Some (Inr (isr_feed (msg_bytes (take (turns i) ms)) (host_port_emptied h), Suc i, d'))"
    and "device_at device_order [] (drop (turns i) ms) d'"
proof -
  obtain d1 where d1: "device_turns device_order (turns i) d = Some (Inr d1)" "device_at device_order (take (turns i) ms) (drop (turns i) ms) d1"
    using device_turns_idle [OF d] by fastforce
  then have "link_sleep lost turns device_order (h, i, d) =
      Some (Inr (isr_feed (msg_bytes (take (turns i) ms)) (host_port_emptied h), Suc i, device_port_emptied d1))"
    using assms(1) device_fed_nothing(2) [OF d] by (simp add: device_at_def Let_def)
  with that device_at_emptied [OF d1(2)] show thesis by blast
qed

text \<open>The last turn of the loop sleeps once more before the loop sees that the host is done.\<close>

lemma host_finishes:
  assumes h: "c_user (st_core h) = \<lparr>h_serial = Some [], h_done = True, h_success = success\<rparr>"
    and d: "(\<exists>ms. device_at device_order [] ms d) \<or> (\<exists>qs. device_has device_order (request_of j t v) qs d \<and> length qs \<le> 4)"
  obtains h' d' where "loop_after k env (link_sleep lost turns device_order) (h, i, d) = Some (Inr (h', d'))"
    and "exit_code (c_user (st_core h')) = (if success then 0 else 1)"
proof -
  have feed: "isr_feed [] d = d" using d by (auto dest: device_fed_nothing)
  have "\<exists>d'. device_turns device_order (turns i) d = Some (Inr d')"
  proof (cases "\<exists>ms. device_at device_order [] ms d")
    case True
    then show ?thesis using device_turns_idle by blast
  next
    case False
    then obtain qs where qs: "device_has device_order (request_of j t v) qs d" "length qs \<le> 4" using d by blast
    show ?thesis
    proof (cases "turns i = 0 \<or> qs = []")
      case True
      then show ?thesis using device_turns_none [of device_order "request_of j t v" d "turns i"] qs by auto
    next
      case False
      then obtain n s seqs where "turns i = Suc n" "qs = s # seqs" by (cases "turns i"; cases qs) auto
      then show ?thesis using device_turns_copies [of device_order j t v s seqs d n] qs by fastforce
    qed
  qed
  then obtain d' where "device_turns device_order (turns i) d = Some (Inr d')" by blast
  then have "link_sleep lost turns device_order (h, i, d) =
      Some (Inr (isr_feed (the (g_serial (c_user (st_core d')))) (host_port_emptied h), Suc i, device_port_emptied d'))"
    using h feed by (simp add: Let_def)
  from loop_after_done [where sleep = "link_sleep lost turns device_order", OF this] that show thesis
    using h by (fastforce simp: isr_feed_def exit_code_def)
qed

lemma answers_reply:
  assumes "answers status rest"
  shows "answers status (take n (ack_msg a # rsp_msg status b # rest))" and "answers status (take n (rsp_msg status b # rest))"
  by (rule answers_take; use assms in auto)+

text \<open>The first sleep in which the device looks at a request that has come in.\<close>

lemma answering_sleep:
  assumes u: "underway order device_order (request_of j t v) clock i r deadline ps qs h d" and r: "r \<le> 3"
    and some: "qs @ (if lost i then [] else ps) \<noteq> []" and turns: "turns i = Suc n"
  obtains a b rest h' d' where "link_sleep lost turns device_order (h, i, d) = Some (Inr (h', Suc i, d'))"
    and "received (host_env wire order) 42 (plain (take (Suc n) (ack_msg a # rsp_msg (verdict_of j) b # rest))) h'"
    and "host_waiting clock (5 + 3 * i) deadline [] (st_core h')"
    and "device_at device_order [] (drop (Suc n) (ack_msg a # rsp_msg (verdict_of j) b # rest)) d'"
    and "answers (verdict_of j) rest" and "length rest \<le> 6"
proof -
  let ?req = "request_of j t v" and ?ps = "if lost i then [] else ps"
  let ?out = "if lost i then [] else the (h_serial (c_user (st_core h)))"
  have idle: "stack_idle (host_env wire order) 42 h" and d: "device_has device_order ?req qs d"
    and w: "host_waiting clock (5 + 3 * i) deadline (msg_bytes (copies ?req ps)) (st_core h)" and len: "length (qs @ ps) \<le> Suc r"
    using u by (simp_all add: underway_def host_retrying_def)
  have out: "?out = msg_bytes (copies ?req ?ps)"
    using host_waiting_sent [OF w] by (simp add: copies_def sent_bytes_def)
  have has: "device_has device_order ?req (qs @ ?ps) (isr_feed ?out d)"
    unfolding out by (rule device_receives [OF d]) (use len r in auto)
  obtain s seqs where seqs: "qs @ ?ps = s # seqs" using some by (cases "qs @ ?ps") auto
  then have "length (s # seqs) \<le> 4" using len r unfolding seqs [symmetric] by simp
  then have few: "length seqs \<le> 3" by simp
  obtain a b rest d1 where t: "device_turns device_order (turns i) (isr_feed ?out d) = Some (Inr d1)"
    and d1: "device_at device_order (take (Suc n) (ack_msg a # rsp_msg (verdict_of j) b # rest))
      (drop (Suc n) (ack_msg a # rsp_msg (verdict_of j) b # rest)) d1"
    and rest: "answers (verdict_of j) rest" "length rest = 2 * length seqs"
    using device_turns_copies [OF has [unfolded seqs] few, of n] unfolding turns by blast
  let ?ms = "take (Suc n) (ack_msg a # rsp_msg (verdict_of j) b # rest)"
  have ms: "answers (verdict_of j) ?ms" "length ?ms \<le> 8"
    by (rule answers_reply(1) [OF rest(1)]) (use rest(2) few in simp)
  note rc = host_receives [OF idle ms]
  have "link_sleep lost turns device_order (h, i, d) =
      Some (Inr (isr_feed (msg_bytes ?ms) (host_port_emptied h), Suc i, device_port_emptied d1))"
    using t d1 by (simp add: device_at_def Let_def)
  moreover have "host_waiting clock (5 + 3 * i) deadline [] (st_core (isr_feed (msg_bytes ?ms) (host_port_emptied h)))"
    unfolding rc(2) using host_waiting_sent [OF w] by simp
  moreover have "length rest \<le> 6" using rest(2) few by simp
  ultimately show thesis using that rc(1) device_at_emptied [OF d1] rest(1) by blast
qed

lemma link_answered:
  assumes u: "underway order device_order (request_of j t v) clock i r deadline ps qs h d" and r: "r \<le> 3" and order: "map_order order"
    and some: "qs @ (if lost i then [] else ps) \<noteq> []" and turns: "0 < turns i" "2 \<le> turns i + turns (Suc i)"
    and time: "clock (7 + 3 * i) < clock (5 + 3 * i) + 200000"
  obtains h' x where "loop_after (Suc (Suc k)) (host_env wire order) (link_sleep lost turns device_order) (h, i, d) = Some (Inr (h', x))"
    and "exit_code (c_user (st_core h')) = (if j < 6 then 0 else 1)"
proof -
  let ?env = "host_env wire order" and ?sleep = "link_sleep lost turns device_order"
  have ok: "(verdict_of j = SetMitLimitStatus_Ok) = (j < 6)" by simp
  obtain n where n: "turns i = Suc n" using turns(1) by (cases "turns i") auto
  obtain a b rest h1 d1 where s1: "?sleep (h, i, d) = Some (Inr (h1, Suc i, d1))"
    and rc1: "received ?env 42 (plain (take (Suc n) (ack_msg a # rsp_msg (verdict_of j) b # rest))) h1"
    and w1: "host_waiting clock (5 + 3 * i) deadline [] (st_core h1)"
    and d1: "device_at device_order [] (drop (Suc n) (ack_msg a # rsp_msg (verdict_of j) b # rest)) d1"
    and rest: "answers (verdict_of j) rest" "length rest \<le> 6"
    by (rule answering_sleep [where lost = lost and i = i and turns = turns, OF u r some n])
  have nd1: "\<not> h_done (c_user (st_core h1))" using w1 by (simp add: host_waiting_def)
  show thesis
  proof (cases n)
    case 0
    have rc1': "received ?env 42 (plain [ack_msg a]) h1" using rc1 0 by simp
    have time': "clock (5 + 3 * i + 2) < clock (5 + 3 * i) + 200000" using time by (simp add: algebra_simps)
    obtain h2 where c2: "run_one_cycle (stack_config ?env) ?env h1 = Some (Inr h2)" "stack_idle ?env 42 h2"
      and w2: "host_waiting clock (5 + 3 * i + 4) (clock (5 + 3 * i) + 200000) [] (st_core h2)"
      by (rule host_cycle_ack [OF rc1' w1 order time'])
    obtain m where m: "turns (Suc i) = Suc m" using turns(2) n 0 by (cases "turns (Suc i)") auto
    have d1': "device_at device_order [] (rsp_msg (verdict_of j) b # rest) d1" using d1 0 by simp
    have port: "h_serial (c_user (st_core h2)) = Some []" using w2 by (simp add: host_waiting_def)
    let ?ms = "take (turns (Suc i)) (rsp_msg (verdict_of j) b # rest)"
    obtain d2 where s2: "?sleep (h2, Suc i, d1) = Some (Inr (isr_feed (msg_bytes ?ms) (host_port_emptied h2), Suc (Suc i), d2))"
      and d2: "device_at device_order [] (drop (turns (Suc i)) (rsp_msg (verdict_of j) b # rest)) d2"
      by (rule link_sleep_turns [where lost = lost and i = "Suc i" and turns = turns, OF port d1'])
    let ?h3 = "isr_feed (msg_bytes ?ms) (host_port_emptied h2)"
    have ms: "answers (verdict_of j) ?ms" "length ?ms \<le> 8"
      by (rule answers_reply(2) [OF rest(1)]) (use rest(2) in simp)
    note rc2 = host_receives [OF c2(2) ms]
    have w3: "host_waiting clock (5 + 3 * i + 4) (clock (5 + 3 * i) + 200000) [] (st_core ?h3)"
      unfolding rc2(2) using host_waiting_sent [OF w2] by simp
    have nd3: "\<not> h_done (c_user (st_core ?h3))" using w3 by (simp add: host_waiting_def)
    have ans: "host_answered (j < 6) (fold (host_dispatch order) (plain ?ms) (st_core ?h3))"
      using host_takes_rest [OF host_takes_response [OF w3, where status = "verdict_of j" and b = b, unfolded ok], of "verdict_of j" "take m rest"]
        answers_take [OF rest(1)] m by simp
    obtain h4 where c4: "run_one_cycle (stack_config ?env) ?env ?h3 = Some (Inr h4)"
      "c_user (st_core h4) = \<lparr>h_serial = Some [], h_done = True, h_success = (j < 6)\<rparr>"
      by (rule host_cycle_answered [OF rc2(1) ans])
    obtain h5 x where f: "loop_after k ?env ?sleep (h4, Suc (Suc i), d2) = Some (Inr (h5, x))"
      "exit_code (c_user (st_core h5)) = (if j < 6 then 0 else 1)"
      by (rule host_finishes [OF c4(2) disjI1]) (use d2 in blast)+
    show thesis using that f
      unfolding loop_after_turn [where sleep = ?sleep, OF s1 nd1 c2(1)] loop_after_turn [where sleep = ?sleep, OF s2 nd3 c4(1)] by blast
  next
    case (Suc m)
    have ans: "host_answered (j < 6) (fold (host_dispatch order)
        (plain (take (Suc n) (ack_msg a # rsp_msg (verdict_of j) b # rest))) (st_core h1))"
      using host_takes_rest [OF host_takes_response [OF host_takes_ack [OF w1], where status = "verdict_of j" and b = b, unfolded ok],
          of "verdict_of j" "take m rest"] answers_take [OF rest(1)] Suc by simp
    obtain h2 where c2: "run_one_cycle (stack_config ?env) ?env h1 = Some (Inr h2)"
      "c_user (st_core h2) = \<lparr>h_serial = Some [], h_done = True, h_success = (j < 6)\<rparr>"
      by (rule host_cycle_answered [OF rc1 ans])
    obtain h5 x where f: "loop_after (Suc k) ?env ?sleep (h2, Suc i, d1) = Some (Inr (h5, x))"
      "exit_code (c_user (st_core h5)) = (if j < 6 then 0 else 1)"
      by (rule host_finishes [OF c2(2) disjI1]) (use d1 in blast)+
    show thesis using that f unfolding loop_after_turn [where sleep = ?sleep, OF s1 nd1 c2(1)] by blast
  qed
qed

section \<open>Waiting and losing\<close>

lemma first_transmission:
  fixes d :: "(bytes, 'w::len word) device_stack"
  assumes w: "12 < LENGTH('v::len)" "12 < LENGTH('w)" and order: "map_order order" and time: "clock 3 < clock 1 + 200000"
    and h: "h = host_send (set_mit_limit_command j t v) (host_init clock [] :: (bytes, 'v word) host_stack)"
    and d: "d = device_init device_clock []"
  obtains h' where "host_loop (Suc k) (host_env wire order) sleep (h, i, d) = loop_after k (host_env wire order) sleep (h', i, d)"
    and "underway order device_order (request_of j t v) clock 0 0 (clock 1 + 200000) [0] [] h' d"
proof -
  obtain h' where h': "run_one_cycle (stack_config (host_env wire order)) (host_env wire order) h = Some (Inr h')"
      "stack_idle (host_env wire order) 42 h'"
      "host_retrying (request_of j t v) clock 5 0 (clock 1 + 200000) (msg_bytes (copies (request_of j t v) [0])) (st_core h')"
    using host_cycle_request [OF w(1) order time h] by blast
  have start: "\<not> h_done (c_user (st_core h))" unfolding h by (rule host_loop_starts)
  have "underway order device_order (request_of j t v) clock 0 0 (clock 1 + 200000) [0] [] h' d"
    unfolding underway_def d using h'(2,3) device_init_has [OF w(2)] by simp
  moreover have "host_loop (Suc k) (host_env wire order) sleep (h, i, d) = loop_after k (host_env wire order) sleep (h', i, d)"
    using start h'(1) by (simp add: loop_after_def)
  ultimately show thesis by (rule that [rotated])
qed

text \<open>The device does not turn: the copies of the request pile up in its ring.\<close>

lemma waits:
  assumes u: "underway order device_order (request_of j t v) clock 0 0 deadline [0] [] h d" and order: "map_order order"
  shows "i \<le> 3 \<Longrightarrow> \<forall>l<i. turns l = 0 \<Longrightarrow>
    \<exists>h' d' r deadline' ps qs. loop_after (i + k) (host_env wire order) (link_sleep (\<lambda>_. False) turns device_order) (h, 0, d) =
      loop_after k (host_env wire order) (link_sleep (\<lambda>_. False) turns device_order) (h', i, d') \<and>
    underway order device_order (request_of j t v) clock i r deadline' ps qs h' d' \<and> r \<le> i \<and> qs @ ps \<noteq> []"
proof (induction i arbitrary: k)
  case 0
  show ?case using u by fastforce
next
  case (Suc i)
  let ?loop = "\<lambda>k. loop_after k (host_env wire order) (link_sleep (\<lambda>_. False) turns device_order)"
  obtain h1 d1 r dl ps qs where l1: "?loop (i + Suc k) (h, 0, d) = ?loop (Suc k) (h1, i, d1)"
    and u1: "underway order device_order (request_of j t v) clock i r dl ps qs h1 d1" and r: "r \<le> i" and some: "qs @ ps \<noteq> []"
    using Suc.IH [of "Suc k"] Suc.prems by auto
  have r3: "r < 3" and quiet: "turns i = 0 \<or> ((\<lambda>_. False) i \<and> qs = [])" using r Suc.prems by auto
  obtain h2 d2 r2 dl2 ps2 where l2: "?loop (Suc k) (h1, i, d1) = ?loop k (h2, Suc i, d2)"
    and u2: "underway order device_order (request_of j t v) clock (Suc i) r2 dl2 ps2 (qs @ (if False then [] else ps)) h2 d2"
    and r2: "if dl \<le> clock (6 + 3 * i) then r2 = Suc r \<and> dl2 = clock (7 + 3 * i) + 200000 \<and> ps2 = [of_nat (Suc r)]
      else r2 = r \<and> dl2 = dl \<and> ps2 = []"
    by (rule quiet_turn [where lost = "\<lambda>_. False" and i = i and turns = turns, OF u1 r3 order quiet])
  have "?loop (Suc i + k) (h, 0, d) = ?loop k (h2, Suc i, d2)" using l1 l2 by simp
  moreover have "r2 \<le> Suc i" using r r2 by (auto split: if_splits)
  moreover have "(qs @ ps) @ ps2 \<noteq> []" using some by auto
  ultimately show ?case using u2 by (metis (full_types))
qed

text \<open>What the host writes is lost: the deadline of the \<open>r\<close>-th transmission, and the host after it.\<close>

definition deadline_at :: "(nat \<Rightarrow> int) \<Rightarrow> nat \<Rightarrow> int" where
  "deadline_at clock r = clock (if r = 0 then 1 else 4 + 3 * r) + 200000"

abbreviation late :: "(nat \<Rightarrow> int) \<Rightarrow> nat \<Rightarrow> bool" where
  "late clock r \<equiv> deadline_at clock r \<le> clock (6 + 3 * r)"

lemma losses:
  assumes u: "underway order device_order (request_of j t v) clock 0 0 (clock 1 + 200000) [0] [] h d" and order: "map_order order"
  shows "i \<le> 3 \<Longrightarrow> \<forall>l<i. lost l \<and> late clock l \<Longrightarrow>
    \<exists>h' d'. loop_after (i + k) (host_env wire order) (link_sleep lost turns device_order) (h, 0, d) =
      loop_after k (host_env wire order) (link_sleep lost turns device_order) (h', i, d') \<and>
    underway order device_order (request_of j t v) clock i i (deadline_at clock i) [of_nat i] [] h' d'"
proof (induction i arbitrary: k)
  case 0
  show ?case using u by (fastforce simp: deadline_at_def)
next
  case (Suc i)
  let ?loop = "\<lambda>k. loop_after k (host_env wire order) (link_sleep lost turns device_order)"
  obtain h1 d1 where l1: "?loop (i + Suc k) (h, 0, d) = ?loop (Suc k) (h1, i, d1)"
    and u1: "underway order device_order (request_of j t v) clock i i (deadline_at clock i) [of_nat i] [] h1 d1"
    using Suc.IH [of "Suc k"] Suc.prems by auto
  have i: "i < 3" and lost: "lost i" and late: "late clock i" and quiet: "turns i = 0 \<or> (lost i \<and> ([] :: u8 list) = [])"
    using Suc.prems by auto
  obtain h2 d2 r2 dl2 ps2 where l2: "?loop (Suc k) (h1, i, d1) = ?loop k (h2, Suc i, d2)"
    and u2: "underway order device_order (request_of j t v) clock (Suc i) r2 dl2 ps2 ([] @ (if lost i then [] else [of_nat i])) h2 d2"
    and r2: "if deadline_at clock i \<le> clock (6 + 3 * i) then r2 = Suc i \<and> dl2 = clock (7 + 3 * i) + 200000 \<and> ps2 = [of_nat (Suc i)]
      else r2 = i \<and> dl2 = deadline_at clock i \<and> ps2 = []"
    by (rule quiet_turn [where lost = lost and i = i and turns = turns, OF u1 i order quiet])
  have "dl2 = deadline_at clock (Suc i)" using r2 late by (simp add: deadline_at_def)
  then have "underway order device_order (request_of j t v) clock (Suc i) (Suc i) (deadline_at clock (Suc i)) [of_nat (Suc i)] [] h2 d2"
    using u2 r2 late lost by simp
  moreover have "?loop (Suc i + k) (h, 0, d) = ?loop k (h2, Suc i, d2)" using l1 l2 by simp
  ultimately show ?case by blast
qed

lemma gives_up:
  assumes u: "underway order device_order (request_of j t v) clock 3 3 deadline ps [] h d" and order: "map_order order"
    and lost: "lost 3" and time: "deadline \<le> clock 15"
  obtains h' x where "loop_after (Suc k) (host_env wire order) (link_sleep lost turns device_order) (h, 3, d) = Some (Inr (h', x))"
    and "exit_code (c_user (st_core h')) = 1"
proof -
  let ?env = "host_env wire order" and ?sleep = "link_sleep lost turns device_order"
  have quiet: "turns 3 = 0 \<or> (lost 3 \<and> ([] :: u8 list) = [])" using lost by simp
  obtain h1 d1 where s: "?sleep (h, 3, d) = Some (Inr (h1, Suc 3, d1))" "\<not> h_done (c_user (st_core h1))"
    and h1: "stack_idle ?env 42 h1" "host_retrying (request_of j t v) clock (5 + 3 * 3) 3 deadline [] (st_core h1)"
    and d1: "device_has device_order (request_of j t v) ([] @ (if lost 3 then [] else ps)) d1"
    by (rule quiet_sleep [where lost = lost and turns = turns and i = 3, OF u _ quiet]) simp_all
  obtain h2 where c2: "run_one_cycle (stack_config ?env) ?env h1 = Some (Inr h2)"
    "c_user (st_core h2) = \<lparr>h_serial = Some [], h_done = True, h_success = False\<rparr>"
    by (rule host_cycle_gives_up [OF h1(1) order h1(2)]) (use time in simp)
  have d2: "\<exists>qs. device_has device_order (request_of j t v) qs d1 \<and> length qs \<le> 4" using d1 lost by fastforce
  obtain h3 x where f: "loop_after k ?env ?sleep (h2, Suc 3, d1) = Some (Inr (h3, x))"
    "exit_code (c_user (st_core h3)) = (if False then 0 else 1)"
    by (rule host_finishes [OF c2(2) disjI2 [OF d2]])
  show thesis using that f unfolding loop_after_turn [where sleep = ?sleep, OF s c2(1)] by simp
qed

section \<open>The whole run\<close>

lemma link_exchange:
  assumes w: "12 < LENGTH('v::len)" "12 < LENGTH('w::len)" and order: "map_order order" and m: "m \<le> 3" "\<forall>i<m. turns i = 0"
    and turns: "0 < turns m" "2 \<le> turns m + turns (Suc m)"
    and time: "clock 3 < clock 1 + 200000" "clock (7 + 3 * m) < clock (5 + 3 * m) + 200000"
  shows "host_main (host_env wire order)
      (link_sleep (\<lambda>_. False) turns device_order :: (bytes, 'v word) host_stack \<times> nat \<times> (bytes, 'w word) device_stack \<Rightarrow> _)
      (set_mit_limit_command j t v) clock [] (0, device_init device_clock []) = Some (Inr (if j < 6 then 0 else 1))"
proof -
  let ?env = "host_env wire order" and ?sleep = "link_sleep (\<lambda>_. False) turns device_order" and ?cmd = "set_mit_limit_command j t v"
  let ?h0 = "host_send ?cmd (host_init clock [] :: (bytes, 'v word) host_stack)"
  let ?d0 = "device_init device_clock [] :: (bytes, 'w word) device_stack"
  obtain h1 where l1: "host_loop (Suc 999) ?env ?sleep (?h0, 0, ?d0) = loop_after 999 ?env ?sleep (h1, 0, ?d0)"
    and u1: "underway order device_order (request_of j t v) clock 0 0 (clock 1 + 200000) [0] [] h1 ?d0"
    by (rule first_transmission [OF w order time(1) refl refl])
  have "\<exists>k. 999 = m + Suc (Suc k)" by (rule exI [of _ "997 - m"]) (use m(1) in simp)
  then obtain k where k: "999 = m + Suc (Suc k)" by blast
  obtain h2 d2 r dl ps qs where l2: "loop_after 999 ?env ?sleep (h1, 0, ?d0) = loop_after (Suc (Suc k)) ?env ?sleep (h2, m, d2)"
    and u2: "underway order device_order (request_of j t v) clock m r dl ps qs h2 d2" and r: "r \<le> m" and some: "qs @ ps \<noteq> []"
    using waits [OF u1 order m, of "Suc (Suc k)"] unfolding k by blast
  have "r \<le> 3" "qs @ (if (\<lambda>_. False) m then [] else ps) \<noteq> []" using r m some by simp_all
  note answered = link_answered [where lost = "\<lambda>_. False" and i = m and turns = turns, OF u2 this(1) order this(2) turns time(2)]
  obtain h3 x where "loop_after (Suc (Suc k)) ?env ?sleep (h2, m, d2) = Some (Inr (h3, x))"
    "exit_code (c_user (st_core h3)) = (if j < 6 then 0 else 1)"
    by (rule answered)
  then show ?thesis using l1 l2 by (simp add: host_main_def)
qed

lemma lossy_link_exchange:
  assumes w: "12 < LENGTH('v::len)" "12 < LENGTH('w::len)" and order: "map_order order"
    and time: "clock 3 < clock 1 + 200000" "\<forall>r < min n 4. late clock r"
    and answer: "n \<le> 3 \<Longrightarrow> 0 < turns n \<and> 2 \<le> turns n + turns (Suc n) \<and> clock (7 + 3 * n) < clock (5 + 3 * n) + 200000"
  shows "host_main (host_env wire order)
      (link_sleep (\<lambda>i. i < n) turns device_order :: (bytes, 'v word) host_stack \<times> nat \<times> (bytes, 'w word) device_stack \<Rightarrow> _)
      (set_mit_limit_command j t v) clock [] (0, device_init device_clock []) = Some (Inr (if n \<le> 3 \<and> j < 6 then 0 else 1))"
proof -
  let ?env = "host_env wire order" and ?sleep = "link_sleep (\<lambda>i. i < n) turns device_order" and ?cmd = "set_mit_limit_command j t v"
  let ?h0 = "host_send ?cmd (host_init clock [] :: (bytes, 'v word) host_stack)"
  let ?d0 = "device_init device_clock [] :: (bytes, 'w word) device_stack"
  let ?i = "min n 3"
  obtain h1 where l1: "host_loop (Suc 999) ?env ?sleep (?h0, 0, ?d0) = loop_after 999 ?env ?sleep (h1, 0, ?d0)"
    and u1: "underway order device_order (request_of j t v) clock 0 0 (clock 1 + 200000) [0] [] h1 ?d0"
    by (rule first_transmission [OF w order time(1) refl refl])
  have "\<exists>k. 999 = ?i + Suc (Suc k)" by (rule exI [of _ "997 - ?i"]) simp
  then obtain k where k: "999 = ?i + Suc (Suc k)" by blast
  have i: "?i \<le> 3" "\<forall>l<?i. l < n \<and> late clock l" using time(2) by auto
  obtain h2 d2 where l2: "loop_after 999 ?env ?sleep (h1, 0, ?d0) = loop_after (Suc (Suc k)) ?env ?sleep (h2, ?i, d2)"
    and u2: "underway order device_order (request_of j t v) clock ?i ?i (deadline_at clock ?i) [of_nat ?i] [] h2 d2"
    using losses [where lost = "\<lambda>i. i < n", OF u1 order i, of "Suc (Suc k)" turns] unfolding k by blast
  obtain h3 x where l3: "loop_after (Suc (Suc k)) ?env ?sleep (h2, ?i, d2) = Some (Inr (h3, x))"
    and e3: "exit_code (c_user (st_core h3)) = (if n \<le> 3 \<and> j < 6 then 0 else 1)"
  proof (cases "n \<le> 3")
    case True
    then have n: "?i = n" by simp
    have some: "[] @ (if (\<lambda>i. i < n) n then [] else [of_nat n :: u8]) \<noteq> []" by simp
    note answered = link_answered [where lost = "\<lambda>i. i < n" and i = n and turns = turns, OF u2 [unfolded n] True order some]
    show thesis by (rule answered) (use answer True n in \<open>auto intro: that\<close>)
  next
    case False
    then have n: "?i = 3" by simp
    have "late clock 3" by (rule time(2) [rule_format]) (use False in simp)
    then have t: "deadline_at clock 3 \<le> clock 15" by simp
    have lost: "(\<lambda>i. i < n) 3" using False by simp
    note up = gives_up [where lost = "\<lambda>i. i < n" and turns = turns, OF u2 [unfolded n] order lost t]
    show thesis by (rule up) (use False n in \<open>auto intro: that\<close>)
  qed
  then show ?thesis using l1 l2 by (simp add: host_main_def)
qed

end
