(* ===== verification/Frame_Integrity.thy ===== *)
theory Frame_Integrity
  imports Parser_Stream
begin

text \<open>
  Corrupted frames. A frame is two checksummed words: the five header bytes end in their CRC-8, the
  whole frame in its CRC-16. A changed byte anywhere behind the start byte, or two adjacent changed
  bytes from the CRC-8 on, is judged \<open>Bad\<close>: the parser drops the start byte and searches on.
\<close>

lemma crc8_word: "8 * (LENGTH(8) div 8) = LENGTH(8)" and crc16_word: "8 * (LENGTH(16) div 8) = LENGTH(16)"
  by simp_all

lemmas crc8_burst = crc_valid_burst [OF ProtocolCRC8_reflected ProtocolCRC8_top crc8_word]
lemmas crc16_burst = crc_valid_burst [OF ProtocolCRC16_reflected ProtocolCRC16_top crc16_word]

abbreviation crc8_ok :: "bytes \<Rightarrow> bool" where
  "crc8_ok \<equiv> crc_valid ProtocolCRC8 (null_crc ProtocolCRC8)"

abbreviation crc16_ok :: "bytes \<Rightarrow> bool" where
  "crc16_ok \<equiv> crc_valid ProtocolCRC16 (null_crc ProtocolCRC16)"

lemma le_val_single: "le_val [b] = (b :: u8)"
  by simp

lemma crc8_ok_header: "5 \<le> length xs \<Longrightarrow>
  crc8_ok (take 5 xs) \<longleftrightarrow> crc_calc ProtocolCRC8 (take 4 xs) (null_crc ProtocolCRC8) = xs ! 4"
proof -
  assume l: "5 \<le> length xs"
  have "drop 4 (take 5 xs) = [xs ! 4]"
    using l by (simp add: drop_take take_Suc_conv_app_nth hd_drop_conv_nth take_Suc)
  then show ?thesis using l by (simp add: crc_valid_def Let_def)
qed

lemma crc16_ok_frame: "9 + n \<le> length xs \<Longrightarrow>
  crc16_ok (take (9 + n) xs) \<longleftrightarrow>
    crc_calc ProtocolCRC16 (take (7 + n) xs) (null_crc ProtocolCRC16) = le_val (mem_read xs (7 + n) 2)"
  by (simp add: crc_valid_def Let_def mem_read_def drop_take)

text \<open>A frame is accepted only if both words check.\<close>

lemma classify_default_ok:
  assumes "classify M default_worker xs = Frame n ev"
  shows "crc8_ok (take 5 xs)" and "n = 9 + unat (le_val (mem_read xs 1 2) :: u16)" and "n \<le> length xs"
    and "crc16_ok (take n xs)" and "n \<le> max 9 M"
proof -
  let ?n = "unat (le_val (mem_read xs 1 2) :: u16)"
  have l: "9 + ?n \<le> length xs" and n: "n = 9 + ?n" and M: "?n \<le> M - 9"
    and c8: "crc_calc ProtocolCRC8 (take 4 xs) (null_crc ProtocolCRC8) = xs ! 4"
    and c16: "crc_calc ProtocolCRC16 (take (7 + ?n) xs) (null_crc ProtocolCRC16) = le_val (mem_read xs (7 + ?n) 2)"
    using assms by (auto simp: classify_default Let_def split: if_splits)
  show "crc8_ok (take 5 xs)" using l c8 by (simp add: crc8_ok_header)
  show "n = 9 + ?n" by (rule n)
  show "n \<le> length xs" using l n by simp
  show "crc16_ok (take n xs)" unfolding n using crc16_ok_frame [OF l] c16 by simp
  show "n \<le> max 9 M" using n M by simp
qed

lemma classify_default_bad8: "7 \<le> length xs \<Longrightarrow> \<not> crc8_ok (take 5 xs) \<Longrightarrow> classify M default_worker xs = Bad"
  by (simp add: classify_default crc8_ok_header)

lemma classify_default_bad16:
  assumes "n = unat (le_val (mem_read xs 1 2) :: u16)" and "9 + n \<le> length xs" and "\<not> crc16_ok (take (9 + n) xs)"
  shows "classify M default_worker xs = Bad"
  using assms crc16_ok_frame [of n xs] by (simp add: classify_default Let_def)

definition burst :: "bytes \<Rightarrow> bytes \<Rightarrow> bytes \<Rightarrow> bool" where
  "burst pre d d' \<longleftrightarrow> length d = length d' \<and> d \<noteq> d' \<and>
     (length d = 1 \<and> 1 \<le> length pre \<or> length d = 2 \<and> 4 \<le> length pre)"

lemma burst_classified_bad:
  assumes f: "classify M default_worker (pre @ d @ post) = Frame (length (pre @ d @ post)) ev"
    and b: "burst pre d d'"
  shows "classify M default_worker (pre @ d' @ post @ rest) = Bad"
proof -
  let ?f = "pre @ d @ post" and ?g = "pre @ d' @ post @ rest"
  note ok = classify_default_ok [OF f]
  have d: "length d = length d'" "d \<noteq> d'" "length d \<le> 2" using b by (auto simp: burst_def)
  have len: "9 \<le> length ?f" using ok(2) by simp
  show ?thesis
  proof (cases "take 5 ?f = take 5 ?g")
    case False
    then have pre: "length pre \<le> 4" by (cases "length pre \<le> 4") auto
    have k: "1 \<le> length pre" "length d = 1 \<or> length pre = 4" using b pre by (auto simp: burst_def)
    let ?k = "5 - length pre"
    let ?x = "take ?k d" and ?y = "take ?k d'" and ?q = "take (?k - length d) post"
    have F: "take 5 ?f = pre @ ?x @ ?q" using pre by simp
    have G: "take 5 ?g = pre @ ?y @ ?q"
      using pre d len by simp
    have "?x \<noteq> ?y" using False F G by auto
    moreover have "length ?x = length ?y" "length ?x \<le> 1" using d k pre by (auto simp: burst_def)
    moreover have "crc8_ok (pre @ ?x @ ?q)" using ok(1) F by simp
    moreover have "1 \<le> length (pre @ ?x @ ?q)" using k by simp
    ultimately have "\<not> crc8_ok (pre @ ?y @ ?q)" by (intro crc8_burst) simp_all
    then show ?thesis using len d(1) G by (intro classify_default_bad8) simp_all
  next
    case True
    let ?n = "unat (le_val (mem_read ?f 1 2) :: u16)"
    have "mem_read xs 1 2 = mem_read (take 5 xs) 1 2" for xs :: bytes
      by (simp add: mem_read_def drop_take)
    then have n: "?n = unat (le_val (mem_read ?g 1 2) :: u16)" using True by metis
    have whole: "9 + ?n = length ?f" using ok(2) by simp
    have c: "crc16_ok (pre @ d @ post)" using ok(4) by simp
    have "\<not> crc16_ok (pre @ d' @ post)"
      by (rule crc16_burst [OF _ d(1) _ d(2) c]) (use len d in simp_all)
    moreover have "take (9 + ?n) ?g = pre @ d' @ post"
    proof -
      have l: "9 + ?n = length (pre @ d' @ post)" using whole d(1) by simp
      show ?thesis unfolding l by simp
    qed
    ultimately show ?thesis using n whole d(1) by (intro classify_default_bad16 [of ?n]) simp_all
  qed
qed

end
