(* ===== verification/Rx_Overflow.thy ===== *)
theory Rx_Overflow
  imports Serial_Turns
begin

text \<open>
  What happens to a chunk of the receive ring that the parser's buffer cannot take: \<open>drain_rx\<close> ignores the
  error of \<open>push_data\<close>, so the chunk is gone. The example programs have a parser buffer of 128 bytes and
  chunks of up to 256.
\<close>

lemma push_data_refused:
  "\<not> bip_fits (length data) (buffer p) \<Longrightarrow>
     push_data cfg data p s = Some (Inr (Inl (mk_error ErrorCode_BufferOverflow ''Buffer overflow''), p, s))"
  by (simp add: push_data_def bip_write_refused)

lemma drain_rx_empty: "isr_available (st_rx_ring st) = 0 \<Longrightarrow> drain_rx cfg st = Some (Inr st)"
  by (simp add: drain_rx.simps)

lemma drain_rx_refused:
  assumes inv: "isr_inv (st_rx_ring st)" and "isr_available (st_rx_ring st) \<le> 256"
    and "\<not> bip_fits (isr_available (st_rx_ring st)) (buffer (st_parser st))"
  shows "\<exists>r. drain_rx cfg st = Some (Inr (st\<lparr>st_rx_ring := r\<rparr>)) \<and> isr_contents r = [] \<and>
    isr_dropped_writes r = isr_dropped_writes (st_rx_ring st)"
proof -
  let ?ring = "st_rx_ring st" and ?n = "isr_available (st_rx_ring st)"
  have n: "?n \<noteq> 0" using assms(3) by (auto simp: bip_fits_def)
  have m: "(if ?n < 256 then ?n else 256) = ?n" using assms(2) by simp
  obtain data r where rd: "isr_read ?n ?ring = (data, r)" by fastforce
  note c = isr_read_contents [OF inv rd]
  have len: "length data = ?n" using c by simp
  have empty: "isr_contents r = []" using c by simp
  then have "isr_available r = 0" using length_isr_contents [of r] by simp
  moreover have "isr_dropped_writes r = isr_dropped_writes ?ring"
    using rd n by (auto simp: isr_read_def isr_dropped_writes_def Let_def)
  moreover have "data \<noteq> []" using len n by auto
  then have "drain_rx cfg st = drain_rx cfg (st\<lparr>st_rx_ring := r\<rparr>)"
    using n rd push_data_refused [of data "st_parser st" cfg "st_core st"] assms(3)
    by (subst drain_rx.simps) (simp add: m len)
  ultimately show ?thesis using empty drain_rx_empty [of "st\<lparr>st_rx_ring := r\<rparr>" cfg] by auto
qed

lemma device_burst_lost:
  fixes clock :: "nat \<Rightarrow> int" and port :: 'x
  assumes "12 < LENGTH('w::len)" and "128 < length data" and "length data \<le> 256"
    and st: "st = (device_init clock port :: ('x, 'w word) device_stack)"
  shows "\<exists>st'. drain_rx cfg (isr_feed data st) = Some (Inr st') \<and> st_core st' = st_core st \<and> st_parser st' = st_parser st \<and>
    rx_available st' = 0 \<and> rx_dropped_writes st' = 0"
proof -
  let ?ring = "st_rx_ring st"
  have ring: "?ring = isr_init (2 ^ 12)" "bip_size (buffer (st_parser st)) = 128"
    "region_a_start (buffer (st_parser st)) = 0"
    by (simp_all add: st device_init_def stack_init_def Let_def parser_init_def buffer_size_serial bip_init_def)
  have inv: "isr_inv ?ring" unfolding ring(1) by (rule isr_init_inv) (rule assms(1))
  obtain ok r where w: "isr_write data ?ring = (ok, r)" by fastforce
  have "isr_available ?ring = 0" by (simp add: ring(1) isr_init_def isr_available_def)
  then have room: "length data \<le> rb_capacity ?ring - isr_available ?ring"
    using assms(3) by (simp add: ring(1) isr_init_def)
  have c: "isr_inv r" "isr_contents r = data"
    using isr_write_accepted [OF inv room w] by (simp_all add: ring(1))
  have d: "isr_dropped_writes r = 0"
    using w isr_write_cases [OF inv, of data] room by (auto simp: isr_dropped_writes_def ring(1) isr_init_def)
  have av: "isr_available r = length data" using length_isr_contents [of r] by (simp add: c(2))
  have "\<not> bip_fits (length data) (buffer (st_parser st))"
    using assms(2) by (auto simp: bip_fits_def ring)
  then show ?thesis
    using drain_rx_refused [of "isr_feed data st" cfg] c(1) av assms(3) w d
    by (auto simp: isr_feed_def rx_available_def rx_dropped_writes_def simp flip: length_isr_contents)
qed

end
