(* ===== verification/Frame_Length.thy ===== *)
theory Frame_Length
  imports Parser_Stream
begin

text \<open>
  Frames whose checksums are right and whose length field is not the size of the packet the command names: the
  parser checks the length against its own maximum only, and what it then does depends on where the frame
  lies in the ring.
\<close>

lemma frame_of_any_length:
  assumes "length payload + 9 \<le> max_frame_size Ts" and "length payload < 2 ^ 16"
  shows "classify (calculate_max_frame_size Ts) default_worker (default_frame seq cmd payload @ rest) =
    Frame (9 + length payload) (cmd, payload)"
  using classify_default_frame [OF assms(2), of "max_frame_size Ts" seq cmd] assms(1)
    classify_stable [of "max_frame_size Ts" default_worker "default_frame seq cmd payload" rest]
  by (simp add: calculate_max_frame_size_eq)

lemma parse_any_length:
  assumes Ts: "default_packets Ts" and T: "T \<in> set Ts" and inv: "bip_inv (buffer p)"
    and len: "length payload + 9 \<le> max_frame_size Ts" "length payload < 2 ^ 16"
    and xs: "bip_contents (buffer p) = default_frame seq (pt_cmd T) payload @ rest"
    and sp: "get_read_spans 0 (9 + length payload) (buffer p) = (s1, s2)"
    and ps: "payload_spans DefaultProtocol (length payload) s1 s2 = (p1, p2)"
    and d: "try_dispatch (default_config Ts ap mon) (buffer p) T p1 p2 s = res"
    and skip: "pt_skip_memory_pool T" "\<And>skip s'. res = Inr (skip, s') \<Longrightarrow> skip"
  shows "parse_frame_impl (default_config Ts ap mon) default_worker p s =
    (case res of
       Inl f \<Rightarrow> Inl f
     | Inr (skip, s') \<Rightarrow> Inr (Success, p\<lparr>buffer := snd (bip_discard (9 + length payload) (buffer p))\<rparr>, s'))"
proof -
  obtain i where i: "get_type_index_by_cmd Ts (pt_cmd T) = Some i" "Ts ! i = T"
    using get_type_index_nth [OF _ T] Ts by (auto simp: default_packets_def)
  have "dispatch_and_store (default_config Ts ap mon) (buffer p) (pt_cmd T) p1 p2 (deser p) s =
      (case res of Inl f \<Rightarrow> Inl f | Inr (skip, s') \<Rightarrow> Inr (deser p, s'))"
    using skip(2) d by (auto simp: dispatch_and_store_def dispatch_index i split: sum.split)
  then show ?thesis
    using parse_frame_dispatch [OF wf_default_config [OF Ts] _ inv, of default_worker ap mon s]
      frame_of_any_length [OF len, of seq "pt_cmd T" rest]
    by (simp add: xs sp ps split: sum.split)
qed

lemma long_split_payload:
  assumes Ts: "default_packets Ts" and T: "T \<in> set Ts" "pt_after_parse T" "pt_skip_memory_pool T"
    and inv: "bip_inv (buffer p)"
    and len: "pt_size T < length payload" "length payload + 9 \<le> max_frame_size Ts" "length payload < 2 ^ 16"
    and xs: "bip_contents (buffer p) = default_frame seq (pt_cmd T) payload @ rest"
    and wrap: "7 < region_a_size (buffer p)" "region_a_size (buffer p) < 7 + length payload"
  shows "parse_frame_impl (default_config Ts ap mon) default_worker p s = Inl Out_Of_Bounds"
proof -
  let ?b = "buffer p"
  have "length (bip_contents ?b) = bip_available ?b" using inv by simp
  then have av: "9 + length payload \<le> bip_available ?b" by (simp add: xs)
  let ?a = "region_a_size ?b"
  have sp: "get_read_spans 0 (9 + length payload) ?b = ((region_a_start ?b, ?a), (0, 9 + length payload - ?a))"
    using av wrap by (simp add: get_read_spans_def Let_def)
  have ps: "payload_spans DefaultProtocol (length payload) (region_a_start ?b, ?a) (0, 9 + length payload - ?a) =
      (Some (region_a_start ?b + 7, ?a - 7), Some (0, length payload - (?a - 7)))"
    using wrap by (simp add: payload_spans_def Let_def)
  have "try_dispatch (default_config Ts ap mon) ?b T (Some (region_a_start ?b + 7, ?a - 7))
      (Some (0, length payload - (?a - 7))) s = Inl Out_Of_Bounds"
    using wrap len(1) T(2) by (simp add: try_dispatch_def Let_def)
  from parse_any_length [OF Ts T(1) inv len(2,3) xs sp ps this T(3)] show ?thesis by simp
qed

lemma short_payload:
  assumes Ts: "default_packets Ts" and T: "T \<in> set Ts" "pt_after_parse T" "pt_skip_memory_pool T"
    and inv: "bip_inv (buffer p)"
    and len: "length payload < pt_size T" "length payload + 9 \<le> max_frame_size Ts"
    and xs: "bip_contents (buffer p) = default_frame seq (pt_cmd T) payload @ rest"
    and whole: "region_b_size (buffer p) = 0" and more: "pt_size T \<le> length payload + 2 + length rest"
  shows "parse_frame_impl (default_config Ts ap mon) default_worker p s =
    Inr (Success, p\<lparr>buffer := snd (bip_discard (9 + length payload) (buffer p))\<rparr>,
      ap T (take (pt_size T) (drop 7 (default_frame seq (pt_cmd T) payload @ rest))) s)"
proof -
  let ?b = "buffer p" and ?f = "default_frame seq (pt_cmd T) payload"
  have "length (bip_contents ?b) = bip_available ?b" using inv by simp
  then have a: "region_a_size ?b = 9 + length payload + length rest" using whole by (simp add: xs bip_available_def)
  have size: "sizeof (pt_type T) = pt_size T" "pt_size T < 2 ^ 16"
    using Ts T(1) by (simp_all add: default_packets_def list_all_iff)
  have sp: "get_read_spans 0 (9 + length payload) ?b = ((region_a_start ?b, 9 + length payload), (0, 0))"
    using a whole by (simp add: get_read_spans_def bip_available_def Let_def)
  have ps: "payload_spans DefaultProtocol (length payload) (region_a_start ?b, 9 + length payload) (0, 0) =
      (Some (region_a_start ?b + 7, length payload), None)"
    by (simp add: payload_spans_def Let_def)
  have mem: "region_a_start ?b + 7 + pt_size T \<le> bip_size ?b"
    using inv more a by (simp add: bip_inv_def)
  have c: "?f @ rest = mem_read (bip_mem ?b) (region_a_start ?b) (9 + length payload + length rest)"
    using xs whole a by (simp add: bip_contents_def mem_read_def)
  have "mem_read (bip_mem ?b) (region_a_start ?b + 7) (pt_size T) = take (pt_size T) (drop 7 (?f @ rest))"
    unfolding c using more by (simp add: mem_read_def drop_take min_absorb1 add.commute)
  then have "try_dispatch (default_config Ts ap mon) ?b T (Some (region_a_start ?b + 7, length payload)) None s =
      Inr (True, ap T (take (pt_size T) (drop 7 (?f @ rest))) s)"
    using T(2,3) mem by (simp add: try_dispatch_def Let_def size(1))
  moreover have "length payload < 2 ^ 16" using len(1) size(2) by simp
  ultimately show ?thesis
    using parse_any_length [OF Ts T(1) inv len(2) _ xs sp ps, where s = s and ap = ap and mon = mon,
        of "Inr (True, ap T (take (pt_size T) (drop 7 (?f @ rest))) s)"] T(3) by simp
qed

end
