(* ===== verification/Isr_Interleaving.thy ===== *)
theory Isr_Interleaving
  imports Isr_Ring "HOL-Library.Sublist"
begin

text \<open>
  \<open>ISRRingBuffer\<close> with its two users at once: the producer is \<open>write\<close> in the interrupt handler, the consumer
  \<open>read\<close> in the protocol thread. Each load or store of a shared index is one step, and each byte of a
  \<open>memcpy\<close> is one step; the steps of the two sides interleave in any order, with sequentially consistent
  memory (the release store and the acquire load of \<open>m_write_idx\<close> order the bytes before the index). The
  fields \<open>accepted\<close> and \<open>delivered\<close> record what \<open>write\<close> has accepted and \<open>read\<close> has returned.
\<close>

section \<open>Steps\<close>

datatype 'size_t producer = P_Idle | P_Loaded bytes 'size_t | P_Copy bytes 'size_t nat

datatype consumer = C_Idle | C_Copy nat bytes

record 'size_t ring_system =
  shared :: "'size_t isr_ring"
  producer :: "'size_t producer"
  consumer :: consumer
  accepted :: bytes
  delivered :: bytes

definition masked :: "'w::len word isr_ring \<Rightarrow> 'w word \<Rightarrow> nat \<Rightarrow> nat" where
  "masked r i k = (unat (i AND (of_nat (rb_capacity r) - 1)) + k) mod rb_capacity r"

text \<open>The steps of \<open>write(data)\<close>: the rules up to \<open>publish\<close>; then those of \<open>read(out, max)\<close>.\<close>

inductive ring_step :: "'w::len word ring_system \<Rightarrow> 'w word ring_system \<Rightarrow> bool" where
  too_long: "producer s = P_Idle \<Longrightarrow> rb_capacity (shared s) < length (data :: bytes) \<Longrightarrow>
    ring_step s (s\<lparr>shared := (shared s)\<lparr>rb_drop_count := rb_drop_count (shared s) + 1\<rparr>\<rparr>)"
| load_write: "producer s = P_Idle \<Longrightarrow> length data \<le> rb_capacity (shared s) \<Longrightarrow>
    ring_step s (s\<lparr>producer := P_Loaded data (rb_write_idx (shared s))\<rparr>)"
| refuse: "producer s = P_Loaded data w \<Longrightarrow>
    unat (of_nat (rb_capacity (shared s)) - (w - rb_read_idx (shared s))) < length data \<Longrightarrow>
    ring_step s (s\<lparr>shared := (shared s)\<lparr>rb_drop_count := rb_drop_count (shared s) + 1\<rparr>, producer := P_Idle\<rparr>)"
| admit: "producer s = P_Loaded data w \<Longrightarrow>
    length data \<le> unat (of_nat (rb_capacity (shared s)) - (w - rb_read_idx (shared s))) \<Longrightarrow>
    ring_step s (s\<lparr>producer := P_Copy data w 0\<rparr>)"
| copy_in: "producer s = P_Copy data w k \<Longrightarrow> k < length data \<Longrightarrow>
    ring_step s (s\<lparr>shared := (shared s)\<lparr>rb_buf := (rb_buf (shared s))[masked (shared s) w k := data ! k]\<rparr>,
      producer := P_Copy data w (k + 1)\<rparr>)"
| publish: "producer s = P_Copy data w k \<Longrightarrow> k = length data \<Longrightarrow>
    ring_step s (s\<lparr>shared := (shared s)\<lparr>rb_write_idx := w + of_nat (length data)\<rparr>, producer := P_Idle,
      accepted := accepted s @ data\<rparr>)"
| nothing: "consumer s = C_Idle \<Longrightarrow> isr_available (shared s) = 0 \<or> (mx :: nat) = 0 \<Longrightarrow> ring_step s s"
| load_available: "consumer s = C_Idle \<Longrightarrow> isr_available (shared s) \<noteq> 0 \<Longrightarrow> mx \<noteq> 0 \<Longrightarrow>
    ring_step s (s\<lparr>consumer := C_Copy (if mx < isr_available (shared s) then mx else isr_available (shared s)) []\<rparr>)"
| copy_out: "consumer s = C_Copy n out \<Longrightarrow> length out < n \<Longrightarrow>
    ring_step s (s\<lparr>consumer :=
      C_Copy n (out @ [rb_buf (shared s) ! masked (shared s) (rb_read_idx (shared s)) (length out)])\<rparr>)"
| commit: "consumer s = C_Copy n out \<Longrightarrow> length out = n \<Longrightarrow>
    ring_step s (s\<lparr>shared := (shared s)\<lparr>rb_read_idx := rb_read_idx (shared s) + of_nat n\<rparr>, consumer := C_Idle,
      delivered := delivered s @ out\<rparr>)"

abbreviation ring_steps :: "'w::len word ring_system \<Rightarrow> 'w word ring_system \<Rightarrow> bool" where
  "ring_steps \<equiv> ring_step\<^sup>*\<^sup>*"

definition ring_start :: "'w::len word isr_ring \<Rightarrow> 'w word ring_system" where
  "ring_start r = \<lparr>shared = r, producer = P_Idle, consumer = C_Idle, accepted = isr_contents r, delivered = []\<rparr>"

section \<open>Invariant\<close>

fun producer_ok :: "'w::len word isr_ring \<Rightarrow> 'w word producer \<Rightarrow> bool" where
  "producer_ok r P_Idle \<longleftrightarrow> True"
| "producer_ok r (P_Loaded data w) \<longleftrightarrow> w = rb_write_idx r \<and> length data \<le> rb_capacity r"
| "producer_ok r (P_Copy data w k) \<longleftrightarrow>
     w = rb_write_idx r \<and> k \<le> length data \<and> isr_available r + length data \<le> rb_capacity r \<and>
     ring_view (rb_buf r) (unat w) k = take k data"

fun consumer_ok :: "'w::len word isr_ring \<Rightarrow> consumer \<Rightarrow> bool" where
  "consumer_ok r C_Idle \<longleftrightarrow> True"
| "consumer_ok r (C_Copy n out) \<longleftrightarrow>
     n \<le> isr_available r \<and> length out \<le> n \<and> out = take (length out) (isr_contents r)"

definition system_inv :: "'w::len word ring_system \<Rightarrow> bool" where
  "system_inv s \<longleftrightarrow>
     isr_inv (shared s) \<and> accepted s = delivered s @ isr_contents (shared s) \<and>
     producer_ok (shared s) (producer s) \<and> consumer_ok (shared s) (consumer s)"

lemma ring_start_inv: "isr_inv r \<Longrightarrow> system_inv (ring_start r)"
  by (simp add: system_inv_def ring_start_def)

lemma masked_eq:
  assumes "isr_inv (r :: 'w::len word isr_ring)"
  shows "masked r i k = (unat i + k) mod rb_capacity r"
  by (simp add: masked_def isr_mask_index [OF assms] mod_add_left_eq)

lemma mod_apart:
  assumes "i < j" and "j < i + c"
  shows "i mod c \<noteq> j mod (c :: nat)"
proof
  assume "i mod c = j mod c"
  then have "j mod c = i mod c" by (rule sym)
  then have "c dvd j - i" using assms(1) by (simp add: mod_eq_dvd_iff_nat)
  then have "c \<le> j - i" using assms(1) by (simp add: dvd_imp_le)
  then show False using assms by simp
qed

lemma ring_view_update:
  assumes "\<And>i. i < n \<Longrightarrow> (s + i) mod length buf \<noteq> p"
  shows "ring_view (buf[p := x]) s n = ring_view buf s n"
  by (simp add: ring_view_def) (metis assms nth_list_update_neq atLeastLessThan_iff)

lemma ring_view_Suc: "ring_view buf s (Suc n) = ring_view buf s n @ [buf ! ((s + n) mod length buf)]"
  by (simp add: ring_view_def)

text \<open>A byte the producer copies lies outside what the consumer may read, and outside what it has copied before.\<close>

lemma copy_in_view:
  assumes "isr_inv (r :: 'w::len word isr_ring)" and "isr_available r + k < rb_capacity r"
    and "r' = r\<lparr>rb_buf := (rb_buf r)[masked r (rb_write_idx r) k := x]\<rparr>"
  shows "isr_inv r'" and "isr_available r' = isr_available r" and "isr_contents r' = isr_contents r"
    and "ring_view (rb_buf r') (unat (rb_write_idx r)) (Suc k) = ring_view (rb_buf r) (unat (rb_write_idx r)) k @ [x]"
proof -
  let ?c = "rb_capacity r" and ?b = "rb_buf r" and ?w = "unat (rb_write_idx r)" and ?r = "unat (rb_read_idx r)"
  have p: "masked r (rb_write_idx r) k = (?w + k) mod ?c" using assms(1) by (simp add: masked_eq)
  have "?w mod ?c = (?r + isr_available r) mod ?c" by (rule isr_write_index [OF assms(1)])
  then have "(?w mod ?c + k) mod ?c = ((?r + isr_available r) mod ?c + k) mod ?c" by (rule arg_cong)
  then have p': "(?w + k) mod ?c = (?r + (isr_available r + k)) mod ?c" by (simp only: mod_add_left_eq add.assoc)
  show "isr_available r' = isr_available r" by (simp add: assms(3) isr_available_def)
  then show "isr_inv r'" using assms(1) by (simp add: isr_inv_def) (simp add: assms(3))
  have "ring_view (?b[masked r (rb_write_idx r) k := x]) ?r (isr_available r) = ring_view ?b ?r (isr_available r)"
    unfolding p p' by (rule ring_view_update, rule mod_apart) (use assms(2) in simp_all)
  then show "isr_contents r' = isr_contents r" by (simp add: isr_contents_def assms(3) isr_available_def)
  have "ring_view (?b[masked r (rb_write_idx r) k := x]) ?w k = ring_view ?b ?w k"
    unfolding p by (rule ring_view_update, rule mod_apart) (use assms(2) in simp_all)
  moreover have "(?w + k) mod ?c < ?c" by (rule mod_less_divisor) (use assms(2) in linarith)
  ultimately show "ring_view (rb_buf r') ?w (Suc k) = ring_view ?b ?w k @ [x]"
    by (simp add: assms(3) ring_view_Suc p)
qed

lemma publish_view:
  assumes "isr_inv (r :: 'w::len word isr_ring)" and "isr_available r + length data \<le> rb_capacity r"
    and "ring_view (rb_buf r) (unat (rb_write_idx r)) (length data) = data"
    and "r' = r\<lparr>rb_write_idx := rb_write_idx r + of_nat (length data)\<rparr>"
  shows "isr_inv r'" and "isr_contents r' = isr_contents r @ data" and "isr_available r \<le> isr_available r'"
proof -
  have av: "isr_available r' = isr_available r + length data"
    using isr_available_add [of r "length data"] assms(2) isr_capacity_bounds [OF assms(1)]
    by (simp add: assms(4) isr_available_def)
  then show "isr_inv r'" and "isr_available r \<le> isr_available r'" using assms(1,2) by (simp_all add: isr_inv_def assms(4))
  have "ring_view (rb_buf r) (unat (rb_read_idx r) + isr_available r) (length data) = data"
    using assms(3) isr_write_index [OF assms(1)] by (metis ring_view_mod)
  then show "isr_contents r' = isr_contents r @ data"
    by (simp add: isr_contents_def av ring_view_append) (simp add: assms(4) ring_view_append)
qed

lemma producer_ok_admit:
  assumes "isr_inv r" and "producer_ok r (P_Loaded data w)"
    and "length data \<le> unat (of_nat (rb_capacity r) - (w - rb_read_idx r))"
  shows "producer_ok r (P_Copy data w 0)"
proof -
  have "length data \<le> rb_capacity r - isr_available r"
    using isr_free [OF assms(1)] assms(2,3) by simp
  moreover have "isr_available r \<le> rb_capacity r" using assms(1) by (simp add: isr_inv_def)
  ultimately show ?thesis using assms(2) by (simp add: ring_view_def)
qed

lemma drop_count_irrelevant [simp]:
  "isr_inv (r\<lparr>rb_drop_count := d\<rparr>) = isr_inv r" "isr_contents (r\<lparr>rb_drop_count := d\<rparr>) = isr_contents r"
  "isr_available (r\<lparr>rb_drop_count := d\<rparr>) = isr_available r"
  "consumer_ok (r\<lparr>rb_drop_count := d\<rparr>) c = consumer_ok r c"
  by (cases c; simp add: isr_inv_def isr_contents_def isr_available_def)+

lemma consumer_ok_grows:
  assumes "consumer_ok r c" and "isr_contents r' = isr_contents r @ xs" and "isr_available r \<le> isr_available r'"
  shows "consumer_ok r' c"
  using assms by (cases c) (auto simp: isr_contents_def)

lemma producer_ok_drains:
  assumes "producer_ok r p" and "rb_buf r' = rb_buf r" and "rb_write_idx r' = rb_write_idx r"
    and "isr_available r' \<le> isr_available r"
  shows "producer_ok r' p"
  using assms by (cases p) auto

text \<open>The two steps that copy a byte.\<close>

lemma copy_in_inv:
  assumes inv: "system_inv s" and p: "producer s = P_Copy data w k" and k: "k < length data"
    and r': "r' = (shared s)\<lparr>rb_buf := (rb_buf (shared s))[masked (shared s) w k := data ! k]\<rparr>"
  shows "system_inv (s\<lparr>shared := r', producer := P_Copy data w (k + 1)\<rparr>)"
proof -
  have w: "w = rb_write_idx (shared s)" and room: "isr_available (shared s) + k < rb_capacity (shared s)"
    and s: "isr_inv (shared s)" using inv p k by (simp_all add: system_inv_def)
  note view = copy_in_view [OF s room, of r' "data ! k", unfolded w [symmetric], OF r']
  have "producer_ok r' (P_Copy data w (k + 1))"
    using inv p k room view(2,4) w r' by (auto simp: system_inv_def take_Suc_conv_app_nth)
  moreover have "consumer_ok r' (consumer s)"
    using inv view(2,3) consumer_ok_grows [of "shared s" "consumer s" r' "[]"] by (simp add: system_inv_def)
  moreover have "accepted s = delivered s @ isr_contents (shared s)" using inv by (simp add: system_inv_def)
  ultimately show ?thesis using view(1,3) by (simp add: system_inv_def del: producer_ok.simps)
qed

lemma copy_out_inv:
  assumes inv: "system_inv s" and c: "consumer s = C_Copy n out" and less: "length out < n"
  shows "system_inv (s\<lparr>consumer := C_Copy n (out @ [rb_buf (shared s) ! masked (shared s) (rb_read_idx (shared s)) (length out)])\<rparr>)"
proof -
  have s: "isr_inv (shared s)" and n: "n \<le> isr_available (shared s)" "out = take (length out) (isr_contents (shared s))"
    using inv c by (simp_all add: system_inv_def)
  have "isr_contents (shared s) ! length out = rb_buf (shared s) ! masked (shared s) (rb_read_idx (shared s)) (length out)"
    using less n(1) by (simp add: isr_contents_def ring_view_def masked_eq [OF s])
  moreover have len: "length out < length (isr_contents (shared s))" using less n(1) by (simp add: isr_contents_def)
  ultimately have "out @ [rb_buf (shared s) ! masked (shared s) (rb_read_idx (shared s)) (length out)] =
      take (Suc (length out)) (isr_contents (shared s))"
    using n(2) by (simp add: take_Suc_conv_app_nth)
  then show ?thesis using inv c less len n(1) by (simp add: system_inv_def)
qed

lemma ring_step_inv: "ring_step s s' \<Longrightarrow> system_inv s \<Longrightarrow> system_inv s'"
proof (induction rule: ring_step.induct)
  case (refuse s data w)
  then show ?case by (simp add: system_inv_def)
next
  case (admit s data w)
  then show ?case using producer_ok_admit [of "shared s" data w] by (simp add: system_inv_def del: producer_ok.simps)
next
  case (copy_in s data w k)
  then show ?case by (intro copy_in_inv) simp_all
next
  case (publish s data w k)
  have w: "w = rb_write_idx (shared s)" and "isr_inv (shared s)"
    and "isr_available (shared s) + length data \<le> rb_capacity (shared s)"
    and "ring_view (rb_buf (shared s)) (unat (rb_write_idx (shared s))) (length data) = data"
    using publish by (auto simp: system_inv_def)
  note view = publish_view [OF this(2-4) refl]
  then show ?case using publish w consumer_ok_grows [OF _ view(2,3)] by (simp add: system_inv_def)
next
  case (copy_out s n out)
  then show ?case by (intro copy_out_inv) simp_all
next
  case (commit s n out)
  let ?r' = "(shared s)\<lparr>rb_read_idx := rb_read_idx (shared s) + of_nat n\<rparr>"
  have "isr_inv (shared s)" and n: "n \<le> isr_available (shared s)" and out: "out = take n (isr_contents (shared s))"
    using commit by (auto simp: system_inv_def)
  note view = isr_advance_read [OF this(1,2) refl]
  have "producer_ok ?r' (producer s)"
    using commit producer_ok_drains [of "shared s" "producer s" ?r'] view(3) by (simp add: system_inv_def)
  then show ?case using commit view(1,2) out by (simp add: system_inv_def)
qed (auto simp: system_inv_def)

lemma ring_steps_inv: "ring_steps s s' \<Longrightarrow> system_inv s \<Longrightarrow> system_inv s'"
  by (induction rule: rtranclp_induct) (auto intro: ring_step_inv)

section \<open>The operations are runs of steps\<close>

lemma masked_less: "isr_inv r \<Longrightarrow> masked r i k < rb_capacity r"
  using isr_capacity_bounds(1) [of r] by (simp add: masked_def)

lemma ring_put_Nil: "wi < length buf \<Longrightarrow> ring_put buf wi [] = buf"
  by (simp add: ring_put_def mem_write_def)

lemma ring_put_snoc:
  assumes "wi < length buf" and "length data < length buf"
  shows "ring_put buf wi (data @ [x]) = (ring_put buf wi data)[(wi + length data) mod length buf := x]"
proof (rule nth_equalityI)
  show "length (ring_put buf wi (data @ [x])) = length ((ring_put buf wi data)[(wi + length data) mod length buf := x])"
    using assms by simp
next
  fix p
  assume "p < length (ring_put buf wi (data @ [x]))"
  then have p: "p < length buf" using assms by simp
  have idx: "(wi + length data) mod length buf =
      (if wi + length data < length buf then wi + length data else wi + length data - length buf)"
    using assms by (simp add: wrap_index)
  show "ring_put buf wi (data @ [x]) ! p = (ring_put buf wi data)[(wi + length data) mod length buf := x] ! p"
    using assms p by (auto simp: ring_put_nth idx nth_list_update nth_append)
qed

lemma copy_in_run:
  assumes "isr_inv (shared s)" and "producer s = P_Copy data w 0" and "length data \<le> rb_capacity (shared s)"
    and "k \<le> length data"
  shows "ring_steps s (s\<lparr>shared := (shared s)\<lparr>rb_buf := ring_put (rb_buf (shared s)) (unat w mod rb_capacity (shared s)) (take k data)\<rparr>,
    producer := P_Copy data w k\<rparr>)"
  using assms(4)
proof (induction k)
  case 0
  have "unat w mod rb_capacity (shared s) < rb_capacity (shared s)" using isr_capacity_bounds(1) [OF assms(1)] by simp
  from ring_put_Nil [OF this] show ?case using assms(2) by (cases s) simp
next
  case (Suc k)
  let ?c = "rb_capacity (shared s)" and ?buf = "rb_buf (shared s)"
  let ?s' = "s\<lparr>shared := (shared s)\<lparr>rb_buf := ring_put ?buf (unat w mod ?c) (take k data)\<rparr>, producer := P_Copy data w k\<rparr>"
  have wi: "unat w mod ?c < ?c" using isr_capacity_bounds(1) [OF assms(1)] by simp
  have len: "length (ring_put ?buf (unat w mod ?c) (take k data)) = ?c" using wi assms(3) Suc.prems by simp
  have "masked (shared ?s') w k = (unat w mod ?c + k) mod ?c"
    using masked_eq [OF assms(1), of w k] by (simp add: masked_def len mod_add_left_eq)
  moreover have "ring_put ?buf (unat w mod ?c) (take (Suc k) data) =
      (ring_put ?buf (unat w mod ?c) (take k data))[(unat w mod ?c + k) mod ?c := data ! k]"
    using ring_put_snoc [OF wi, of "take k data" "data ! k"] Suc.prems assms(3) by (simp add: take_Suc_conv_app_nth)
  moreover have "ring_step ?s' (?s'\<lparr>shared := (shared ?s')\<lparr>rb_buf := (rb_buf (shared ?s'))[masked (shared ?s') w k := data ! k]\<rparr>,
      producer := P_Copy data w (k + 1)\<rparr>)"
    by (rule copy_in) (use Suc.prems in simp_all)
  ultimately show ?case using Suc by (simp add: rtranclp.rtrancl_into_rtrancl)
qed

lemma idle_again:
  "producer s = P_Idle \<Longrightarrow> s\<lparr>shared := r, producer := P_Idle, accepted := a\<rparr> = s\<lparr>shared := r, accepted := a\<rparr>"
  "producer s = P_Idle \<Longrightarrow> s\<lparr>shared := r, producer := P_Idle\<rparr> = s\<lparr>shared := r\<rparr>"
  by (cases s; simp)+

lemma write_is_a_run:
  assumes "isr_inv (shared s)" and "producer s = P_Idle" and "isr_write data (shared s) = (ok, r')"
  shows "ring_steps s (s\<lparr>shared := r', accepted := accepted s @ (if ok then data else [])\<rparr>)"
proof (cases "rb_capacity (shared s) < length data")
  case True
  then have r': "r' = (shared s)\<lparr>rb_drop_count := rb_drop_count (shared s) + 1\<rparr>" "\<not> ok"
    using assms(3) by (simp_all add: isr_write_def)
  have "s\<lparr>shared := r', accepted := accepted s @ (if ok then data else [])\<rparr> = s\<lparr>shared := r'\<rparr>" using r' by simp
  then show ?thesis using too_long [OF assms(2) True] r' by (simp add: r_into_rtranclp)
next
  case False
  let ?w = "rb_write_idx (shared s)"
  let ?s1 = "s\<lparr>producer := P_Loaded data ?w\<rparr>"
  have s1: "ring_step s ?s1" by (rule load_write) (use assms(2) False in simp_all)
  show ?thesis
  proof (cases "length data \<le> unat (of_nat (rb_capacity (shared s)) - (?w - rb_read_idx (shared s)))")
    case True
    let ?c = "rb_capacity (shared s)"
    let ?s2 = "s\<lparr>producer := P_Copy data ?w 0\<rparr>"
    let ?s3 = "s\<lparr>shared := (shared s)\<lparr>rb_buf := ring_put (rb_buf (shared s)) (unat ?w mod ?c) data\<rparr>,
      producer := P_Copy data ?w (length data)\<rparr>"
    have s2: "ring_step ?s1 ?s2" using admit [of ?s1 data ?w] True by simp
    have s3: "ring_steps ?s2 ?s3" using copy_in_run [of ?s2 data ?w "length data"] assms(1) False by simp
    have r': "ok" "r' = (shared s)\<lparr>rb_buf := ring_put (rb_buf (shared s)) (unat ?w mod ?c) data,
        rb_write_idx := ?w + of_nat (length data)\<rparr>"
      using assms(1,3) True False by (simp_all add: isr_write_def Let_def isr_mask_index)
    have s4: "ring_step ?s3 (s\<lparr>shared := r', accepted := accepted s @ data\<rparr>)"
      using publish [of ?s3 data ?w "length data"] by (simp add: r' idle_again [OF assms(2)])
    from s1 s2 have "ring_steps s ?s2" by (meson converse_rtranclp_into_rtranclp r_into_rtranclp)
    with s3 s4 have "ring_steps s (s\<lparr>shared := r', accepted := accepted s @ data\<rparr>)"
      by (meson rtranclp.rtrancl_into_rtrancl rtranclp_trans)
    then show ?thesis using r'(1) by simp
  next
    case False': False
    have r': "r' = (shared s)\<lparr>rb_drop_count := rb_drop_count (shared s) + 1\<rparr>" "\<not> ok"
      using assms(3) False False' by (auto simp: isr_write_def Let_def)
    have "ring_step ?s1 (s\<lparr>shared := r'\<rparr>)" using refuse [of ?s1 data ?w] False' by (simp add: r' idle_again [OF assms(2)])
    with s1 have "ring_steps s (s\<lparr>shared := r'\<rparr>)" by (meson converse_rtranclp_into_rtranclp r_into_rtranclp)
    then show ?thesis using r'(2) by simp
  qed
qed

lemma copy_out_run:
  assumes "isr_inv (shared s)" and "consumer s = C_Copy n []" and "k \<le> n"
  shows "ring_steps s (s\<lparr>consumer := C_Copy n (ring_view (rb_buf (shared s)) (unat (rb_read_idx (shared s))) k)\<rparr>)"
  using assms(3)
proof (induction k)
  case 0
  then show ?case using assms(2) by (cases s) (simp add: ring_view_def)
next
  case (Suc k)
  let ?v = "ring_view (rb_buf (shared s)) (unat (rb_read_idx (shared s)))"
  have "ring_step (s\<lparr>consumer := C_Copy n (?v k)\<rparr>) (s\<lparr>consumer := C_Copy n (?v (Suc k))\<rparr>)"
    using copy_out [of "s\<lparr>consumer := C_Copy n (?v k)\<rparr>" n "?v k"] Suc.prems
    by (simp add: ring_view_Suc masked_eq [OF assms(1)])
  with Suc show ?case by (simp add: rtranclp.rtrancl_into_rtrancl)
qed

lemma read_is_a_run:
  assumes "isr_inv (shared s)" and "consumer s = C_Idle" and "isr_read mx (shared s) = (ys, r')"
  shows "ring_steps s (s\<lparr>shared := r', delivered := delivered s @ ys\<rparr>)"
proof (cases "isr_available (shared s) = 0 \<or> mx = 0")
  case True
  then show ?thesis using assms(3) by (auto simp: isr_read_def)
next
  case False
  let ?r = "shared s"
  define n where "n = (if mx < isr_available ?r then mx else isr_available ?r)"
  have n: "n \<le> rb_capacity ?r" using assms(1) by (simp add: n_def isr_inv_def)
  have "unat (rb_read_idx ?r) mod rb_capacity ?r < rb_capacity ?r" using isr_capacity_bounds(1) [OF assms(1)] by simp
  from ring_get_view [OF this n] have ys: "ys = ring_view (rb_buf ?r) (unat (rb_read_idx ?r)) n"
    and r': "r' = ?r\<lparr>rb_read_idx := rb_read_idx ?r + of_nat n\<rparr>"
    using assms(3) False by (auto simp: isr_read_def n_def Let_def isr_mask_index [OF assms(1)] ring_view_mod)
  let ?s1 = "s\<lparr>consumer := C_Copy n []\<rparr>" and ?s2 = "s\<lparr>consumer := C_Copy n ys\<rparr>"
  have "ring_step s ?s1" using load_available [of s mx] assms(2) False by (simp add: n_def)
  moreover have "ring_steps ?s1 ?s2" using copy_out_run [of ?s1 n n] assms(1) by (simp add: ys)
  moreover have "ring_step ?s2 (s\<lparr>shared := r', delivered := delivered s @ ys\<rparr>)"
    using commit [of ?s2 n ys] assms(2) by (cases s) (simp add: ys r')
  ultimately show ?thesis by (meson converse_rtranclp_into_rtranclp rtranclp.rtrancl_into_rtrancl)
qed

section \<open>What the invariant gives\<close>

lemma reached_inv: "isr_inv r \<Longrightarrow> ring_steps (ring_start r) s \<Longrightarrow> system_inv s"
  using ring_steps_inv ring_start_inv by blast

lemma ring_step_capacity: "ring_step s s' \<Longrightarrow> rb_capacity (shared s') = rb_capacity (shared s)"
  by (induction rule: ring_step.induct) simp_all

lemma ring_steps_capacity: "ring_steps s s' \<Longrightarrow> rb_capacity (shared s') = rb_capacity (shared s)"
  by (induction rule: rtranclp_induct) (simp_all add: ring_step_capacity)

lemma ring_system_fifo:
  assumes "isr_inv r" and "ring_steps (ring_start r) s"
  shows "accepted s = delivered s @ isr_contents (shared s)" and "isr_inv (shared s)"
    and "length (accepted s) \<le> length (delivered s) + rb_capacity r"
    and "consumer s = C_Copy n out \<Longrightarrow> prefix (delivered s @ out) (accepted s)"
proof -
  have inv: "system_inv s" by (rule reached_inv [OF assms])
  then show "accepted s = delivered s @ isr_contents (shared s)" and "isr_inv (shared s)" by (simp_all add: system_inv_def)
  then show "length (accepted s) \<le> length (delivered s) + rb_capacity r"
    using ring_steps_capacity [OF assms(2)] by (simp add: ring_start_def isr_inv_def isr_contents_def)
  show "prefix (delivered s @ out) (accepted s)" if "consumer s = C_Copy n out"
    using inv that by (simp add: system_inv_def) (metis take_is_prefix)
qed

lemma sensible_refusal:
  assumes "isr_inv r" and "ring_steps (ring_start r) s" and "producer s = P_Loaded data w"
  shows "unat (of_nat (rb_capacity r) - (w - rb_read_idx (shared s))) < length data \<longleftrightarrow>
    rb_capacity r < length data + length (isr_contents (shared s))"
proof -
  have inv: "system_inv s" by (rule reached_inv [OF assms(1,2)])
  have cap: "rb_capacity (shared s) = rb_capacity r" using ring_steps_capacity [OF assms(2)] by (simp add: ring_start_def)
  have "isr_available (shared s) \<le> rb_capacity r" using inv cap by (simp add: system_inv_def isr_inv_def)
  then show ?thesis
    using inv assms(3) isr_free [of "shared s"] cap by (auto simp: system_inv_def isr_contents_def)
qed

end
