(* ===== verification/Samples.thy ===== *)
theory Samples
  imports Serial_Exchange Frame_Integrity Delivery Stack_Inv Rx_Overflow Frame_Length Isr_Interleaving
begin

text \<open>
  Concrete objects at which the properties of the root theory are instantiated: an arm stack that logs the
  packets it handles, a parser whose ring holds given bytes, one acknowledgement frame, and a session with
  one request in flight.
\<close>

section \<open>An order and a clock for the host\<close>

definition sorted_order :: "('r, 'e) session \<Rightarrow> u32 list" where
  "sorted_order s = sorted_list_of_set (dom (m_pending_by_tx s))"

lemma sorted_order_is_map_order: "map_order sorted_order"
  by (simp add: map_order_def sorted_order_def)

text \<open>Ten milliseconds pass between the cycles, one microsecond between two readings in a cycle.\<close>

definition slow_clock :: "nat \<Rightarrow> int" where
  "slow_clock i = (if i < 5 then 0 else 10000000 * (1 + int ((i - 5) div 3))) + 1000 * int i"

lemma slow_clock_waits:
  "slow_clock (if r = 0 then 1 else 4 + 3 * r) + 200000 \<le> slow_clock (6 + 3 * r)"
  "slow_clock (7 + 3 * r) < slow_clock (5 + 3 * r) + 200000" "slow_clock 3 < slow_clock 1 + 200000"
proof -
  have d: "Suc (3 * r) div 3 = r" "Suc (Suc (3 * r)) div 3 = r" by simp_all
  have "(3 * r - 1) div 3 = r - 1" by (cases r) simp_all
  then show "slow_clock (if r = 0 then 1 else 4 + 3 * r) + 200000 \<le> slow_clock (6 + 3 * r)"
    by (simp add: slow_clock_def d of_nat_diff)
  show "slow_clock (7 + 3 * r) < slow_clock (5 + 3 * r) + 200000"
    by (simp add: slow_clock_def d)
qed (simp add: slow_clock_def)

section \<open>A stack that logs\<close>

definition log_env :: "(unit, unit, unit, (u16 \<times> bytes) list) stack_env" where
  "log_env = \<lparr>e_packets = arm_packets, run_handler = (\<lambda>h cmd tx data c. c\<lparr>c_user := c_user c @ [(cmd, data)]\<rparr>),
     run_callback = (\<lambda>cb c. c), pending_order = (\<lambda>s. []), send_frame = None\<rparr>"

lemma log_env_simps [simp]:
  "e_packets log_env = arm_packets" "pending_order log_env = (\<lambda>s. [])" "send_frame log_env = None"
  by (simp_all add: log_env_def)

lemma log_env_uses_api: "env_uses_api log_env"
  by (auto simp: env_uses_api_def log_env_def intro: api_user api_done)

abbreviation "AckP \<equiv> PacketTraits_AckPacket"

lemma ack_in_arm [simp]: "AckP \<in> set arm_packets"
  by (simp add: arm_packets_def)

definition ack_sent :: "sent list" where
  "ack_sent = [([0], 7, AckP, ack_bytes 1 0x6103)]"

lemma ack_sent_ok: "sent_ok arm_packets ack_sent"
  by (simp add: sent_ok_def ack_sent_def)

lemma ack_sent_bytes: "sent_bytes ack_sent = [0] @ packet_frame 7 (AckP, ack_bytes 1 0x6103)"
  by (simp add: sent_bytes_def ack_sent_def)

lemma length_ack_frame [simp]: "length (packet_frame seq (AckP, ack_bytes tx cmd)) = 16"
  by (simp add: packet_frame_def)

section \<open>A parser with bytes in its ring\<close>

definition arm_config :: "(unit, u16 list) parser_config" where
  "arm_config = default_config arm_packets (\<lambda>T packet log. log @ [pt_cmd T]) id"

lemma wf_arm_config: "wf_config arm_config"
  unfolding arm_config_def by (rule wf_default_config [OF default_arm_packets])

lemma arm_config_simps [simp]: "packets arm_config = arm_packets" "workers arm_config = [default_worker]"
  by (simp_all add: arm_config_def)

definition arm_parser_with :: "bytes \<Rightarrow> unit parser" where
  "arm_parser_with xs = (parser_init arm_packets ())\<lparr>buffer := snd (bip_write xs (bip_init 1024))\<rparr>"

lemma arm_parser_with_contents:
  assumes "length xs \<le> 1024"
  shows "bip_inv (buffer (arm_parser_with xs))" and "bip_contents (buffer (arm_parser_with xs)) = xs"
    and "des_inv arm_packets (deser (arm_parser_with xs))"
proof -
  obtain ok b where w: "bip_write xs (bip_init 1024) = (ok, b)" by fastforce
  have "bip_fits (length xs) (bip_init 1024)" using assms by (simp add: bip_fits_def bip_init_def)
  from bip_write_accepted [OF bip_init_inv this w]
  show "bip_inv (buffer (arm_parser_with xs))" and "bip_contents (buffer (arm_parser_with xs)) = xs"
    by (simp_all add: arm_parser_with_def w)
  show "des_inv arm_packets (deser (arm_parser_with xs))" by (simp add: arm_parser_with_def parser_init_def)
qed

lemma arm_parser_init_ready: "parser_ready arm_config 256 (parser_init arm_packets ())"
  unfolding arm_config_def
  by (rule parser_init_ready [OF default_arm_packets]) (simp add: max_frame_size_arm buffer_size_arm)

lemma arm_scan_ack: "scan (is_start arm_config) (judge arm_config) (sent_bytes ack_sent) = (sent_events ack_sent, [])"
  and arm_conforming_ack: "list_all (conforming arm_config) (sent_events ack_sent)"
  unfolding arm_config_def
  by (rule default_scan [OF default_arm_packets ack_sent_ok], rule sent_conforming [OF default_arm_packets ack_sent_ok])

section \<open>A device that sees a request twice\<close>

definition limit_request :: bytes where
  "limit_request = le_bytes 4 (5 :: u32) @ host_command"

definition core0 :: "(unit, unit, unit, (u16 \<times> bytes) list) core" where
  "core0 = register_handler 0x6103 (Some ()) (core_init default_session_config (\<lambda>n. 0) [])"

definition core1 :: "(unit, unit, unit, (u16 \<times> bytes) list) core" where
  "core1 = dispatch_after_parse log_env Req limit_request core0"

definition core2 :: "(unit, unit, unit, (u16 \<times> bytes) list) core" where
  "core2 = fold (\<lambda>(T, data). dispatch_after_parse log_env T data) [(AckP, ack_bytes 1 0)] core1"

lemma req_reliable: "reliable_request Req"
  by (simp add: reliable_request_def is_request_cmd_def ACK_CMD_def)

lemma req_in_arm [simp]: "Req \<in> set arm_packets"
  by (simp add: arm_packets_def request_packets_def)

lemma rsp_in_arm [simp]: "Rsp \<in> set arm_packets"
  by (simp add: arm_packets_def response_packets_def)

lemma length_host_command [simp]: "length host_command = 9"
  by (simp add: host_command_def)

lemma core0_facts:
  "c_bound core0" "id_ring_inv (seen_ring core0)" "id_ring_size (seen_ring core0) = 64"
  "set (ids (seen_ring core0)) = {0}" "c_tx_queue core0 = []" "c_handlers core0 0x6103 = Some (Some ())" "c_user core0 = []"
  using id_ring_init_inv [of 6]
  by (simp_all add: core0_def register_handler_def core_init_def session_init_def id_ring_size_def) (simp_all add: id_ring_init_def)

lemma core0_host:
  "m_outbound_queue (c_session core0) = []" "m_inflight_count (c_session core0) = 0"
  "window_size (m_config (c_session core0)) = 1" "m_next_tx_id (c_session core0) = 1" "c_sequence core0 = 0"
  by (simp_all add: core0_def register_handler_def core_init_def session_init_def default_session_config_def)

definition queued :: "bool \<Rightarrow> TxEntry" where
  "queued telemetry = \<lparr>te_frame = [], te_telemetry = telemetry\<rparr>"

section \<open>A damaged frame\<close>

definition ack_frame :: bytes where
  "ack_frame = packet_frame 7 (AckP, ack_bytes 1 0x6103)"

definition damaged_ack :: bytes where
  "damaged_ack = take 7 ack_frame @ [ack_frame ! 7 + 1] @ drop 8 ack_frame"

lemma length_ack_frame16 [simp]: "length ack_frame = 16"
  by (simp add: ack_frame_def)

lemma length_damaged_ack: "length damaged_ack = 16"
  by (simp add: damaged_ack_def)

lemma ack_frame_split: "packet_frame 7 (AckP, ack_bytes 1 0x6103) = take 7 ack_frame @ [ack_frame ! 7] @ drop 8 ack_frame"
  using id_take_nth_drop [of 7 ack_frame] by (simp add: ack_frame_def)

section \<open>Buffers that have wrapped\<close>

text \<open>Two bytes free at each end.\<close>

definition fragmented_bip :: bip where
  "fragmented_bip = \<lparr>bip_mem = [0, 0, 7, 8, 0, 0], region_a_start = 2, region_a_size = 2, region_b_size = 0\<rparr>"

definition wrapped_bip :: bip where
  "wrapped_bip = \<lparr>bip_mem = [1, 0, 3, 4], region_a_start = 2, region_a_size = 2, region_b_size = 1\<rparr>"

text \<open>Both counters one short of wrapping.\<close>

definition wrapping_ring :: "32 word isr_ring" where
  "wrapping_ring = \<lparr>rb_buf = [0, 0, 0, 0], rb_write_idx = 0xFFFFFFFF, rb_drop_count = 0, rb_read_idx = 0xFFFFFFFF\<rparr>"

lemma wrapping_ring_facts:
  "isr_inv wrapping_ring" "isr_contents wrapping_ring = []" "rb_capacity wrapping_ring = 4" "isr_available wrapping_ring = 0"
  "rb_drop_count wrapping_ring = 0"
proof -
  show a: "isr_available wrapping_ring = 0" by (simp add: isr_available_def wrapping_ring_def)
  show "rb_capacity wrapping_ring = 4" by (simp add: wrapping_ring_def)
  then show "isr_inv wrapping_ring" using a by (auto simp: isr_inv_def intro: exI [of _ 2])
  show "rb_drop_count wrapping_ring = 0" by (simp add: wrapping_ring_def)
  show "isr_contents wrapping_ring = []" using a by (simp add: isr_contents_def ring_view_def)
qed

section \<open>A session with one request in flight\<close>

definition one_sent_ops :: "(unit, unit) session_op list" where
  "one_sent_ops = [Op_Send 0x6103 0x6104 [1] (Some ()) (Some ()) 100 3 0, Op_Pump 0]"

definition one_sent :: "(unit, unit) session" where
  "one_sent = snd (session_run one_sent_ops (session_init default_session_config))"

definition one_sent_pe :: "(unit, unit) PendingEntry" where
  "one_sent_pe = inflight_request 1 0x6103 0x6104 [1] (Some ()) (Some ()) 100 3 100"

lemma one_sent_run:
  "session_run one_sent_ops (session_init default_session_config) =
     (([(1, 3)], [\<lparr>re_tx_id = 1, re_request_cmd = 0x6103, re_request_bytes = [1]\<rparr>], []), one_sent)"
  and one_sent_pending: "m_pending_by_tx one_sent 1 = Some one_sent_pe"
  by (simp_all add: one_sent_def one_sent_ops_def one_sent_pe_def session_send_def next_tx_id_def register_pending_def session_init_def
      default_session_config_def next_outbound_def retransmit_entry_def MAX_PACKET_SIZE_def inflight_request_def)

lemma one_sent_state:
  "m_seen_responses one_sent = id_ring_init 64" "m_inflight_count one_sent = 1" "m_completed_order one_sent = []"
  "m_completed_cache one_sent = Map.empty" "device_cache_capacity (m_config one_sent) = 64" "window_size (m_config one_sent) = 1"
  by (simp_all add: one_sent_def one_sent_ops_def session_send_def next_tx_id_def register_pending_def session_init_def
      default_session_config_def next_outbound_def retransmit_entry_def MAX_PACKET_SIZE_def Let_def)

lemma one_sent_entry:
  "pe_inflight one_sent_pe" "pe_on_error one_sent_pe = Some ()" "pe_timeout one_sent_pe = 100" "pe_deadline one_sent_pe = 100"
  "pe_max_retries one_sent_pe = 3" "pe_retry_count one_sent_pe = 0"
  "retransmit_entry one_sent_pe = \<lparr>re_tx_id = 1, re_request_cmd = 0x6103, re_request_bytes = [1]\<rparr>"
  by (simp_all add: one_sent_pe_def inflight_request_def retransmit_entry_def)

lemma one_sent_in_flight: "in_flight one_sent = {1}"
  by (auto simp: in_flight_def one_sent_def one_sent_ops_def session_send_def next_tx_id_def register_pending_def session_init_def
      default_session_config_def next_outbound_def retransmit_entry_def MAX_PACKET_SIZE_def Let_def split: if_splits)

text \<open>Its response arrives, twice.\<close>

definition answered_ops :: "(unit, unit) session_op list" where
  "answered_ops = one_sent_ops @ [Op_Response 0x6104 1 [7], Op_Response 0x6104 1 [7]]"

lemma answered_run:
  obtains s where "session_run answered_ops (session_init default_session_config) =
     (([(1, 3)], [\<lparr>re_tx_id = 1, re_request_cmd = 0x6103, re_request_bytes = [1]\<rparr>], [Call_Response () [7]]), s)"
proof -
  have "rsp_key \<noteq> 0" by (rule compose_dedup_key_nonzero) simp
  then obtain ring where ring: "test_and_insert rsp_key (id_ring_init 64) = (False, ring)" "test_and_insert rsp_key ring = (True, ring)"
    by (rule fresh_ring)
  have "on_response 0x6104 1 [7] one_sent = ([Call_Response () [7]], erase_pending 1 one_sent_pe (one_sent\<lparr>m_seen_responses := ring\<rparr>))"
    using ring one_sent_pending by (simp add: on_response_def one_sent_state one_sent_pe_def)
  moreover have "on_response 0x6104 1 [7] (erase_pending 1 one_sent_pe (one_sent\<lparr>m_seen_responses := ring\<rparr>)) =
      ([], erase_pending 1 one_sent_pe (one_sent\<lparr>m_seen_responses := ring\<rparr>))"
    using ring by (simp add: on_response_def erase_pending_def)
  ultimately show thesis using that one_sent_run
    by (simp add: answered_ops_def session_run_append)
qed

section \<open>Frames of a wrong length\<close>

text \<open>A ring of 1024 bytes whose contents \<open>xs\<close> wrap after \<open>k\<close> bytes.\<close>

definition split_parser :: "nat \<Rightarrow> bytes \<Rightarrow> unit parser" where
  "split_parser k xs = (parser_init arm_packets ())\<lparr>buffer :=
     \<lparr>bip_mem = drop k xs @ replicate (1024 - length xs) 0 @ take k xs,
      region_a_start = 1024 - k, region_a_size = k, region_b_size = length xs - k\<rparr>\<rparr>"

lemma split_parser_contents:
  assumes "0 < k" and "k < length xs" and "length xs \<le> 1024"
  shows "bip_inv (buffer (split_parser k xs))" and "bip_contents (buffer (split_parser k xs)) = xs"
    and "region_a_size (buffer (split_parser k xs)) = k"
  using assms by (simp_all add: split_parser_def bip_inv_def bip_contents_def mem_read_def diff_le_mono)

definition long_ack :: bytes where
  "long_ack = default_frame 7 (pt_cmd AckP) (replicate 20 0)"

definition short_ack :: bytes where
  "short_ack = default_frame 7 (pt_cmd AckP) [1, 0, 0, 0]"

lemma ack_traits_arm: "pt_after_parse AckP" "pt_skip_memory_pool AckP"
  by (simp_all add: traits_defs)

section \<open>A write and a read that overlap\<close>

definition written_ring :: "32 word isr_ring" where
  "written_ring = snd (isr_write [7, 8] wrapping_ring)"

lemma written_ring_eq: "isr_write [7, 8] wrapping_ring = (True, written_ring)"
  and written_ring_state: "written_ring =
    \<lparr>rb_buf = [8, 0, 0, 7], rb_write_idx = 1, rb_drop_count = 0, rb_read_idx = 0xFFFFFFFF\<rparr>"
  by (simp_all add: written_ring_def isr_write_def wrapping_ring_def ring_put_def mem_write_def)

definition overlapped :: "32 word ring_system" where
  "overlapped = \<lparr>shared = written_ring, producer = P_Copy [9] 1 0, consumer = C_Copy 1 [7], accepted = [7, 8], delivered = []\<rparr>"

lemma overlapped_reached: "ring_steps (ring_start wrapping_ring) overlapped"
proof -
  let ?s = "\<lambda>p c. \<lparr>shared = written_ring, producer = p, consumer = c, accepted = [7, 8], delivered = []\<rparr>"
  have "ring_steps (ring_start wrapping_ring) (?s P_Idle C_Idle)"
    using write_is_a_run [of "ring_start wrapping_ring" "[7, 8]" True written_ring] wrapping_ring_facts
    by (simp add: ring_start_def written_ring_eq)
  also have "ring_step (?s P_Idle C_Idle) (?s (P_Loaded [9] 1) C_Idle)"
    using load_write [of "?s P_Idle C_Idle" "[9]"] by (simp add: written_ring_state)
  also have "ring_step (?s (P_Loaded [9] 1) C_Idle) (?s (P_Loaded [9] 1) (C_Copy 1 []))"
    using load_available [of "?s (P_Loaded [9] 1) C_Idle" 1] by (simp add: written_ring_state isr_available_def)
  also have "ring_step (?s (P_Loaded [9] 1) (C_Copy 1 [])) (?s (P_Copy [9] 1 0) (C_Copy 1 []))"
    using admit [of "?s (P_Loaded [9] 1) (C_Copy 1 [])" "[9]" 1] by (simp add: written_ring_state)
  also have "ring_step (?s (P_Copy [9] 1 0) (C_Copy 1 [])) (?s (P_Copy [9] 1 0) (C_Copy 1 [7]))"
    using copy_out [of "?s (P_Copy [9] 1 0) (C_Copy 1 [])" 1 "[]"] by (simp add: written_ring_state masked_def)
  finally show ?thesis by (simp add: overlapped_def)
qed

end
