(* ===== verification/Spec2Isabelle.thy ===== *)
theory Spec2Isabelle
  imports Samples
begin

text \<open>
  The protocol stack of \<open>florid-usb-protocols\<close>: a C++ header library (\<open>src/include\<close>) over the vendored
  packet library RPL (\<open>src/3rdparty/rpl\<close>), and the two example programs that use it. Bytes that an interrupt
  handler receives go into a lock-free ring; the protocol thread takes them out, RPL's parser finds frames
  among them and calls the stack with every packet; the stack acknowledges and deduplicates requests, calls
  handlers, matches responses to pending requests, retransmits what is late, and queues frames for the
  transport.

  The theories, bottom up, and the code each models:
  \<^item> \<open>Prelude\<close>: bytes, \<open>memcpy\<close> on lists, little-endian words; the collection \<open>mem_simps\<close>.
  \<^item> \<open>Fifo\<close>: the interfaces \<open>byte_fifo\<close> and \<open>bounded_fifo\<close>: what a queue of bytes promises.
  \<^item> \<open>Bip_Buffer\<close> (\<open>Containers/BipBuffer.hpp\<close>): the parser's ring, every operation on the array and the three
    indices; an instance of \<open>bounded_fifo\<close>.
  \<^item> \<open>Isr_Ring\<close> (\<open>ISRRingBuffer.hpp\<close>): the interrupt ring with indices at the width of \<open>size_t\<close>, which wrap; an
    instance of \<open>bounded_fifo\<close>. \<open>Isr_Interleaving\<close>: the same code as the steps of a producer and a consumer
    that interleave, index load by index store and byte by byte.
  \<^item> \<open>Id_Ring\<close> (\<open>IdRingBuffer.hpp\<close>): the duplicate filter, against the interface \<open>dedup_window\<close>.
  \<^item> \<open>Crc\<close> (\<open>cppcrc.h\<close>, \<open>Utils/Def.hpp\<close>): table-driven CRC, against the bit-serial shift register.
  \<^item> \<open>Packet_Traits\<close> (\<open>Meta/PacketTraits.hpp\<close>), \<open>Arm_Packets\<close> (\<open>ArmStatus.hpp\<close>, \<open>ArmCommand.hpp\<close>): packet layouts,
    protocols, and every structure, enumeration and trait of the arm.
  \<^item> \<open>Serializer\<close>, \<open>Deserializer\<close> (with \<open>Meta/PacketInfoCollector.hpp\<close>), \<open>Parser\<close>, \<open>Rpl_Error\<close>: the RPL classes.
  \<^item> \<open>Frame_Scanner\<close> is the abstract specification of the parser, a scanner of a byte stream with an interface
    for the judgement of a frame; \<open>Parser_Spec\<close> proves that \<open>parse_frame_impl\<close> and \<open>try_parse_packets\<close>
    implement it; \<open>Parser_Stream\<close> adds chunks and the frames the serializer makes; \<open>Frame_Integrity\<close> adds damage,
    and \<open>Frame_Length\<close> frames whose length is not that of their packet.
  \<^item> \<open>Reliable_Session\<close> (\<open>ReliableSession.hpp\<close>); \<open>Session_Steps\<close>, its abstract specification: what an
    operation may do to the pending requests, as a step relation, and that every operation does only that;
    \<open>Session_Inv\<close> (transmissions, callbacks and the window over runs of operations) and \<open>Session_Spec\<close> (\<open>poll\<close>, outbound order, deadlines, the device's cache).
  \<^item> \<open>Protocol_Stack\<close> (\<open>ProtocolStack.hpp\<close>, \<open>ProtocolDispatch.hpp\<close>); \<open>Stack_Spec\<close> (the transmit queue, the interface
    for user code), \<open>Stack_Inv\<close> (any use of the stack), \<open>Stack_Stream\<close> (a stream received), \<open>Transaction\<close> and
    \<open>Delivery\<close> (a request from \<open>send\<close> to the wire, at the device, its response at the host).
  \<^item> \<open>Arm_Stack\<close>: the stack over the arm's packets. \<open>Serial_Example\<close> (\<open>send_serial.cpp\<close>, \<open>receive_serial.cpp\<close>): the
    two programs; \<open>Serial_Turns\<close>: what a turn of either loop does; \<open>Serial_Exchange\<close>: both programs over a link
    that may lose the host's bytes, with the device turning any number of times in each of the host's sleeps;
    \<open>Rx_Overflow\<close>: what they lose when the parser's buffer is too small for a chunk. \<open>Samples\<close>: the concrete
    objects at which the properties below are instantiated.

  How the model corresponds to the code. A class is a record, a member function a definition of the same name
  on it; template parameters are arguments. Machine integers keep their width (\<open>u8\<close>, \<open>u16\<close>, \<open>u32\<close>, \<open>u64\<close>; the
  ring's \<open>size_t\<close> is a type variable), other \<open>size_t\<close> values, which stay below buffer sizes, are \<open>nat\<close>.
  \<open>tl::expected\<close> is a sum with the error on the left. A read or write outside an object is \<open>Inl fault\<close> in the
  parser and \<open>None\<close> in the pool, so that a theorem with a normal result also says that memory is respected; a
  retry that is read after an error callback has inserted into the map it points into is \<open>Inl Dangling_Read\<close>. The
  parser's loop, \<open>drain_rx\<close> and \<open>get\<close> are partial functions whose \<open>None\<close> is a loop that never ends; theorems
  about them prove \<open>Some\<close>. \<open>host_loop\<close> has the bound 1000 of the program itself; \<open>bit_ceil_from\<close> has its argument
  as fuel, more than the number of doublings it needs. User code (handlers, session callbacks, the transport's
  \<open>m_send_frame\<close>) is a parameter: an identifier that \<open>stack_env\<close> interprets on the core of the stack. Time is a
  stream of readings; an operation that in some branch does not read the clock may skip a value of the
  stream in the model, which loses nothing since the theorems hold for every stream.

  What the properties rest on. \<open>env_uses_api\<close>: handlers and callbacks change the stack only by sending requests
  and responses, broadcasting, registering handlers and setting the next id (\<open>api_steps\<close>); they do not call the
  other functions of \<open>session()\<close>, such as \<open>reset_device_state\<close>, nor feed or cycle the stack they are called from.
  \<open>map_order\<close>: an iteration over the hash map meets every pending key once. \<open>default_packets\<close> and
  \<open>stack_packets\<close>: the packets use \<open>DefaultProtocol\<close>, have different ids, a size that is the size of the structure,
  and fit the stack's frame buffer; both are proved of the arm's and the examples' packet lists.

  The groups of properties: the system end to end (C1 to C4), the stack (C5 to C9), the parser (C10 to C15),
  checksums (C16 to C17), the serializer (C18), the receive buffers (C19 to C26), duplicates (C27),
  packets (C28 to C29), the packet pool (C30 to C31), the reliable session (C32 to C40).

  Not modelled: \<open>AckManager\<close> (the stack does not use it), \<open>ConnectionMonitor\<close>'s timing (the stack takes the monitor
  that does nothing; the parser's call of \<open>on_packet_received\<close> is modelled), \<open>USBTransport\<close> (calls of TinyUSB
  only), a \<open>get()\<close> of the deserializer that races with a \<open>write()\<close> (the stack's packets skip the pool), data races
  in the C++ memory model, the bit-stream codec of RPL (no packet of the repository has a bit layout), \<open>tl::expected\<close>, \<open>frozen\<close> and
  \<open>unordered_dense\<close> (third-party containers with a sum, a table and a map for what they mean), the amalgamated
  copy \<open>RPL.hpp\<close>, the example \<open>test_arm.cpp\<close>, the printing of the examples, the serial library \<open>astrial\<close> (the
  parameter \<open>write\<close> and \<open>sleep\<close>), the build and CI files. Nor is a handler that registers another one while it
  runs, which may move the function that is running in the map of handlers (the model returns the call's result).
  The link of C1 and C2 hands over what was written whole or loses it whole: a write that arrives in parts, or
  in part, is not covered by them (C3, C11 and C12 are about pieces).
\<close>

section \<open>The system end to end\<close>

text \<open>
  C1: the two example programs on a link that loses nothing. What the host has written is in the device's
  receive ring, whole, when the host's next sleep begins, and what the device writes is in the host's when that
  sleep ends; \<open>turns i\<close> is how often the device's loop turns during the host's \<open>i\<close>-th sleep. The device looks at its ring for the first time in sleep \<open>m \<le> 3\<close>, that is before the host's fourth
  timeout can have passed, and turns at least twice in that sleep and the next together; the host's cycle that
  sends, and the one after sleep \<open>m\<close>, take less time than the request's timeout. Then, however
  often the host sent its \<open>SetMitLimit\<close> request again meanwhile, its \<open>main\<close> returns 0 exactly when the joint number
  is below six, whatever the limits.
\<close>

theorem set_mit_limit_exchange:
  assumes "12 < LENGTH('v::len)" and "12 < LENGTH('w::len)" and "map_order order"
    and "m \<le> 3" and "\<forall>i<m. turns i = 0" and "0 < turns m" and "2 \<le> turns m + turns (Suc m)"
    and "clock 3 < clock 1 + 200000" and "clock (7 + 3 * m) < clock (5 + 3 * m) + 200000"
  shows "host_main (host_env wire order)
      (link_sleep (\<lambda>_. False) turns device_order :: (bytes, 'v word) host_stack \<times> nat \<times> (bytes, 'w word) device_stack \<Rightarrow> _)
      (set_mit_limit_command joint torque velocity) clock [] (0, device_init device_clock []) =
    Some (Inr (if joint < 6 then 0 else 1))"
  by (rule link_exchange [OF assms])

theorem set_mit_limit_exchange_witness:
  "host_main (host_env wire sorted_order)
      (link_sleep (\<lambda>_. False) (\<lambda>i. if i < 2 then 0 else 1) (\<lambda>s. []) ::
        (bytes, 64 word) host_stack \<times> nat \<times> (bytes, 32 word) device_stack \<Rightarrow> _)
      host_command slow_clock [] (0, device_init (\<lambda>n. 0) []) = Some (Inr 0)"
proof -
  note run = set_mit_limit_exchange [where 'v = 64 and 'w = 32, OF _ _ sorted_order_is_map_order, where clock = slow_clock
      and device_order = "\<lambda>s. []" and device_clock = "\<lambda>n. 0" and joint = 2 and torque = "0x41400000"
      and velocity = "0x40C8F5C3" and m = 2 and turns = "\<lambda>i. if i < 2 then 0 else 1"]
  show ?thesis using run slow_clock_waits(2) [of 2] slow_clock_waits(3) by (simp add: host_command_def)
qed

text \<open>
  C2: the same on a link that loses what the host writes before its first \<open>n\<close> sleeps, when in each of these, up to
  the fourth, the request's timeout passes before the host's next cycle. The host then sends the request
  again, four times in all. For \<open>n \<le> 3\<close>, when the device turns in sleep \<open>n\<close>, at least twice in that and the next
  together, and the two cycles of C1 are short, \<open>main\<close> returns as if nothing had been lost; for \<open>n \<ge> 4\<close>
  it gives up and returns 1, whatever the joint and however the device turns.
\<close>

theorem set_mit_limit_lossy:
  assumes "12 < LENGTH('v::len)" and "12 < LENGTH('w::len)" and "map_order order" and "clock 3 < clock 1 + 200000"
    and "\<forall>r < min n 4. clock (if r = 0 then 1 else 4 + 3 * r) + 200000 \<le> clock (6 + 3 * r)"
    and "n \<le> 3 \<Longrightarrow> 0 < turns n \<and> 2 \<le> turns n + turns (Suc n) \<and> clock (7 + 3 * n) < clock (5 + 3 * n) + 200000"
  shows "host_main (host_env wire order)
      (link_sleep (\<lambda>i. i < n) turns device_order :: (bytes, 'v word) host_stack \<times> nat \<times> (bytes, 'w word) device_stack \<Rightarrow> _)
      (set_mit_limit_command joint torque velocity) clock [] (0, device_init device_clock []) =
    Some (Inr (if n \<le> 3 \<and> joint < 6 then 0 else 1))"
  by (rule lossy_link_exchange [OF assms(1-4) _ assms(6)]) (use assms(5) in \<open>simp_all add: deadline_at_def\<close>)

theorem set_mit_limit_lossy_witness:
  "host_main (host_env wire sorted_order) (link_sleep (\<lambda>i. i < 3) (\<lambda>_. 1) (\<lambda>s. []) ::
        (bytes, 64 word) host_stack \<times> nat \<times> (bytes, 32 word) device_stack \<Rightarrow> _)
      host_command slow_clock [] (0, device_init (\<lambda>n. 0) []) = Some (Inr 0) \<and>
   host_main (host_env wire sorted_order) (link_sleep (\<lambda>i. i < 4) (\<lambda>_. 1) (\<lambda>s. []) ::
        (bytes, 64 word) host_stack \<times> nat \<times> (bytes, 32 word) device_stack \<Rightarrow> _)
      host_command slow_clock [] (0, device_init (\<lambda>n. 0) []) = Some (Inr 1)"
proof -
  note run = set_mit_limit_lossy [where 'v = 64 and 'w = 32, OF _ _ sorted_order_is_map_order, where clock = slow_clock
      and device_order = "\<lambda>s. []" and device_clock = "\<lambda>n. 0" and joint = 2 and torque = "0x41400000"
      and velocity = "0x40C8F5C3" and turns = "\<lambda>_. 1"]
  show ?thesis using run [of 3] run [of 4] slow_clock_waits(2) [of 3] slow_clock_waits(3)
    by (simp add: host_command_def slow_clock_waits(1))
qed

text \<open>
  C3: bytes fed to a fresh arm stack by the interrupt handler, in any pieces that together fit the ring, are handled
  as exactly the packets that were sent, in order: receiving terminates, empties the ring, and the state
  is the fold of \<open>dispatch_after_parse\<close> over the packets. Before each frame there may be noise, any bytes without
  the start byte 0xA5, which is skipped.
\<close>

theorem arm_stack_handles_sent:
  assumes "e_packets env = arm_packets" and "12 < LENGTH('w::len)" and "sent_ok arm_packets ms"
    and "concat cs = sent_bytes ms" and "length (sent_bytes ms) \<le> 4096"
    and "st = fold isr_feed cs (stack_init arm_packets config clock u :: ('r, 'e, 'h, 'u, 'w word) stack)"
  shows "\<exists>st'. drain_rx (stack_config env) st = Some (Inr st') \<and> rx_available st' = 0 \<and>
    st_core st' = fold (\<lambda>(noise, seq, T, packet). dispatch_after_parse env T packet) ms (core_init config clock u)"
proof -
  have "stack_idle env 256 (stack_init arm_packets config clock u :: ('r, 'e, 'h, 'u, 'w word) stack)"
    by (rule arm_stack_init_idle [OF assms(1,2)])
  from feeds_received [OF this _ _ assms(4,5)] assms(1,3,6)
  have "received env 256 ms st" and core: "st_core st = core_init config clock u" by (simp_all add: stack_init_def)
  then obtain st' where "drain_rx (stack_config env) st = Some (Inr st')" "isr_contents (st_rx_ring st') = []"
    "st_core st' = fold (\<lambda>(noise, seq, T, packet). dispatch_after_parse env T packet) ms (st_core st)"
    using drain_rx_sent [of env 256 st ms] by (auto simp: received_def)
  then show ?thesis using core by (auto simp: rx_available_def simp flip: length_isr_contents)
qed

theorem arm_stack_handles_sent_witness:
  "\<exists>st'. drain_rx (stack_config log_env)
      (fold isr_feed [[0], packet_frame 7 (AckP, ack_bytes 1 0x6103)]
        (stack_init arm_packets default_session_config (\<lambda>n. 0) [] :: (_, _, _, _, 32 word) stack)) = Some (Inr st') \<and>
    rx_available st' = 0 \<and>
    st_core st' = fold (\<lambda>(noise, seq, T, packet). dispatch_after_parse log_env T packet) ack_sent
      (core_init default_session_config (\<lambda>n. 0) [])"
  by (rule arm_stack_handles_sent [OF _ _ ack_sent_ok _ _ refl]) (simp_all add: ack_sent_bytes)

text \<open>
  C4: a reliable request is handled once. The first time it arrives (its id is not zero, and not among the last
  ones seen), it is acknowledged and its handler runs;
  after fewer further packets than the id ring is long (64 in the stack), of any kind, the same transaction is
  acknowledged again and the cached response is resent, and no handler runs. Handlers and callbacks may have
  sent, answered, broadcast, registered handlers and set the next id meanwhile, but not reset the session or
  called its other functions behind the stack's back.
\<close>

theorem reliable_request_handled_once:
  assumes "env_uses_api env" and "default_packets (e_packets env)" and "T \<in> set (e_packets env)" and "reliable_request T"
    and "4 + length payload = pt_size T" and "4 + length payload' = pt_size T" and "tx \<noteq> 0" and "c_bound c"
    and "id_ring_inv (seen_ring c)" and "compose_dedup_key (pt_cmd T) tx \<notin> set (ids (seen_ring c))"
    and "c1 = dispatch_after_parse env T (le_bytes 4 tx @ payload) c"
    and "c2 = fold (\<lambda>(T, data). dispatch_after_parse env T data) ps c1" and "length ps < id_ring_size (seen_ring c)"
  shows "(\<exists>ring. c1 = call_handler env (pt_cmd T) tx (le_bytes 4 tx @ payload)
      (enqueue_ack tx (pt_cmd T) (c\<lparr>c_session := (c_session c)\<lparr>m_seen_requests := ring\<rparr>\<rparr>))) \<and>
    dispatch_after_parse env T (le_bytes 4 tx @ payload') c2 =
      resend_cached (m_completed_cache (c_session c2) (compose_dedup_key (pt_cmd T) tx)) (enqueue_ack tx (pt_cmd T) c2)"
  using request_handled_once [OF assms] by blast

theorem reliable_request_handled_once_witness:
  "c_user core1 = [(0x6103, limit_request)] \<and>
    dispatch_after_parse log_env Req limit_request core2 =
      resend_cached (m_completed_cache (c_session core2) (compose_dedup_key 0x6103 5)) (enqueue_ack 5 0x6103 core2)"
proof -
  from reliable_request_handled_once [OF log_env_uses_api _ _ req_reliable, of host_command host_command 5 core0 core1 core2
      "[(AckP, ack_bytes 1 0)]"]
  obtain ring where core1: "core1 = call_handler log_env 0x6103 5 limit_request
      (enqueue_ack 5 0x6103 (core0\<lparr>c_session := (c_session core0)\<lparr>m_seen_requests := ring\<rparr>\<rparr>))"
    and again: "dispatch_after_parse log_env Req limit_request core2 =
      resend_cached (m_completed_cache (c_session core2) (compose_dedup_key 0x6103 5)) (enqueue_ack 5 0x6103 core2)"
    using core0_facts compose_dedup_key_nonzero [of 5 "0x6103"]
    by (auto simp: core1_def core2_def limit_request_def default_arm_packets)
  have "c_user core1 = [(0x6103, limit_request)]"
    unfolding core1 by (simp add: call_handler_def enqueue_ack_posted core0_facts TX_QUEUE_CAP_def log_env_def)
  with again show ?thesis by simp
qed

section \<open>The stack\<close>

text \<open>
  C5: a request that is sent goes out. With no earlier request queued in the session, a free window and room in
  the transmit queue, \<open>send\<close> followed by the outbound step queues exactly the frame of the request, with the next transaction id, registers it as
  pending with its callbacks and a deadline one timeout away, and changes nothing else.
\<close>

theorem request_transmitted:
  assumes "stack_packets (e_packets env)" and "Req \<in> set (e_packets env)" and "tx_packet Req"
    and "4 + length payload = pt_size Req" and "m_outbound_queue (c_session c) = []"
    and "m_inflight_count (c_session c) < window_size (m_config (c_session c))"
    and "length (c_tx_queue c) < TX_QUEUE_CAP" and "send Req Rsp payload on_resp on_err timeout retries c = (k, c1)"
  shows "k = m_next_tx_id (c_session c) \<and>
    handle_session_outbound env c1 = c\<lparr>c_ticks := c_ticks c + 3, c_sequence := c_sequence c + 1,
      c_tx_queue := c_tx_queue c @ [\<lparr>te_frame = packet_frame (c_sequence c) (Req, le_bytes 4 k @ payload),
        te_telemetry = is_telemetry_cmd (pt_cmd Req)\<rparr>],
      c_session := (c_session c)\<lparr>m_next_tx_id := k + 1, m_inflight_count := m_inflight_count (c_session c) + 1,
        m_pending_by_tx := (m_pending_by_tx (c_session c))(k \<mapsto> inflight_request k (pt_cmd Req) (pt_cmd Rsp)
          (le_bytes 4 k @ payload) on_resp on_err timeout retries (c_clock c (c_ticks c + 1) + timeout))\<rparr>\<rparr>"
  by (rule send_transmits [OF assms])

theorem request_transmitted_witness:
  "fst (send Req Rsp host_command (Some ()) (Some ()) 100 3 core0) = 1 \<and>
   map te_frame (c_tx_queue (handle_session_outbound log_env (snd (send Req Rsp host_command (Some ()) (Some ()) 100 3 core0)))) =
     [packet_frame 0 (Req, le_bytes 4 (1 :: u32) @ host_command)]"
proof -
  obtain k c1 where s: "send Req Rsp host_command (Some ()) (Some ()) 100 3 core0 = (k, c1)" by fastforce
  have "stack_packets (e_packets log_env)" using arm_frames_fit default_arm_packets by (simp add: stack_packets_def)
  from request_transmitted [OF this _ _ _ _ _ _ s] req_reliable show ?thesis
    by (simp add: s reliable_request_def core0_host core0_facts(5) TX_QUEUE_CAP_def)
qed

text \<open>
  C6: the response completes its request. When the response to a pending request arrives for the first time,
  its callback is called, once and with the packet's bytes, on a stack from which the request is gone and
  its place in the window is free.
\<close>

theorem response_completes_request:
  assumes "default_packets (e_packets env)" and "T \<in> set (e_packets env)" and "tx_packet T"
    and "\<not> is_request_cmd (pt_cmd T)" and "pt_cmd T \<noteq> ACK_CMD" and "c_bound c" and "4 + length payload = pt_size T"
    and "tx \<noteq> 0" and "m_pending_by_tx (c_session c) tx = Some p" and "pe_response_cmd p = pt_cmd T"
    and "pe_on_response p = Some r"
    and "test_and_insert (compose_dedup_key (pt_cmd T) tx) (m_seen_responses (c_session c)) = (False, ring)"
  shows "\<exists>s. dispatch_after_parse env T (le_bytes 4 tx @ payload) c =
      run_callback env (Call_Response r (le_bytes 4 tx @ payload)) (c\<lparr>c_session := s\<rparr>) \<and>
    m_pending_by_tx s = (m_pending_by_tx (c_session c))(tx := None) \<and>
    m_inflight_count s = m_inflight_count (c_session c) - (if pe_inflight p then 1 else 0) \<and>
    m_seen_responses s = ring"
  by (intro exI conjI, rule dispatch_response [OF assms]) (simp_all add: erase_pending_def)

theorem response_completes_request_witness:
  "\<exists>s. dispatch_after_parse log_env Rsp (le_bytes 4 (1 :: u32) @ [0]) (core0\<lparr>c_session := one_sent\<rparr>) =
      run_callback log_env (Call_Response () (le_bytes 4 (1 :: u32) @ [0])) (core0\<lparr>c_session := s\<rparr>) \<and>
    m_pending_by_tx s 1 = None \<and> m_inflight_count s = 0"
proof -
  have "compose_dedup_key 0x6104 1 \<noteq> 0" by (rule compose_dedup_key_nonzero) simp
  then obtain r where new: "test_and_insert (compose_dedup_key 0x6104 1) (m_seen_responses one_sent) = (False, r)"
    by (simp add: one_sent_state test_and_insert_def id_ring_init_def)
  show ?thesis
    using response_completes_request [of log_env Rsp "core0\<lparr>c_session := one_sent\<rparr>" "[0]" 1 one_sent_pe "()" r]
      new one_sent_pending one_sent_entry one_sent_state core0_facts(1) default_arm_packets
    by (auto simp: one_sent_pe_def is_request_cmd_def ACK_CMD_def)
qed

text \<open>
  C7: the transmit queue never holds more than 16 frames, whatever is fed to the stack, however often it is
  cycled, and whatever user code sends, answers and broadcasts, from outside or in handlers and callbacks.
\<close>

theorem tx_queue_bounded:
  assumes "env_uses_api env" and "use_many (stack_config env) env us (stack_init Ts config clock u) = Some (Inr st)"
  shows "tx_queue_size (st_core st) \<le> 16"
proof -
  have "length (c_tx_queue (st_core (stack_init Ts config clock u))) \<le> TX_QUEUE_CAP" by (simp add: stack_init_def core_init_def)
  from use_many_queue [OF assms(1) this assms(2)] show ?thesis by (simp add: tx_queue_size_def TX_QUEUE_CAP_def)
qed

theorem tx_queue_bounded_witness:
  "\<exists>st. use_many (stack_config log_env) log_env (replicate 17 (Broadcast AckP (ack_bytes 1 0)))
      (stack_init arm_packets default_session_config (\<lambda>n. 0) [] :: (_, _, _, _, 32 word) stack) = Some (Inr st) \<and>
    tx_queue_size (st_core st) \<le> 16"
proof -
  have "\<exists>st'. use_many cfg env (replicate n (Broadcast T packet)) st = Some (Inr st')" for cfg env n T packet
    and st :: "(unit, unit, unit, (u16 \<times> bytes) list, 32 word) stack"
    by (induction n arbitrary: st) simp_all
  with tx_queue_bounded [OF log_env_uses_api] show ?thesis by blast
qed

text \<open>
  C8: which frame a full transmit queue gives up. With room a prebuilt frame is appended. A full queue takes a
  priority frame (an acknowledgement or response) or a telemetry frame at the cost of one entry: its first
  telemetry entry, all others staying in order, or its last entry when it has no telemetry. It refuses any
  other frame, and then nothing changes.
\<close>

theorem priority_frames_are_queued:
  assumes "length frame \<le> MAX_FRAME_SIZE"
  shows "(length (c_tx_queue c) < TX_QUEUE_CAP \<longrightarrow> enqueue_prebuilt_frame frame priority c =
      (True, c\<lparr>c_tx_queue := c_tx_queue c @ [\<lparr>te_frame = frame, te_telemetry = is_telemetry_frame frame\<rparr>]\<rparr>)) \<and>
    (TX_QUEUE_CAP \<le> length (c_tx_queue c) \<and> (priority \<or> is_telemetry_frame frame) \<longrightarrow>
      (\<forall>xs t ys. c_tx_queue c = xs @ t # ys \<and> te_telemetry t \<and> (\<forall>x\<in>set xs. \<not> te_telemetry x) \<longrightarrow>
        enqueue_prebuilt_frame frame priority c =
          (True, c\<lparr>c_tx_queue := (xs @ ys) @ [\<lparr>te_frame = frame, te_telemetry = is_telemetry_frame frame\<rparr>]\<rparr>)) \<and>
      ((\<forall>x\<in>set (c_tx_queue c). \<not> te_telemetry x) \<longrightarrow>
        enqueue_prebuilt_frame frame priority c =
          (True, c\<lparr>c_tx_queue := butlast (c_tx_queue c) @ [\<lparr>te_frame = frame, te_telemetry = is_telemetry_frame frame\<rparr>]\<rparr>))) \<and>
    (TX_QUEUE_CAP \<le> length (c_tx_queue c) \<and> \<not> priority \<and> \<not> is_telemetry_frame frame \<longrightarrow>
      enqueue_prebuilt_frame frame priority c = (False, c))"
proof (intro conjI impI allI)
  fix xs t ys
  assume "TX_QUEUE_CAP \<le> length (c_tx_queue c) \<and> (priority \<or> is_telemetry_frame frame)"
    and q: "c_tx_queue c = xs @ t # ys \<and> te_telemetry t \<and> (\<forall>x\<in>set xs. \<not> te_telemetry x)"
  then show "enqueue_prebuilt_frame frame priority c =
      (True, c\<lparr>c_tx_queue := (xs @ ys) @ [\<lparr>te_frame = frame, te_telemetry = is_telemetry_frame frame\<rparr>]\<rparr>)"
    by (intro enqueue_displaces [OF assms]) (simp_all add: drop_one_telemetry_split)
next
  assume "TX_QUEUE_CAP \<le> length (c_tx_queue c) \<and> (priority \<or> is_telemetry_frame frame)"
    and "\<forall>x\<in>set (c_tx_queue c). \<not> te_telemetry x"
  then show "enqueue_prebuilt_frame frame priority c =
      (True, c\<lparr>c_tx_queue := butlast (c_tx_queue c) @ [\<lparr>te_frame = frame, te_telemetry = is_telemetry_frame frame\<rparr>]\<rparr>)"
    by (intro enqueue_displaces [OF assms]) (simp_all add: drop_one_telemetry_None)
qed (use assms in \<open>simp_all add: enqueue_prebuilt_frame_def\<close>)

theorem priority_frames_are_queued_witness:
  "enqueue_prebuilt_frame [1, 2, 3] True (core0\<lparr>c_tx_queue := replicate 5 (queued False) @ queued True # replicate 10 (queued False)\<rparr>) =
     (True, core0\<lparr>c_tx_queue := replicate 15 (queued False) @ [\<lparr>te_frame = [1, 2, 3], te_telemetry = False\<rparr>]\<rparr>) \<and>
   enqueue_prebuilt_frame [1, 2, 3] False (core0\<lparr>c_tx_queue := replicate 16 (queued False)\<rparr>) =
     (False, core0\<lparr>c_tx_queue := replicate 16 (queued False)\<rparr>)"
proof -
  let ?q = "replicate 5 (queued False) @ queued True # replicate 10 (queued False)"
  have "length [1, 2, 3 :: u8] \<le> MAX_FRAME_SIZE" by (simp add: MAX_FRAME_SIZE_def)
  note enq = priority_frames_are_queued [OF this]
  have "TX_QUEUE_CAP \<le> length ?q" by (simp add: TX_QUEUE_CAP_def)
  then have "enqueue_prebuilt_frame [1, 2, 3] True (core0\<lparr>c_tx_queue := ?q\<rparr>) =
      (True, core0\<lparr>c_tx_queue := (replicate 5 (queued False) @ replicate 10 (queued False)) @
        [\<lparr>te_frame = [1, 2, 3], te_telemetry = is_telemetry_frame [1, 2, 3]\<rparr>]\<rparr>)"
    using enq [of "core0\<lparr>c_tx_queue := ?q\<rparr>" True] by (simp add: queued_def)
  moreover have "enqueue_prebuilt_frame [1, 2, 3] False (core0\<lparr>c_tx_queue := replicate 16 (queued False)\<rparr>) =
      (False, core0\<lparr>c_tx_queue := replicate 16 (queued False)\<rparr>)"
    using enq [of "core0\<lparr>c_tx_queue := replicate 16 (queued False)\<rparr>" False] by (simp add: TX_QUEUE_CAP_def is_telemetry_frame_def)
  ultimately show ?thesis by (simp add: is_telemetry_frame_def flip: replicate_add)
qed

text \<open>
  C9: a burst is lost in the examples. Between 129 and 256 bytes received before a cycle of the device are
  taken from the receive ring in one piece, the parser's buffer of 128 bytes refuses it, and the error is
  ignored: whatever the bytes were, no packet is seen, nothing remains, and no drop is counted.
\<close>

theorem example_burst_lost:
  assumes "12 < LENGTH('w::len)" and "128 < length data" and "length data \<le> 256"
    and "st = (device_init clock port :: ('x, 'w word) device_stack)"
  shows "\<exists>st'. drain_rx cfg (isr_feed data st) = Some (Inr st') \<and> st_core st' = st_core st \<and> st_parser st' = st_parser st \<and>
    rx_available st' = 0 \<and> rx_dropped_writes st' = 0"
  by (rule device_burst_lost [OF assms])

theorem example_burst_lost_witness:
  "\<exists>st'. drain_rx (stack_config (device_env wire (\<lambda>s. [])))
      (isr_feed (concat (replicate 6 (packet_frame 0 (Req, limit_request)))) (device_init (\<lambda>n. 0) [] :: (_, 32 word) device_stack)) =
      Some (Inr st') \<and> rx_available st' = 0 \<and> rx_dropped_writes st' = 0"
proof -
  have "length (packet_frame 0 (Req, limit_request)) = 22" by (simp add: packet_frame_def limit_request_def)
  then have "length (concat (replicate 6 (packet_frame 0 (Req, limit_request)))) = 132" by (simp add: length_concat sum_list_replicate)
  then show ?thesis
    using example_burst_lost [OF _ _ _ refl, where 'w = 32 and data = "concat (replicate 6 (packet_frame 0 (Req, limit_request)))"
        and clock = "\<lambda>n. 0" and port = "[] :: bytes" and cfg = "stack_config (device_env wire (\<lambda>s. []))"] by auto
qed

section \<open>The parser\<close>

text \<open>
  C10: \<open>try_parse_packets\<close> on a well-formed configuration, when every frame with correct checksums in the ring has
  the payload length of its packet (C14 and C15 are about those that have not): it returns, without reading or
  writing outside its memory, and delivers exactly the frames that the abstract scanner finds in the bytes of
  the ring, in order; what the scanner leaves is what stays in the ring.
\<close>

theorem parser_refines_scanner:
  assumes "wf_config cfg" and "bip_inv (buffer p)" and "des_inv (packets cfg) (deser p)"
    and "scan (is_start cfg) (judge cfg) (bip_contents (buffer p)) = (evs, r)" and "list_all (conforming cfg) evs"
  shows "\<exists>b'. try_parse_packets cfg p s = Some (Inr (parsed cfg evs b' (p, s))) \<and> bip_inv b' \<and>
    bip_contents b' = r \<and> bip_size b' = bip_size (buffer p)"
  using try_parse_loop_scan [OF assms, of s] by (auto simp: try_parse_packets_def bip_after_def)

theorem parser_refines_scanner_witness:
  "\<exists>b'. try_parse_packets arm_config (arm_parser_with (sent_bytes ack_sent)) [] =
      Some (Inr (parsed arm_config (sent_events ack_sent) b' (arm_parser_with (sent_bytes ack_sent), []))) \<and> bip_inv b' \<and>
    bip_contents b' = [] \<and> bip_size b' = bip_size (buffer (arm_parser_with (sent_bytes ack_sent)))"
  by (rule parser_refines_scanner [OF wf_arm_config])
    (simp_all add: arm_parser_with_contents ack_sent_bytes [THEN arg_cong [of _ _ length]] arm_scan_ack arm_conforming_ack)

text \<open>
  C11: how a stream is cut into chunks does not matter, when every frame with correct checksums in it has the
  payload length of its packet. From an empty ring (in a state its operations leave it in, its size that of two
  chunks and two frames or more), two ways to push the same bytes, in chunks of at most
  \<open>N\<close>, both accept every chunk, deliver the same packets to the same pool and callbacks, and leave the
  same bytes waiting, fewer than one frame.
\<close>

theorem chunking_is_irrelevant:
  assumes "wf_config cfg" and "workers cfg \<noteq> []" and "parser_ready cfg N p" and "bip_contents (buffer p) = []"
    and "scan (is_start cfg) (judge cfg) (concat cs) = (evs, r)" and "list_all (conforming cfg) evs"
    and "concat cs' = concat cs" and "\<forall>c\<in>set (cs @ cs'). length c \<le> N"
  shows "\<exists>b b'. push_chunks cfg cs p s = Some (Inr (replicate (length cs) (Inr ()), parsed cfg evs b (p, s))) \<and>
    push_chunks cfg cs' p s = Some (Inr (replicate (length cs') (Inr ()), parsed cfg evs b' (p, s))) \<and>
    bip_contents b = r \<and> bip_contents b' = r \<and> length r < calculate_max_frame_size (packets cfg)"
proof -
  have sc: "scan (is_start cfg) (judge cfg) (bip_contents (buffer p)) = ([], bip_contents (buffer p))" by (simp add: assms(4))
  obtain b where "push_chunks cfg cs p s = Some (Inr (replicate (length cs) (Inr ()), parsed cfg evs b (p, s)))"
    and b: "bip_contents b = r" "parser_ready cfg N (fst (parsed cfg evs b (p, s)))"
    using push_chunks_scan [OF assms(1-3) sc, of cs evs r s] assms(4-8) by auto
  moreover obtain b' where "push_chunks cfg cs' p s = Some (Inr (replicate (length cs') (Inr ()), parsed cfg evs b' (p, s)))"
    and "bip_contents b' = r"
    using push_chunks_scan [OF assms(1-3) sc, of cs' evs r s] assms(4-8) by auto
  moreover have "length r < calculate_max_frame_size (packets cfg)"
    using b length_bip_contents [of b] by (simp add: parser_ready_def)
  ultimately show ?thesis by blast
qed

theorem chunking_is_irrelevant_witness:
  "\<exists>b b'. push_chunks arm_config [[0], packet_frame 7 (AckP, ack_bytes 1 0x6103)] (parser_init arm_packets ()) [] =
      Some (Inr ([Inr (), Inr ()], parsed arm_config (sent_events ack_sent) b (parser_init arm_packets (), []))) \<and>
    push_chunks arm_config [sent_bytes ack_sent] (parser_init arm_packets ()) [] =
      Some (Inr ([Inr ()], parsed arm_config (sent_events ack_sent) b' (parser_init arm_packets (), []))) \<and>
    bip_contents b = [] \<and> bip_contents b' = []"
proof -
  have "bip_contents (buffer (parser_init arm_packets ())) = []" by (simp add: parser_init_def)
  from chunking_is_irrelevant [OF wf_arm_config _ arm_parser_init_ready this, of "[[0], packet_frame 7 (AckP, ack_bytes 1 0x6103)]"
      "sent_events ack_sent" "[]" "[sent_bytes ack_sent]" "[]"] arm_scan_ack arm_conforming_ack
  show ?thesis by (auto simp: ack_sent_bytes numeral_2_eq_2)
qed

text \<open>
  C12: what one side serializes the other side parses. A stream of frames of any packets of the list, with any
  bytes but the start byte between them, pushed into a fresh parser in any chunks of at most \<open>N\<close> bytes,
  gives every packet to its callback and pool in order and leaves the ring empty; no push overflows.
\<close>

theorem stream_round_trip:
  assumes "default_packets Ts" and "sent_ok Ts ms" and "2 * N + 2 * max_frame_size Ts \<le> calculate_buffer_size Ts"
    and "concat cs = sent_bytes ms" and "list_all (\<lambda>c. length c \<le> N) cs" and "parser_config_of Ts ap mon = Some cfg"
  shows "\<exists>b'. push_chunks cfg cs (parser_init Ts m) s =
      Some (Inr (replicate (length cs) (Inr ()), parsed cfg (sent_events ms) b' (parser_init Ts m, s))) \<and>
    bip_contents b' = []"
  using default_stream [OF assms(1-5), of ap mon m s] assms(6) parser_config_of_default [OF assms(1), of ap mon] by simp

theorem stream_round_trip_witness:
  "\<exists>b'. push_chunks arm_config [sent_bytes ack_sent] (parser_init arm_packets ()) [] =
      Some (Inr ([Inr ()], parsed arm_config (sent_events ack_sent) b' (parser_init arm_packets (), []))) \<and>
    bip_contents b' = []"
proof -
  have "\<exists>b'. push_chunks arm_config [sent_bytes ack_sent] (parser_init arm_packets ()) [] =
      Some (Inr (replicate (length [sent_bytes ack_sent]) (Inr ()),
        parsed arm_config (sent_events ack_sent) b' (parser_init arm_packets (), []))) \<and> bip_contents b' = []"
    by (rule stream_round_trip [OF default_arm_packets ack_sent_ok, of 256])
      (simp_all add: max_frame_size_arm buffer_size_arm ack_sent_bytes arm_config_def
        parser_config_of_default [OF default_arm_packets])
  then show ?thesis by (simp del: push_chunks.simps)
qed

text \<open>
  C13: a damaged frame is never delivered. When one byte behind the start byte, or two neighbours behind the
  length and sequence fields, differ from the frame that was sent, the parser reports \<open>Failure\<close> whatever
  follows in the ring, wherever the frame wraps, and changes neither ring nor pool and calls nothing.
\<close>

theorem damaged_frame_refused:
  assumes "default_packets Ts" and "T \<in> set Ts" and "length packet = pt_size T"
    and "packet_frame seq (T, packet) = pre @ d @ post" and "burst pre d d'"
    and "bip_inv (buffer p)" and "des_inv Ts (deser p)" and "bip_contents (buffer p) = pre @ d' @ post @ rest"
  shows "parse_frame_impl (default_config Ts ap mon) default_worker p s = Inr (Failure, p, s)"
proof -
  let ?cfg = "default_config Ts ap mon" and ?M = "calculate_max_frame_size Ts"
  have "pre \<noteq> []" using assms(5) by (auto simp: burst_def)
  then obtain x xs where pre: "pre = x # xs" by (cases pre) auto
  have "x = 0xA5"
    using assms(4) by (simp add: pre packet_frame_def default_frame_def default_body_def default_header_def Let_def)
  then have "classify ?M default_worker (pre @ d @ post) = Frame (length (pre @ d @ post)) (pt_cmd T, packet)"
    using judge_packet_frame [OF assms(1-3), of ap mon seq] unfolding assms(4)
    by (simp add: pre judge_default calculate_max_frame_size_eq)
  from burst_classified_bad [OF this assms(5), of rest] show ?thesis
    using parse_frame_classify [OF wf_default_config [OF assms(1)] _ assms(6), of default_worker ap mon s] assms(7,8) by simp
qed

theorem damaged_frame_refused_witness:
  "parse_frame_impl arm_config default_worker (arm_parser_with damaged_ack) [] =
     Inr (Failure, arm_parser_with damaged_ack, [])"
  unfolding arm_config_def
  by (rule damaged_frame_refused [OF default_arm_packets ack_in_arm, of "ack_bytes 1 0x6103" 7 "take 7 ack_frame"
        "[ack_frame ! 7]" "drop 8 ack_frame" "[ack_frame ! 7 + 1]" _ "[]"])
    (simp_all add: arm_parser_with_contents length_damaged_ack damaged_ack_def burst_def ack_frame_split)

text \<open>
  C14: a frame with correct checksums whose payload is longer than its packet, and which wraps inside the
  payload, makes the parser write outside its temporary object.
\<close>

theorem long_payload_overruns:
  assumes "default_packets Ts" and "T \<in> set Ts" and "pt_after_parse T" and "pt_skip_memory_pool T"
    and "bip_inv (buffer p)" and "pt_size T < length payload" and "length payload + 9 \<le> max_frame_size Ts"
    and "length payload < 2 ^ 16" and "bip_contents (buffer p) = default_frame seq (pt_cmd T) payload @ rest"
    and "7 < region_a_size (buffer p)" and "region_a_size (buffer p) < 7 + length payload"
  shows "parse_frame_impl (default_config Ts ap mon) default_worker p s = Inl Out_Of_Bounds"
  by (rule long_split_payload [OF assms])

theorem long_payload_overruns_witness:
  "parse_frame_impl arm_config default_worker (split_parser 10 long_ack) [] = Inl Out_Of_Bounds"
  unfolding arm_config_def
  by (rule long_payload_overruns [OF default_arm_packets ack_in_arm ack_traits_arm, of _ "replicate 20 0" 7 "[]"])
    (simp_all add: split_parser_contents long_ack_def max_frame_size_arm)



section \<open>Checksums\<close>

text \<open>
  C16: the table-driven CRC-8 and CRC-16 of every message, continued from any prior value, are those of the
  bit-serial shift register with the reflected polynomials 0x8C and 0x8408.
\<close>

theorem crc_tables_are_bit_serial:
  "crc_calc ProtocolCRC8 bs prior8 = crc_serial 0x8C prior8 bs \<and>
   crc_calc ProtocolCRC16 bs prior16 = crc_serial 0x8408 prior16 bs"
proof -
  have "word_reverse (0x31 :: u8) = 0x8C" "word_reverse (0x1021 :: u16) = 0x8408"
    unfolding reverse_bits8_eq [symmetric] reverse_bits16_eq [symmetric]
    by (simp_all add: reverse_bits8_def reverse_bits16_def reverse_lookup_def)
  then show ?thesis
    using crc_calc_serial [OF ProtocolCRC8_reflected, of bs prior8] crc_calc_serial [OF ProtocolCRC16_reflected, of bs prior16]
    by (simp add: ProtocolCRC8_def ProtocolCRC16_def)
qed

text \<open>
  C17: either checksum tells apart two messages that differ only in a run of bytes no longer than the checksum,
  wherever the run is and whatever surrounds it.
\<close>

theorem crc_detects_bursts:
  assumes "length d = length d'" and "d \<noteq> d'"
  shows "(length d \<le> 1 \<longrightarrow> crc_calc ProtocolCRC8 (xs @ d @ ys) c8 \<noteq> crc_calc ProtocolCRC8 (xs @ d' @ ys) c8) \<and>
    (length d \<le> 2 \<longrightarrow> crc_calc ProtocolCRC16 (xs @ d @ ys) c16 \<noteq> crc_calc ProtocolCRC16 (xs @ d' @ ys) c16)"
  using crc_calc_burst [OF ProtocolCRC8_reflected ProtocolCRC8_top assms(1) _ assms(2), of xs ys c8]
    crc_calc_burst [OF ProtocolCRC16_reflected ProtocolCRC16_top assms(1) _ assms(2), of xs ys c16]
  by simp

theorem crc_detects_bursts_witness:
  "crc_calc ProtocolCRC16 ([1, 2] @ [3, 4] @ [5]) 0xFFFF \<noteq> crc_calc ProtocolCRC16 ([1, 2] @ [3, 5] @ [5]) 0xFFFF"
  using crc_detects_bursts [of "[3, 4]" "[3, 5]" "[1, 2]" "[5]" 0 "0xFFFF"] by simp

text \<open>
  The checksum computed over a frame that wraps at the end of the ring, and the received checksum picked
  up from the two pieces, are those of the frame in one piece.
\<close>

lemma segmented_checksum:
  assumes "n + 2 \<le> length s1 + length s2"
  shows "segmented_crc DefaultProtocol s1 s2 n = crc_calc ProtocolCRC16 (take n (s1 @ s2)) (null_crc ProtocolCRC16) \<and>
    segmented_recv_crc s1 s2 n = le_val (take 2 (drop n (s1 @ s2)))"
  using segmented_crc_append [of DefaultProtocol s1 s2 n] segmented_recv_crc_append [OF assms]
    crc_calc_append [OF ProtocolCRC16_reflected] by simp

lemma segmented_checksum_example:
  "segmented_crc DefaultProtocol [1, 2, 3] [4] 2 = crc_calc ProtocolCRC16 (take 2 ([1, 2, 3] @ [4])) (null_crc ProtocolCRC16) \<and>
   segmented_recv_crc [1, 2, 3] [4] 2 = le_val (take 2 (drop 2 ([1, 2, 3] @ [4])))"
  by (rule segmented_checksum) simp

section \<open>The serializer\<close>

text \<open>
  C18: \<open>serialize\<close> of packets of the default protocol writes their frames one after the other, each with the
  same sequence number, and counts the sequence up; when they do not fit it reports \<open>BufferOverflow\<close> and
  touches neither buffer nor sequence number.
\<close>

theorem serialize_frames:
  assumes "list_all default_packet ps"
  shows "serialize ps buf seq =
    (let total = (\<Sum>p\<leftarrow>ps. frame_size (fst p))
     in if total \<le> length buf then (Inr total, mem_write buf 0 (concat (map (packet_frame seq) ps)), seq + 1)
        else (Inl (mk_error ErrorCode_BufferOverflow ''Expecting a larger size buffer''), buf, seq))"
  using serialize_default [OF assms, of buf seq] serialize_overflow [of buf ps seq] by (simp add: Let_def)

theorem serialize_frames_witness:
  "serialize [(AckP, ack_bytes 1 2)] (replicate 16 0) 255 =
     (Inr 16, mem_write (replicate 16 0) 0 (packet_frame 255 (AckP, ack_bytes 1 2)), 0) \<and>
   serialize [(AckP, ack_bytes 1 2)] (replicate 15 0) 255 =
     (Inl (mk_error ErrorCode_BufferOverflow ''Expecting a larger size buffer''), replicate 15 0, 255)"
  using serialize_frames [of "[(AckP, ack_bytes 1 2)]" "replicate 16 0" 255]
    serialize_frames [of "[(AckP, ack_bytes 1 2)]" "replicate 15 0" 255]
  by (simp add: default_packet_def frame_size_def)

section \<open>The receive buffers\<close>

text \<open>
  C19: the bipartite buffer is a queue of bytes. In any sequence of writes and reads the bytes read are the
  bytes of the accepted writes, in order, and what is inside is the rest; from an empty buffer the backlog
  never exceeds its size.
\<close>

theorem bip_buffer_is_fifo:
  assumes "bip_inv b" and "fifo_run bip_write bip_pop ops b = (acc, out, b')"
  shows "bip_inv b' \<and> bip_contents b @ acc = out @ bip_contents b' \<and>
    length (bip_contents b) + length acc \<le> length out + bip_size b"
proof -
  have f: "bip_inv b'" "bip_contents b @ acc = out @ bip_contents b'" using bip.run_fifo [OF assms] by simp_all
  have "length (bip_contents b) + length acc = length out + length (bip_contents b')"
    using arg_cong [OF f(2), of length] by (simp only: length_append)
  moreover have "length (bip_contents b') \<le> bip_size b" using bip.bounded [OF f(1)] unfolding bip.run_capacity [OF assms] .
  ultimately show ?thesis using f by simp
qed

theorem bip_buffer_is_fifo_witness:
  "let (acc, out, b') = fifo_run bip_write bip_pop [Push [1, 2, 3], Pop 2, Push [4, 5], Pop 9] (bip_init 4)
   in bip_inv b' \<and> acc = out @ bip_contents b' \<and> length acc \<le> length out + 4"
proof -
  obtain acc out b' where run: "fifo_run bip_write bip_pop [Push [1, 2, 3], Pop 2, Push [4, 5], Pop 9] (bip_init 4) = (acc, out, b')"
    by (rule prod_cases3)
  show ?thesis using bip_buffer_is_fifo [OF bip_init_inv run] unfolding run by auto
qed

text \<open>
  C20: a write is accepted exactly when one of the two regions can take it in one piece, then the bytes are
  appended; a refused write changes nothing. There may be room in total and no piece long enough.
\<close>

theorem bip_write_all_or_nothing:
  assumes "bip_inv b"
  shows "\<exists>b'. bip_write xs b = (bip_fits (length xs) b, b') \<and> bip_inv b' \<and> bip_size b' = bip_size b \<and>
    (if bip_fits (length xs) b then bip_contents b' = bip_contents b @ xs else b' = b)"
proof (cases "bip_fits (length xs) b")
  case True
  obtain ok b' where w: "bip_write xs b = (ok, b')" by fastforce
  from bip_write_accepted [OF assms True w] show ?thesis using w True by simp
qed (use assms bip_write_refused in auto)

theorem bip_write_all_or_nothing_witness:
  "bip_space (fragmented_bip) = 4 \<and> bip_write [1, 2, 3] fragmented_bip = (False, fragmented_bip)"
  using bip_write_all_or_nothing [of fragmented_bip "[1, 2, 3]"]
  by (auto simp: fragmented_bip_def bip_space_def bip_fits_def bip_inv_def)

text \<open>
  C21: \<open>advance_write_index\<close> does not check the length on an empty buffer: a caller that announces more bytes
  than \<open>get_write_buffer\<close> offered is told it succeeded, and the region then runs past the end of the memory.
\<close>

theorem advance_unchecked_when_empty:
  assumes "bip_size b < len"
  shows "\<exists>b'. advance_write_index len (bip_clear b) = (True, b') \<and> \<not> bip_inv b' \<and> bip_size b' < bip_available b'"
  using assms by (auto simp: advance_write_index_def bip_clear_def bip_inv_def bip_available_def Let_def)

theorem advance_unchecked_when_empty_witness:
  "\<exists>b'. advance_write_index 5 (bip_clear (bip_init 4)) = (True, b') \<and> \<not> bip_inv b' \<and> bip_size b' < bip_available b'"
  by (rule advance_unchecked_when_empty) simp

text \<open>
  C22: looking into the buffer. The two spans of a range that is available, put together, are the bytes of that
  range; \<open>peek\<close> copies the same bytes, and fails exactly when the range is not available; the spans lie
  inside the memory.
\<close>

theorem read_spans_are_contents:
  assumes "bip_inv b" and "get_read_spans offset len b = (s1, s2)"
  shows "(if offset + len \<le> bip_available b
      then span_bytes b s1 @ span_bytes b s2 = mem_read (bip_contents b) offset len \<and>
        bip_peek offset len b = Some (span_bytes b s1 @ span_bytes b s2) \<and> snd s1 + snd s2 = len
      else bip_peek offset len b = None \<and> s1 = (0, 0) \<and> s2 = (0, 0)) \<and>
    fst s1 + snd s1 \<le> bip_size b \<and> fst s2 + snd s2 \<le> bip_size b"
  using get_read_spans_bytes [OF assms(1) _ assms(2)] bip_peek_contents [OF assms(1), of offset len]
    get_read_spans_in_mem [OF assms] get_read_spans_length [OF _ assms(2)] assms(2)
  by (auto simp: get_read_spans_def)

theorem read_spans_are_contents_witness:
  "span_bytes wrapped_bip (3, 1) @ span_bytes wrapped_bip (0, 1) = mem_read (bip_contents wrapped_bip) 1 2 \<and>
   bip_peek 1 2 wrapped_bip = Some [4, 1]"
  using read_spans_are_contents [of wrapped_bip 1 2 "(3, 1)" "(0, 1)"]
  by (simp add: wrapped_bip_def bip_inv_def get_read_spans_def bip_available_def span_bytes_def mem_read_def)

text \<open>
  C23: the interrupt ring is a queue of bytes whatever its counters: they run free, wrap at the width of
  \<open>size_t\<close> and are masked only to index, and no sequence of writes and reads loses, repeats or reorders a byte of
  an accepted write.
\<close>

theorem isr_ring_is_fifo:
  assumes "isr_inv (r :: 'w::len word isr_ring)" and "fifo_run isr_write isr_read ops r = (acc, out, r')"
  shows "isr_inv r' \<and> isr_contents r @ acc = out @ isr_contents r' \<and> isr_available r' \<le> rb_capacity r"
proof -
  have f: "isr_inv r'" "isr_contents r @ acc = out @ isr_contents r'" using isr.run_fifo [OF assms] by simp_all
  moreover have "isr_available r' \<le> rb_capacity r" using isr.bounded [OF f(1)] isr.run_capacity [OF assms] by simp
  ultimately show ?thesis by simp
qed

theorem isr_ring_is_fifo_witness:
  "let (acc, out, r') = fifo_run isr_write isr_read [Push [1, 2, 3], Pop 2, Push [4]] wrapping_ring
   in isr_inv r' \<and> acc = out @ isr_contents r' \<and> isr_available r' \<le> 4"
proof -
  obtain acc out r' where run: "fifo_run isr_write isr_read [Push [1, 2, 3], Pop 2, Push [4]] wrapping_ring = (acc, out, r')"
    by (rule prod_cases3)
  show ?thesis using isr_ring_is_fifo [OF wrapping_ring_facts(1) run] unfolding run wrapping_ring_facts(2,3) by simp
qed

text \<open>
  C24: a write to the interrupt ring is refused exactly when it is longer than the free space; a refused write
  is counted as dropped and changes nothing else.
\<close>

theorem isr_write_refused_when_full:
  assumes "isr_inv (r :: 'w::len word isr_ring)"
  shows "\<exists>r'. isr_write data r = (length data \<le> rb_capacity r - isr_available r, r') \<and>
    (if length data \<le> rb_capacity r - isr_available r
     then isr_contents r' = isr_contents r @ data \<and> isr_dropped_writes r' = isr_dropped_writes r
     else r' = r\<lparr>rb_drop_count := isr_dropped_writes r + 1\<rparr>)"
proof (cases "length data \<le> rb_capacity r - isr_available r")
  case True
  obtain ok r' where w: "isr_write data r = (ok, r')" by fastforce
  have "isr_dropped_writes r' = isr_dropped_writes r" using w isr_write_cases [OF assms, of data] True by (auto simp: isr_dropped_writes_def)
  then show ?thesis using isr_write_accepted [OF assms True w] w True by simp
qed (use isr_write_cases [OF assms, of data] in \<open>simp add: isr_dropped_writes_def\<close>)

theorem isr_write_refused_when_full_witness:
  "isr_write [1, 2, 3, 4, 5] wrapping_ring = (False, wrapping_ring\<lparr>rb_drop_count := 1\<rparr>)"
  using isr_write_refused_when_full [OF wrapping_ring_facts(1), of "[1, 2, 3, 4, 5]"]
  unfolding wrapping_ring_facts(3,4) by (simp add: isr_dropped_writes_def wrapping_ring_facts(5))

text \<open>
  C25: the interrupt ring with both its users running. In every state that the interleaved steps of \<open>write\<close> and
  \<open>read\<close> reach, down to single bytes of their copies, what was accepted is what was delivered followed by
  the contents; at most the capacity is outstanding; and what a read has copied so far is the continuation
  of what was delivered, although a write may be in the middle of its copy.
\<close>

theorem isr_ring_concurrent:
  assumes "isr_inv r" and "ring_steps (ring_start r) s"
  shows "accepted s = delivered s @ isr_contents (shared s) \<and> isr_inv (shared s) \<and>
    length (accepted s) \<le> length (delivered s) + rb_capacity r \<and>
    (\<forall>n out. consumer s = C_Copy n out \<longrightarrow> prefix (delivered s @ out) (accepted s))"
  using ring_system_fifo [OF assms] by blast

theorem isr_ring_concurrent_witness:
  "ring_steps (ring_start wrapping_ring) overlapped \<and> producer overlapped = P_Copy [9] 1 0 \<and>
   consumer overlapped = C_Copy 1 [7] \<and> accepted overlapped = delivered overlapped @ isr_contents (shared overlapped)"
  using isr_ring_concurrent [OF wrapping_ring_facts(1) overlapped_reached] overlapped_reached
  by (simp add: overlapped_def)

text \<open>
  C26: \<open>write\<close> and \<open>read\<close> taken as a whole are runs of these steps that nothing interrupts: the atomic operations
  of the ring, whose results they return, are among the behaviours of the interleaved one.
\<close>

theorem isr_operations_are_runs:
  assumes "isr_inv (shared s)" and "producer s = P_Idle" and "consumer s = C_Idle"
    and "isr_write data (shared s) = (ok, r1)" and "isr_read mx (shared s) = (ys, r2)"
  shows "ring_steps s (s\<lparr>shared := r1, accepted := accepted s @ (if ok then data else [])\<rparr>) \<and>
    ring_steps s (s\<lparr>shared := r2, delivered := delivered s @ ys\<rparr>)"
  using write_is_a_run [OF assms(1,2,4)] read_is_a_run [OF assms(1,3,5)] by simp

theorem isr_operations_are_runs_witness:
  "ring_steps (ring_start wrapping_ring) ((ring_start wrapping_ring)\<lparr>shared := written_ring, accepted := [7, 8]\<rparr>)"
proof -
  obtain ys r2 where rd: "isr_read 1 wrapping_ring = (ys, r2)" by fastforce
  from isr_operations_are_runs [of "ring_start wrapping_ring" "[7, 8]" True written_ring 1 ys r2]
  show ?thesis using rd written_ring_eq wrapping_ring_facts by (simp add: ring_start_def)
qed

section \<open>Duplicates\<close>

text \<open>
  C27: the id ring is a window over the last ids inserted, as many as its capacity. \<open>test_and_insert\<close> answers
  whether the id is in the window; a new id pushes out the oldest, a known one changes nothing; and an id
  just inserted is recognised until as many other insertions as the capacity have been made.
\<close>

theorem id_ring_is_window:
  assumes "id_ring_inv r"
  shows "test_and_insert k r = (k \<in> set (id_ring_window r), snd (test_and_insert k r)) \<and>
    id_ring_window (snd (test_and_insert k r)) =
      (if k \<in> set (id_ring_window r) then id_ring_window r else tl (id_ring_window r) @ [k]) \<and>
    id_ring_inv (snd (test_and_insert k r)) \<and>
    (k \<notin> set (id_ring_window r) \<and> length ks < id_ring_size r \<longrightarrow>
       fst (test_and_insert k (dedup_run test_and_insert ks (snd (test_and_insert k r)))))"
proof (cases "k \<in> set (id_ring_window r)")
  case True
  then show ?thesis using idr.tai_seen [OF assms True] assms by simp
next
  case False
  then show ?thesis using idr.tai_fresh [OF assms False] idr.recognised_after_fresh [OF assms False, of ks]
    by (auto simp: id_ring_size_def)
qed

theorem id_ring_is_window_witness:
  "fst (test_and_insert 5 (dedup_run test_and_insert [6, 7, 8] (snd (test_and_insert 5 (id_ring_init 4 :: nat id_ring)))))"
proof -
  have "id_ring_inv (id_ring_init (2 ^ 2) :: nat id_ring)" by (rule id_ring_init_inv)
  from id_ring_is_window [OF this, of 5 "[6, 7, 8]"] show ?thesis
    by (simp add: id_ring_size_def) (simp add: id_ring_init_def)
qed

text \<open>
  The key of a request or response determines command and transaction; with a transaction id other than
  zero it is never the zero that an empty ring is filled with.
\<close>

lemma dedup_key_identifies:
  "(compose_dedup_key cmd tx = compose_dedup_key cmd' tx' \<longleftrightarrow> cmd = cmd' \<and> tx = tx') \<and>
   (compose_dedup_key cmd tx = 0 \<longleftrightarrow> cmd = 0 \<and> tx = 0)"
  using compose_dedup_key_inject [of cmd tx cmd' tx'] compose_dedup_key_inject [of cmd tx 0 0]
  by (simp add: compose_dedup_key_def)

section \<open>Packets\<close>

text \<open>
  C28: the packet table of the arm is coherent: all ids differ, every payload size is the size of the packed
  structure, all frames are of the default protocol with one start byte, fit the stack's frame buffer and
  the session's packet buffer, and the parser's derived sizes are 136 and 1024 bytes.
\<close>

theorem arm_packet_table:
  "default_packets arm_packets \<and>
   list_all (\<lambda>T. frame_size T \<le> MAX_FRAME_SIZE \<and> pt_size T \<le> MAX_PACKET_SIZE) arm_packets \<and>
   calculate_max_frame_size arm_packets = 136 \<and> calculate_buffer_size arm_packets = 1024 \<and>
   UniqueWorkers arm_packets = [default_worker] \<and> header_lut arm_packets = Some default_lut \<and>
   unique_start_byte default_lut = 0xA5"
proof -
  have "header_lut arm_packets = Some default_lut"
    using parser_config_of_default [OF default_arm_packets, of "\<lambda>T packet s. s" id]
    by (auto simp: parser_config_of_def default_config_def)
  then show ?thesis
    by (simp add: default_arm_packets arm_frames_fit max_frame_size_arm buffer_size_arm calculate_max_frame_size_eq
        UniqueWorkers_default unique_start_byte_default)
qed

text \<open>
  C29: the stack cannot receive \<open>MotorFeedbackArray\<close>. Its id 0x6002 is even, so the packet is taken for a
  response; it carries no transaction id, so it is dropped: whatever handler is registered, the state does
  not change.
\<close>

theorem motor_feedback_array_dropped:
  assumes "e_packets env = arm_packets"
  shows "dispatch_after_parse env PacketTraits_MotorFeedbackArray data (register_handler 0x6002 h c) =
    register_handler 0x6002 h c"
  by (rule motor_feedback_ignored [OF assms])

theorem motor_feedback_array_dropped_witness:
  "dispatch_after_parse log_env PacketTraits_MotorFeedbackArray (replicate 120 1) (register_handler 0x6002 (Some ()) core0) =
     register_handler 0x6002 (Some ()) core0"
  by (rule motor_feedback_array_dropped) simp

section \<open>The packet pool\<close>

text \<open>
  C30: the pool keeps the last packet of every type. Writing a packet of type \<open>i\<close>, in one piece or in the two
  pieces of a wrapped frame, succeeds inside the pool; afterwards \<open>get\<close> returns those bytes for type \<open>i\<close> and what
  it returned before for every other type, and always terminates.
\<close>

theorem pool_keeps_packets:
  assumes "des_inv Ts d" and "distinct (map pt_cmd Ts)" and "i < length Ts" and "j < length Ts"
    and "length s1 + length s2 = sizeof (pt_type (Ts ! i))"
  shows "\<exists>d'. des_write_segmented Ts (pt_cmd (Ts ! i)) s1 s2 d = Some d' \<and>
    des_write Ts (pt_cmd (Ts ! i)) (s1 @ s2) d = Some d' \<and> des_inv Ts d' \<and>
    des_get Ts (Ts ! j) d' = (if i = j then Some (s1 @ s2) else des_get Ts (Ts ! j) d)"
  using des_write_segmented_eq [OF assms(1-3)] des_write_eq [OF assms(1-3)] assms(5)
    des_put_inv [OF assms(1,3), of "s1 @ s2"] des_get_put [OF assms(1-4), of "s1 @ s2"] by simp

theorem pool_keeps_packets_witness:
  "\<exists>d'. des_write_segmented serial_packets 0x6FF0 [1, 2, 3] [4, 5, 6, 7] (deserializer_init serial_packets) = Some d' \<and>
     des_write serial_packets 0x6FF0 ([1, 2, 3] @ [4, 5, 6, 7]) (deserializer_init serial_packets) = Some d' \<and>
     des_inv serial_packets d' \<and> des_get serial_packets AckP d' = Some [1, 2, 3, 4, 5, 6, 7]"
  using pool_keeps_packets [OF deserializer_init_inv [of serial_packets], of 0 0 "[1, 2, 3]" "[4, 5, 6, 7]"] default_serial_packets
  by (simp add: serial_packets_def default_packets_def AckPacket_def ACK_CMD_def)

text \<open>
  C31: the layout of the pool, for any sizes and any alignments that are powers of two: every slot is aligned, no
  slot overlaps a later one, and all lie inside the total size.
\<close>

theorem pool_layout:
  assumes "calculate_offsets ps c = (offs, e)" and "\<forall>p\<in>set ps. \<exists>k. fst p = 2 ^ k" and "i < length ps"
  shows "length offs = length ps \<and> c \<le> offs ! i \<and> fst (ps ! i) dvd offs ! i \<and> offs ! i + snd (ps ! i) \<le> e \<and>
    (\<forall>j. i < j \<and> j < length ps \<longrightarrow> offs ! i + snd (ps ! i) \<le> offs ! j)"
  using calculate_offsets_layout [OF assms(1,2)] assms(3) by simp

theorem pool_layout_witness:
  "calculate_offsets [(1, 3), (4, 8), (2, 2)] 0 = ([0, 4, 12], 14) \<and> (4 :: nat) dvd [0, 4, 12] ! 1"
proof -
  have c: "calculate_offsets [(1, 3), (4, 8), (2, 2)] 0 = ([0, 4, 12], 14)"
    by (simp add: align_up_def)
  have "\<forall>p\<in>set [(1, 3), (4, 8), (2, 2)]. \<exists>k. fst p = (2 :: nat) ^ k"
    by (auto intro: exI [of _ 0] exI [of _ 1] exI [of _ 2])
  from pool_layout [OF c this, of 1] c show ?thesis by simp
qed

section \<open>The reliable session\<close>

text \<open>
  C32: the window. In every state a session reaches by any interleaving of its operations (\<open>next_tx_id\<close> and
  \<open>register_pending\<close> being called together, as the stack's \<open>send\<close> does) in which no transaction id is handed out
  twice, in particular with fewer than \<open>2 ^ 32\<close> requests and no \<open>set_next_tx_id\<close>: the in-flight
  count is the number of pending requests in flight, it never exceeds the window, and no request in flight is
  also queued.
\<close>

theorem session_window:
  assumes "session_run ops (session_init config) = ((g, t, c), s)"
    and "distinct (map fst g) \<or> length g < 2 ^ 32 \<and> list_all (\<lambda>op. \<not> renumbers op) ops"
  shows "inflight_count s = card (in_flight s) \<and> inflight_count s \<le> window_size (m_config s) \<and>
    in_flight s \<inter> set (m_outbound_queue s) = {}"
proof -
  have "distinct (map fst g)" using assms(2) session_run_ids [OF assms(1)] distinct_ids [of "length g" "m_next_tx_id (session_init config)"]
    by auto
  from session_run_fresh [OF session_init_fresh assms(1) this] show ?thesis by (simp add: fresh_inv_def inflight_count_def)
qed

theorem session_window_witness:
  "inflight_count one_sent = card (in_flight one_sent) \<and> inflight_count one_sent \<le> window_size (m_config one_sent) \<and>
     in_flight one_sent \<inter> set (m_outbound_queue one_sent) = {}"
  using session_window [OF one_sent_run] by simp

text \<open>
  C33: the window leaks when an id is used again. In a session whose window is filled by the one request in
  flight, \<open>set_next_tx_id\<close> to its id followed by a request overwrites the entry without counting it down: whatever
  is called afterwards, acknowledgements, responses, polls, new requests, nothing is ever transmitted again.
\<close>

theorem reused_id_blocks_session:
  assumes "in_flight s = {k}" and "window_size (m_config s) \<le> inflight_count s" and "k \<noteq> 0"
    and "session_run (Op_Set_Next k # Op_Send cmd rcmd request on_resp on_err timeout retries now # ops) s = ((g, t, c), s')"
  shows "t = [] \<and> in_flight s' = {}"
proof -
  let ?s = "snd (session_send cmd rcmd (\<lambda>_. request) on_resp on_err timeout retries now (set_next_tx_id k s))"
  have "stuck ?s" using reused_id_stuck [OF assms(1) _ assms(3)] assms(2) by (simp add: inflight_count_def)
  moreover obtain g' where "session_run ops ?s = ((g', t, c), s')" using assms(4) by (auto split: prod.splits)
  ultimately have "stuck s' \<and> t = []" using stuck_run by blast
  then show ?thesis by (simp add: stuck_def)
qed

theorem reused_id_blocks_session_witness:
  "\<exists>g c s'. session_run [Op_Set_Next 1, Op_Send 0x6103 0x6104 [2] (Some ()) (Some ()) 100 3 0, Op_Pump 0, Op_Response 0x6104 1 [7],
      Op_Send 0x6103 0x6104 [3] (Some ()) (Some ()) 100 3 0, Op_Pump 0] one_sent = ((g, [], c), s')"
proof -
  let ?ops = "[Op_Pump 0, Op_Response 0x6104 1 [7], Op_Send 0x6103 0x6104 [3] (Some ()) (Some ()) 100 3 0, Op_Pump 0]"
  obtain g t c s' where run: "session_run (Op_Set_Next 1 # Op_Send 0x6103 0x6104 [2] (Some ()) (Some ()) 100 3 0 # ?ops) one_sent =
      ((g, t, c), s')" by (metis prod_cases3 prod.exhaust)
  from reused_id_blocks_session [OF one_sent_in_flight _ _ run] have "t = []" by (simp add: inflight_count_def one_sent_state)
  with run show ?thesis by blast
qed

text \<open>
  C34: the refinement of the session. Registering a request hands out the next id, adds the entry, not in flight,
  and queues the id, and changes nothing else; every other operation is a sequence of the steps of \<open>session_step\<close>:
  an entry is transmitted from the queue while the window has room, transmitted again while it is in flight
  and has retries left, postponed, or ended, or the next id is changed; a response callback runs only for an
  entry that is pending, an error callback only for one whose retries are used up.
\<close>

theorem session_operations_are_steps:
  "case op of
     Op_Send cmd rcmd request on_resp on_err timeout retries now \<Rightarrow>
       session_exec op s = (([(m_next_tx_id s, retries)], [], []),
         s\<lparr>m_next_tx_id := m_next_tx_id s + 1, m_outbound_queue := m_outbound_queue s @ [m_next_tx_id s],
           m_pending_by_tx := (m_pending_by_tx s)(m_next_tx_id s \<mapsto>
             \<lparr>pe_tx_id = m_next_tx_id s, pe_request_cmd = cmd, pe_response_cmd = rcmd, pe_request_bytes = take MAX_PACKET_SIZE request,
              pe_on_response = on_resp, pe_on_error = on_err, pe_timeout = timeout, pe_max_retries = retries,
              pe_retry_count = 0, pe_inflight = False, pe_deadline = now + timeout\<rparr>)\<rparr>)
   | _ \<Rightarrow> (\<exists>t c s'. session_exec op s = (([], t, c), s') \<and> session_steps s t c s')"
proof -
  obtain g t c s' where e: "session_exec op s = ((g, t, c), s')" by (metis prod_cases3 prod.exhaust)
  then show ?thesis
  proof (cases rule: session_exec_steps)
    case (send cmd rcmd request on_resp on_err timeout retries now)
    then show ?thesis by (simp add: session_send_def next_tx_id_def register_pending_def)
  qed (use e in \<open>cases op; auto split: prod.splits\<close>)
qed

text \<open>
  C35: in any run of a session, a request is transmitted at most once more than its retries allow; summed over
  the requests registered under one transaction id when ids repeat.
\<close>

theorem transmissions_bounded:
  assumes "session_run ops (session_init config) = ((g, t, c), s)"
  shows "sent_count t tx + budget s tx \<le> granted g tx"
  using session_run_sent [OF session_init_keyed assms, of tx] by simp

theorem transmissions_bounded_witness:
  "sent_count [\<lparr>re_tx_id = 1, re_request_cmd = 0x6103, re_request_bytes = [1]\<rparr>] 1 + budget one_sent 1 \<le> granted [(1, 3)] 1"
  by (rule transmissions_bounded [OF one_sent_run])

text \<open>
  C36: a request's callbacks run at most once. In any run, the response and error callbacks of a registration
  are called, together, no more often than requests carrying them were sent.
\<close>

theorem callbacks_at_most_once:
  assumes "session_run ops (session_init config) = ((g, t, c), s)"
  shows "calls r e c \<le> sum_list (map (registers r e) ops)"
proof -
  have "carriers r e (session_init config) = {}" by (simp add: carriers_def session_init_def)
  then show ?thesis using session_run_calls [OF assms, of r e] by simp
qed

theorem callbacks_at_most_once_witness:
  "calls () () [Call_Response () [7] :: (unit, unit) callback] = 1 \<and>
   calls () () [Call_Response () [7] :: (unit, unit) callback] \<le> sum_list (map (registers () ()) answered_ops)"
proof -
  obtain s where run: "session_run answered_ops (session_init default_session_config) =
     (([(1, 3)], [\<lparr>re_tx_id = 1, re_request_cmd = 0x6103, re_request_bytes = [1]\<rparr>], [Call_Response () [7]]), s)"
    by (rule answered_run)
  show ?thesis using callbacks_at_most_once [OF run, of "()" "()"] by (simp add: calls_def)
qed

text \<open>
  C37: a request that is never answered comes to an end. If \<open>poll\<close> is called whenever the request is due, then after
  one more poll than the retries left its error callback has been called with \<open>Timeout\<close> and it is gone.
\<close>

theorem unanswered_request_times_out:
  assumes "m_pending_by_tx s k = Some p" and "pe_inflight p" and "pe_on_error p = Some e"
    and "all_due k (pe_timeout p) (pe_deadline p) ps"
    and "unat (pe_max_retries p) - unat (pe_retry_count p) < length ps" and "poll_many ps s = (re, cbs, s')"
  shows "Call_Error e Timeout \<in> set cbs \<and> m_pending_by_tx s' k = None"
  by (rule poll_many_times_out [OF assms])

theorem unanswered_request_times_out_witness:
  "\<exists>re cbs s'. poll_many [(300, \<lambda>k. 300, [1]), (600, \<lambda>k. 600, [1]), (900, \<lambda>k. 900, [1]), (1200, \<lambda>k. 1200, [1])] one_sent =
     (re, cbs, s') \<and> Call_Error () Timeout \<in> set cbs \<and> m_pending_by_tx s' 1 = None"
proof -
  let ?ps = "[(300, \<lambda>k. 300, [1]), (600, \<lambda>k. 600, [1]), (900, \<lambda>k. 900, [1]), (1200, \<lambda>k. 1200, [1])] :: poll_call list"
  obtain re cbs s' where run: "poll_many ?ps one_sent = (re, cbs, s')" by (rule prod_cases3)
  from unanswered_request_times_out [OF one_sent_pending _ _ _ _ run] one_sent_entry run show ?thesis by simp
qed

text \<open>
  C38: one \<open>poll\<close>, whatever order the hash map is walked in: the requests that are due and have retries left are
  retransmitted and rescheduled, those without are given up with \<open>Timeout\<close>, every other entry is untouched.
\<close>

theorem poll_retries_or_gives_up:
  assumes "distinct ks" and "poll now nows ks s = (re, cbs, s')"
  shows "re = concat (map (\<lambda>k. poll_retry now (m_pending_by_tx s k)) ks) \<and>
    cbs = concat (map (\<lambda>k. poll_give_up now (m_pending_by_tx s k)) ks) \<and>
    (\<forall>k. m_pending_by_tx s' k =
       (if k \<in> set ks then poll_entry now nows k (m_pending_by_tx s k) else m_pending_by_tx s k))"
  using poll_loop_spec [OF assms(1)] assms(2) unfolding poll_def by blast

theorem poll_retries_or_gives_up_witness:
  "\<exists>re cbs s'. poll 300 (\<lambda>k. 300) [1] one_sent = (re, cbs, s') \<and>
     re = [\<lparr>re_tx_id = 1, re_request_cmd = 0x6103, re_request_bytes = [1]\<rparr>] \<and> cbs = []"
proof -
  obtain re cbs s' where run: "poll 300 (\<lambda>k. 300) [1] one_sent = (re, cbs, s')" by (rule prod_cases3)
  from poll_retries_or_gives_up [OF _ run] one_sent_pending one_sent_entry run show ?thesis
    by (simp add: poll_retry_def poll_give_up_def)
qed

text \<open>
  C39: a response that is cached for the first time (its key is not in the eviction order yet) stays in the
  device's cache until as many other responses as the capacity have been cached, and the cache never holds
  more.
\<close>

theorem response_stays_available:
  assumes "cache_inv s" and "compose_dedup_key cmd tx \<notin> set (m_completed_order s)"
    and "length rs < device_cache_capacity (m_config s)" and "compose_dedup_key cmd tx \<notin> cached_key ` set rs"
    and "s' = cache_responses rs (cache_response cmd tx rcmd bs s)"
  shows "m_completed_cache s' (compose_dedup_key cmd tx) =
      Some \<lparr>cr_response_cmd = rcmd, cr_response_bytes = take MAX_PACKET_SIZE bs\<rparr> \<and>
    cache_inv s' \<and> card (dom (m_completed_cache s')) \<le> device_cache_capacity (m_config s')"
proof -
  have "cache_inv s'" unfolding assms(5) by (intro cache_responses_inv cache_response_inv assms(1))
  moreover from this have "card (dom (m_completed_cache s')) \<le> card (set (m_completed_order s'))"
    by (simp add: cache_inv_def card_mono)
  moreover have "\<dots> \<le> length (m_completed_order s')" by (rule card_length)
  ultimately show ?thesis using response_stays_cached [OF assms(1-4), of rcmd bs] by (simp add: assms(5) cache_inv_def)
qed

theorem response_stays_available_witness:
  "m_completed_cache (cache_responses [(0x6103, 6, 0x6104, [2])] (cache_response 0x6103 5 0x6104 [1] one_sent))
     (compose_dedup_key 0x6103 5) = Some \<lparr>cr_response_cmd = 0x6104, cr_response_bytes = [1]\<rparr>"
proof -
  have "cache_inv one_sent" by (simp add: cache_inv_def one_sent_state)
  then show ?thesis
    using response_stays_available [where s = one_sent and cmd = "0x6103" and tx = 5 and rs = "[(0x6103, 6, 0x6104, [2])]"
        and rcmd = "0x6104" and bs = "[1]", OF _ _ _ _ refl]
    by (simp add: compose_dedup_key_inject MAX_PACKET_SIZE_def one_sent_state)
qed

text \<open>
  C40: a response that is cached twice, as when a handler answers twice, is evicted early. From an empty order of
  evictions, when as many other responses as the capacity less one have been cached behind it, it is gone; after
  those, C39 still has a response that was cached once.
\<close>

theorem response_cached_twice_evicted:
  assumes "m_completed_order s = []" and "Suc (length rs) = device_cache_capacity (m_config s)"
    and "compose_dedup_key cmd tx \<notin> cached_key ` set rs"
  shows "m_completed_cache (cache_responses rs (cache_response cmd tx rcmd bs (cache_response cmd tx rcmd bs s)))
    (compose_dedup_key cmd tx) = None"
  by (rule recached_response_evicted [OF assms])

theorem response_cached_twice_evicted_witness:
  "m_completed_cache (cache_responses [(0x6103, 6, 0x6104, [2])] (cache_response 0x6103 5 0x6104 [1]
     (cache_response 0x6103 5 0x6104 [1] (session_init (default_session_config\<lparr>device_cache_capacity := 2\<rparr>)))))
     (compose_dedup_key 0x6103 5) = None"
  by (rule response_cached_twice_evicted)
    (simp_all add: session_init_def default_session_config_def compose_dedup_key_inject)

end
